(* ===== verification/Rust_Prelude.thy ===== *)
theory Rust_Prelude
  imports Main "HOL-Library.Word"
begin

text \<open>
  Vocabulary shared by every component model: Rust's machine integers and the two ways a build
  treats their overflow, the result of a fallible operation, the computations that thread a
  mutable state through such operations, and the few facts about vectors and hash maps that
  several components need.

  An operation of the code that mutates \<open>self\<close> and returns \<open>Result<T, E>\<close> is a value of type
  \<open>('s, 'e, 'a) comp\<close>: it maps a state to an outcome and the state left behind. The state is
  returned on errors and panics too, because a method that returns early with \<open>?\<close> keeps every
  mutation made before.
\<close>

unbundle bit_operations_syntax

section \<open>Integers\<close>

type_synonym u8 = "8 word"
type_synonym u32 = "32 word"
type_synonym i32 = "32 word"
type_synonym u64 = "64 word"
type_synonym i64 = "64 word"
type_synonym usize = "64 word"

text \<open>
  \<open>i32\<close> and \<open>i64\<close> are words read with \<^const>\<open>sint\<close>, the unsigned types with \<^const>\<open>unat\<close>; a cast
  between equally wide types (\<open>i64 as usize\<close>, \<open>u64 as i64\<close>) is therefore the identity. \<open>usize\<close>
  is 64 bits wide. Plain \<open>+\<close>, \<open>-\<close> and \<open>*\<close> panic on overflow in a debug build and wrap in a
  release build (the README builds with \<open>--release\<close>, \<open>cargo test\<close> is a debug build), so the
  operations take the build and return \<open>None\<close> for the panic.
\<close>

datatype build = Debug | Release

definition add_u :: "build \<Rightarrow> 'w::len word \<Rightarrow> 'w word \<Rightarrow> 'w word option" where
  "add_u b x y =
     (if b = Debug \<and> 2 ^ LENGTH('w) \<le> unat x + unat y then None else Some (x + y))"

definition sub_u :: "build \<Rightarrow> 'w::len word \<Rightarrow> 'w word \<Rightarrow> 'w word option" where
  "sub_u b x y = (if b = Debug \<and> x < y then None else Some (x - y))"

definition mul_u :: "build \<Rightarrow> 'w::len word \<Rightarrow> 'w word \<Rightarrow> 'w word option" where
  "mul_u b x y =
     (if b = Debug \<and> 2 ^ LENGTH('w) \<le> unat x * unat y then None else Some (x * y))"

definition add_s :: "build \<Rightarrow> 'w::len word \<Rightarrow> 'w word \<Rightarrow> 'w word option" where
  "add_s b x y = (if b = Debug \<and> sint (x + y) \<noteq> sint x + sint y then None else Some (x + y))"

definition mul_s :: "build \<Rightarrow> 'w::len word \<Rightarrow> 'w word \<Rightarrow> 'w word option" where
  "mul_s b x y = (if b = Debug \<and> sint (x * y) \<noteq> sint x * sint y then None else Some (x * y))"

text \<open>\<open>saturating_add\<close> on a signed type and \<open>saturating_sub\<close> on an unsigned one.\<close>

definition sat_add_s :: "'w::len word \<Rightarrow> 'w word \<Rightarrow> 'w word" where
  "sat_add_s x y = word_of_int
     (max (- (2 ^ (LENGTH('w) - 1))) (min (2 ^ (LENGTH('w) - 1) - 1) (sint x + sint y)))"

definition sat_sub_u :: "'w::len word \<Rightarrow> 'w word \<Rightarrow> 'w word" where
  "sat_sub_u x y = (if x < y then 0 else x - y)"

definition checked_add_u :: "'w::len word \<Rightarrow> 'w word \<Rightarrow> 'w word option" where
  "checked_add_u x y = (if 2 ^ LENGTH('w) \<le> unat x + unat y then None else Some (x + y))"

lemma unat_add_no_wrap:
  fixes x y :: "'w::len word"
  assumes "unat x + unat y < 2 ^ LENGTH('w)"
  shows "unat (x + y) = unat x + unat y"
  using assms by (simp add: unat_word_ariths)

lemma unat_mult_no_wrap:
  fixes x y :: "'w::len word"
  assumes "unat x * unat y < 2 ^ LENGTH('w)"
  shows "unat (x * y) = unat x * unat y"
  using assms by (simp add: unat_word_ariths)

lemma add_u_exact:
  fixes x y :: "'w::len word"
  assumes "unat x + unat y < 2 ^ LENGTH('w)"
  shows "add_u b x y = Some (x + y)"
  using assms by (simp add: add_u_def)

lemma add_u_Debug_Some:
  fixes x y :: "'w::len word"
  assumes "add_u Debug x y = Some z"
  shows "unat z = unat x + unat y"
  using assms by (auto simp: add_u_def unat_add_no_wrap not_le split: if_splits)

lemma add_u_Some_eq: "add_u b x y = Some z \<Longrightarrow> z = x + y"
  by (simp add: add_u_def split: if_splits)

lemma add_s_Some_eq: "add_s b x y = Some z \<Longrightarrow> z = x + y"
  by (simp add: add_s_def split: if_splits)

lemma mul_s_Some_eq: "mul_s b x y = Some z \<Longrightarrow> z = x * y"
  by (simp add: mul_s_def split: if_splits)

lemma add_Release [simp]:
  "add_u Release x y = Some (x + y)" "add_s Release x y = Some (x + y)"
  "mul_s Release x y = Some (x * y)" "sub_u Release x y = Some (x - y)"
  "mul_u Release x y = Some (x * y)"
  by (simp_all add: add_u_def add_s_def mul_s_def sub_u_def mul_u_def)

lemma sub_u_exact: "y \<le> x \<Longrightarrow> sub_u b x y = Some (x - y)"
  by (auto simp: sub_u_def not_less)

lemma checked_add_u_Some:
  fixes x y :: "'w::len word"
  assumes "checked_add_u x y = Some z"
  shows "unat z = unat x + unat y"
  using assms by (auto simp: checked_add_u_def unat_add_no_wrap not_le split: if_splits)

lemma unat_sub_le:
  fixes x y :: "'w::len word"
  assumes "y \<le> x"
  shows "unat (x - y) = unat x - unat y"
  using assms by (simp add: unat_sub)

lemma unat_lt_2p64: "unat (x :: 64 word) < 18446744073709551616"
  using unsigned_less [of x, where ?'a = nat] by simp

lemma unat_ucast_u32 [simp]: "unat (ucast (x :: u32) :: 64 word) = unat x"
  using unsigned_less [of x, where ?'a = nat]
  by (simp add: unsigned_ucast_eq take_bit_nat_eq_self)

lemma add_u_one: "add_u b (x :: 64 word) 1 = (if b = Debug \<and> x = - 1 then None else Some (x + 1))"
proof -
  have "2 ^ 64 \<le> Suc (unat x) \<longleftrightarrow> x = - 1"
    using unat_lt_2p64 [of x]
    by (auto simp: word_unat_eq_iff unsigned_minus_1_eq_mask mask_eq_exp_minus_1)
  then show ?thesis by (simp add: add_u_def)
qed

section \<open>Outcomes and stateful computations\<close>

text \<open>
  A call of the code returns \<open>Ok\<close>, returns \<open>Err\<close>, or panics. Panics are kept apart by their
  cause; none of the modelled code catches them.
\<close>

datatype panic =
  ArithmeticOverflow | IndexOutOfBounds | DivideByZero | UnwrapOnNone | CapacityOverflow

datatype ('e, 'a) outcome = Ok 'a | Err 'e | Panic panic

type_synonym ('s, 'e, 'a) comp = "'s \<Rightarrow> ('e, 'a) outcome \<times> 's"

definition ret :: "'a \<Rightarrow> ('s, 'e, 'a) comp" where
  "ret a s = (Ok a, s)"

definition fail :: "'e \<Rightarrow> ('s, 'e, 'a) comp" where
  "fail e s = (Err e, s)"

definition abort :: "panic \<Rightarrow> ('s, 'e, 'a) comp" where
  "abort p s = (Panic p, s)"

definition andthen ::
  "('s, 'e, 'a) comp \<Rightarrow> ('a \<Rightarrow> ('s, 'e, 'b) comp) \<Rightarrow> ('s, 'e, 'b) comp" where
  "andthen m f s =
     (case m s of
        (Ok a, s') \<Rightarrow> f a s'
      | (Err e, s') \<Rightarrow> (Err e, s')
      | (Panic p, s') \<Rightarrow> (Panic p, s'))"

definition reads :: "('s \<Rightarrow> 'a) \<Rightarrow> ('s, 'e, 'a) comp" where
  "reads f s = (Ok (f s), s)"

definition updates :: "('s \<Rightarrow> 's) \<Rightarrow> ('s, 'e, unit) comp" where
  "updates f s = (Ok (), f s)"

text \<open>\<open>ok_or\<close> turns a missing value into an error, \<open>or_panic\<close> into a panic.\<close>

definition ok_or :: "'e \<Rightarrow> 'a option \<Rightarrow> ('s, 'e, 'a) comp" where
  "ok_or e x = (case x of None \<Rightarrow> fail e | Some a \<Rightarrow> ret a)"

definition or_panic :: "panic \<Rightarrow> 'a option \<Rightarrow> ('s, 'e, 'a) comp" where
  "or_panic p x = (case x of None \<Rightarrow> abort p | Some a \<Rightarrow> ret a)"

definition guard_err :: "bool \<Rightarrow> 'e \<Rightarrow> ('s, 'e, unit) comp" where
  "guard_err c e = (if c then fail e else ret ())"

text \<open>\<open>?\<close> and \<open>map_err\<close> on a result without a state.\<close>

fun bind_outcome :: "('e, 'a) outcome \<Rightarrow> ('a \<Rightarrow> ('e, 'b) outcome) \<Rightarrow> ('e, 'b) outcome" where
  "bind_outcome (Ok a) f = f a"
| "bind_outcome (Err e) f = Err e"
| "bind_outcome (Panic p) f = Panic p"

lemma bind_outcome_eq_Ok: "bind_outcome m f = Ok b \<longleftrightarrow> (\<exists>a. m = Ok a \<and> f a = Ok b)"
  by (cases m) auto

fun map_err :: "('e \<Rightarrow> 'd) \<Rightarrow> ('e, 'a) outcome \<Rightarrow> ('d, 'a) outcome" where
  "map_err g (Ok a) = Ok a"
| "map_err g (Err e) = Err (g e)"
| "map_err g (Panic p) = Panic p"

text \<open>
  \<open>lift_outcome\<close> runs a call that has no state; \<open>zoom\<close> runs a computation on a part of the state,
  given how to read the part and how to put it back.
\<close>

definition lift_outcome :: "('e, 'a) outcome \<Rightarrow> ('s, 'e, 'a) comp" where
  "lift_outcome r s = (r, s)"

definition zoom ::
  "('s \<Rightarrow> 't) \<Rightarrow> ('t \<Rightarrow> 's \<Rightarrow> 's) \<Rightarrow> ('t, 'e, 'a) comp \<Rightarrow> ('s, 'e, 'a) comp" where
  "zoom part put m s = (case m (part s) of (r, t) \<Rightarrow> (r, put t s))"

text \<open>\<open>map_err\<close> on a call, and \<open>collect\<close> into a \<open>Result\<close> of a list, which has the first error.\<close>

definition mapping_err :: "('e \<Rightarrow> 'd) \<Rightarrow> ('s, 'e, 'a) comp \<Rightarrow> ('s, 'd, 'a) comp" where
  "mapping_err g m s = (case m s of (r, s') \<Rightarrow> (map_err g r, s'))"

text \<open>\<open>attempt\<close> runs a call whose result is kept as a value; a panic still unwinds. \<open>join_results\<close> collects
  the results of parallel tasks: a panic of any of them comes before the errors.\<close>

definition attempt :: "('s, 'e, 'a) comp \<Rightarrow> ('s, 'd, ('e, 'a) outcome) comp" where
  "attempt m s = (case m s of (Panic p, s') \<Rightarrow> (Panic p, s') | (r, s') \<Rightarrow> (Ok r, s'))"

fun collect_results :: "('e, 'a) outcome list \<Rightarrow> ('e, 'a list) outcome" where
  "collect_results [] = Ok []"
| "collect_results (r # rs) =
     bind_outcome r (\<lambda>x. bind_outcome (collect_results rs) (\<lambda>xs. Ok (x # xs)))"

definition join_results :: "('e, 'a) outcome list \<Rightarrow> ('e, 'a list) outcome" where
  "join_results rs =
     (case List.map_filter (\<lambda>r. case r of Panic p \<Rightarrow> Some p | _ \<Rightarrow> None) rs of
        p # _ \<Rightarrow> Panic p
      | [] \<Rightarrow> collect_results rs)"

lemma ret_apply [simp]: "ret a s = (Ok a, s)"
  by (simp add: ret_def)

lemma fail_apply [simp]: "fail e s = (Err e, s)"
  by (simp add: fail_def)

lemma abort_apply [simp]: "abort p s = (Panic p, s)"
  by (simp add: abort_def)

lemma reads_apply [simp]: "reads f s = (Ok (f s), s)"
  by (simp add: reads_def)

lemma updates_apply [simp]: "updates f s = (Ok (), f s)"
  by (simp add: updates_def)

lemma andthen_ret [simp]: "andthen (ret a) f s = f a s"
  by (simp add: andthen_def)

lemma andthen_ret_left: "andthen (ret a) f = f a"
  by (simp add: fun_eq_iff)

lemma andthen_assoc: "andthen (andthen m f) g = andthen m (\<lambda>x. andthen (f x) g)"
  by (auto simp: fun_eq_iff andthen_def split: prod.split outcome.split)

lemma andthen_reads [simp]: "andthen (reads g) f s = f (g s) s"
  by (simp add: andthen_def)

lemma andthen_updates [simp]: "andthen (updates g) f s = f () (g s)"
  by (simp add: andthen_def)

lemma andthen_fail [simp]: "andthen (fail e) f s = (Err e, s)"
  by (simp add: andthen_def)

lemma andthen_abort [simp]: "andthen (abort p) f s = (Panic p, s)"
  by (simp add: andthen_def)

lemma andthen_Ok: "m s = (Ok a, s') \<Longrightarrow> andthen m f s = f a s'"
  by (simp add: andthen_def)

lemma andthen_Err: "m s = (Err e, s') \<Longrightarrow> andthen m f s = (Err e, s')"
  by (simp add: andthen_def)

lemma andthen_Panic: "m s = (Panic p, s') \<Longrightarrow> andthen m f s = (Panic p, s')"
  by (simp add: andthen_def)

lemma ok_or_simps [simp]: "ok_or e None = fail e" "ok_or e (Some a) = ret a"
  by (simp_all add: ok_or_def)

lemma or_panic_simps [simp]: "or_panic p None = abort p" "or_panic p (Some a) = ret a"
  by (simp_all add: or_panic_def)

lemma guard_err_simps [simp]: "guard_err True e = fail e" "guard_err False e = ret ()"
  by (simp_all add: guard_err_def)

lemma andthen_eq_Ok:
  "andthen m f s = (Ok b, t) \<longleftrightarrow> (\<exists>a s'. m s = (Ok a, s') \<and> f a s' = (Ok b, t))"
  by (cases "m s"; cases "fst (m s)") (auto simp: andthen_def)

lemma ok_or_eq_Ok: "ok_or e x s = (Ok a, t) \<longleftrightarrow> x = Some a \<and> t = s"
  by (cases x) auto

lemma or_panic_eq_Ok: "or_panic p x s = (Ok a, t) \<longleftrightarrow> x = Some a \<and> t = s"
  by (cases x) auto

lemma guard_err_eq_Ok: "guard_err c e s = (Ok a, t) \<longleftrightarrow> \<not> c \<and> t = s"
  by (cases c) auto

lemmas comp_Ok_iffs = andthen_eq_Ok ok_or_eq_Ok or_panic_eq_Ok guard_err_eq_Ok

section \<open>Invariants of computations\<close>

text \<open>
  \<open>preserves I m\<close>: whatever the outcome of \<open>m\<close>, it leaves a state that satisfies \<open>I\<close> when it
  started in one. The rules below reduce an operation to its primitive updates; components add
  the rules of their own operations to \<open>preserving\<close>.
\<close>

definition preserves :: "('s \<Rightarrow> bool) \<Rightarrow> ('s, 'e, 'a) comp \<Rightarrow> bool" where
  "preserves I m \<longleftrightarrow> (\<forall>s. I s \<longrightarrow> I (snd (m s)))"

named_theorems preserving \<open>rules that reduce preservation of an invariant\<close>

lemma preservesI: "(\<And>s. I s \<Longrightarrow> I (snd (m s))) \<Longrightarrow> preserves I m"
  by (simp add: preserves_def)

lemma preservesD: "preserves I m \<Longrightarrow> I s \<Longrightarrow> I (snd (m s))"
  by (simp add: preserves_def)

lemma preserves_state: "preserves I m \<Longrightarrow> I s \<Longrightarrow> m s = (r, s') \<Longrightarrow> I s'"
  by (drule (1) preservesD) simp

lemma preserves_ret [preserving]: "preserves I (ret a)"
  by (simp add: preserves_def)

lemma preserves_fail [preserving]: "preserves I (fail e)"
  by (simp add: preserves_def)

lemma preserves_abort [preserving]: "preserves I (abort p)"
  by (simp add: preserves_def)

lemma preserves_reads [preserving]: "preserves I (reads f)"
  by (simp add: preserves_def)

lemma preserves_ok_or [preserving]: "preserves I (ok_or e x)"
  by (cases x) (simp_all add: preserves_def)

lemma preserves_or_panic [preserving]: "preserves I (or_panic p x)"
  by (cases x) (simp_all add: preserves_def)

lemma preserves_guard_err [preserving]: "preserves I (guard_err c e)"
  by (cases c) (simp_all add: preserves_def)

lemma preserves_updates: "(\<And>s. I s \<Longrightarrow> I (f s)) \<Longrightarrow> preserves I (updates f)"
  by (simp add: preserves_def)

lemma preserves_andthen [preserving]:
  assumes "preserves I m" and "\<And>a. preserves I (f a)"
  shows "preserves I (andthen m f)"
proof (rule preservesI)
  fix s assume "I s"
  obtain r s' where m: "m s = (r, s')" by fastforce
  with assms(1) \<open>I s\<close> have "I s'" by (auto dest: preservesD)
  with assms(2) m show "I (snd (andthen m f s))"
    by (cases r) (auto simp: andthen_def dest: preservesD)
qed

lemma preserves_if [preserving]:
  "preserves I m \<Longrightarrow> preserves I m' \<Longrightarrow> preserves I (if c then m else m')"
  by simp

lemma preserves_zoom: "(\<And>s t. I s \<Longrightarrow> I (put t s)) \<Longrightarrow> preserves I (zoom part put m)"
  by (auto simp: preserves_def zoom_def split: prod.split)

lemma preserves_lift [preserving]: "preserves I (lift_outcome r)"
  by (simp add: preserves_def lift_outcome_def)

section \<open>Weakest preconditions\<close>

text \<open>
  \<open>wp m Q E F s\<close>: run from \<open>s\<close>, the computation \<open>m\<close> establishes \<open>Q\<close> when it returns, \<open>E\<close>
  when it fails and \<open>F\<close> when it panics. The equations in \<open>wp_simps\<close> push it through a
  computation, so that \<open>simp\<close> turns a claim about a whole operation into one about its data.
\<close>

definition wp ::
  "('s, 'e, 'a) comp \<Rightarrow> ('a \<Rightarrow> 's \<Rightarrow> bool) \<Rightarrow> ('e \<Rightarrow> 's \<Rightarrow> bool) \<Rightarrow> (panic \<Rightarrow> 's \<Rightarrow> bool) \<Rightarrow> 's \<Rightarrow> bool"
where
  "wp m Q E F s \<longleftrightarrow>
     (case m s of (Ok a, s') \<Rightarrow> Q a s' | (Err e, s') \<Rightarrow> E e s' | (Panic p, s') \<Rightarrow> F p s')"

named_theorems wp_simps \<open>equations that compute weakest preconditions\<close>

lemma wp_andthen [wp_simps]: "wp (andthen m f) Q E F s = wp m (\<lambda>a. wp (f a) Q E F) E F s"
  by (auto simp: wp_def andthen_def split: outcome.splits)

lemma wp_ret [wp_simps]: "wp (ret a) Q E F = Q a"
  by (simp add: wp_def fun_eq_iff)

lemma wp_fail [wp_simps]: "wp (fail e) Q E F s = E e s"
  by (simp add: wp_def)

lemma wp_abort [wp_simps]: "wp (abort p) Q E F s = F p s"
  by (simp add: wp_def)

lemma wp_reads [wp_simps]: "wp (reads f) Q E F s = Q (f s) s"
  by (simp add: wp_def)

lemma wp_updates [wp_simps]: "wp (updates f) Q E F s = Q () (f s)"
  by (simp add: wp_def)

lemma wp_ok_or [wp_simps]:
  "wp (ok_or e x) Q E F s = (case x of None \<Rightarrow> E e s | Some a \<Rightarrow> Q a s)"
  by (cases x) (simp_all add: wp_def)

lemma wp_or_panic [wp_simps]:
  "wp (or_panic p x) Q E F s = (case x of None \<Rightarrow> F p s | Some a \<Rightarrow> Q a s)"
  by (cases x) (simp_all add: wp_def)

lemma wp_guard_err [wp_simps]: "wp (guard_err c e) Q E F s = (if c then E e s else Q () s)"
  by (cases c) (simp_all add: wp_def)

lemma wp_lift_outcome [wp_simps]:
  "wp (lift_outcome r) Q E F s = (case r of Ok a \<Rightarrow> Q a s | Err e \<Rightarrow> E e s | Panic p \<Rightarrow> F p s)"
  by (simp add: wp_def lift_outcome_def)

lemma wp_zoom [wp_simps]:
  "wp (zoom part put m) Q E F s =
     wp m (\<lambda>a t. Q a (put t s)) (\<lambda>e t. E e (put t s)) (\<lambda>p t. F p (put t s)) (part s)"
  by (auto simp: wp_def zoom_def split: prod.splits outcome.splits)

lemma wp_if [wp_simps]: "wp (if c then m else m') Q E F s = (if c then wp m Q E F s else wp m' Q E F s)"
  by simp

lemma wp_case_option [wp_simps]:
  "wp (case x of None \<Rightarrow> m | Some a \<Rightarrow> f a) Q E F s =
     (case x of None \<Rightarrow> wp m Q E F s | Some a \<Rightarrow> wp (f a) Q E F s)"
  by (cases x) simp_all

lemma wp_comp: "m s = (r, s') \<Longrightarrow> wp m Q E F s =
  (case r of Ok a \<Rightarrow> Q a s' | Err e \<Rightarrow> E e s' | Panic p \<Rightarrow> F p s')"
  by (simp add: wp_def)

lemma wp_True [simp]: "wp m (\<lambda>_ _. True) (\<lambda>_ _. True) (\<lambda>_ _. True) s"
  by (auto simp: wp_def split: prod.splits outcome.splits)

lemma wp_Ok: "wp m Q E F s \<Longrightarrow> m s = (Ok a, s') \<Longrightarrow> Q a s'"
  by (simp add: wp_def)

lemma wp_Err: "wp m Q E F s \<Longrightarrow> m s = (Err e, s') \<Longrightarrow> E e s'"
  by (simp add: wp_def)

lemma wp_Panic: "wp m Q E F s \<Longrightarrow> m s = (Panic p, s') \<Longrightarrow> F p s'"
  by (simp add: wp_def)

lemma wp_all: "wp m (\<lambda>_. Q) (\<lambda>_. Q) (\<lambda>_. Q) s \<Longrightarrow> m s = (r, s') \<Longrightarrow> Q s'"
  by (cases r) (simp_all add: wp_def)

lemma wp_returns:
  "m s = (Ok x, s') \<longleftrightarrow> wp m (\<lambda>a t. a = x \<and> t = s') (\<lambda>_ _. False) (\<lambda>_ _. False) s"
  by (auto simp: wp_def split: prod.splits outcome.splits)

lemma wp_fails:
  "m s = (Err e, s') \<longleftrightarrow> wp m (\<lambda>_ _. False) (\<lambda>d t. d = e \<and> t = s') (\<lambda>_ _. False) s"
  by (auto simp: wp_def split: prod.splits outcome.splits)

lemma wp_panics:
  "m s = (Panic p, s') \<longleftrightarrow> wp m (\<lambda>_ _. False) (\<lambda>_ _. False) (\<lambda>q t. q = p \<and> t = s') s"
  by (auto simp: wp_def split: prod.splits outcome.splits)

lemma wp_mono:
  assumes "wp m Q E F s"
    and "\<And>a t. Q a t \<Longrightarrow> Q' a t" "\<And>e t. E e t \<Longrightarrow> E' e t" "\<And>p t. F p t \<Longrightarrow> F' p t"
  shows "wp m Q' E' F' s"
  using assms by (auto simp: wp_def split: outcome.splits)

section \<open>Loops\<close>

text \<open>
  \<open>while run(s) { if step(s)? { break; } }\<close>: the step reports whether it left the loop. The
  first argument is fuel; \<open>None\<close> means that it ran out, and each use proves how much is enough.
\<close>

fun run_loop ::
  "nat \<Rightarrow> ('s \<Rightarrow> bool) \<Rightarrow> ('s, 'e, bool) comp \<Rightarrow> 's \<Rightarrow> (('e, unit) outcome \<times> 's) option" where
  "run_loop 0 running step s = None"
| "run_loop (Suc n) running step s =
     (if running s then
        (case step s of
           (Ok stop, s') \<Rightarrow> if stop then Some (Ok (), s') else run_loop n running step s'
         | (Err e, s') \<Rightarrow> Some (Err e, s')
         | (Panic p, s') \<Rightarrow> Some (Panic p, s'))
      else Some (Ok (), s))"

text \<open>
  The contract a loop body offers: an invariant it keeps, and a meter that every pass which
  does not leave the loop makes smaller. It gives termination and the invariant of whole runs.
\<close>

locale metered_loop =
  fixes running :: "'s \<Rightarrow> bool"
    and step :: "('s, 'e, bool) comp"
    and meter :: "'s \<Rightarrow> nat"
    and invar :: "'s \<Rightarrow> bool"
  assumes step_invar: "invar s \<Longrightarrow> running s \<Longrightarrow> step s = (r, s') \<Longrightarrow> invar s'"
    and step_meter: "invar s \<Longrightarrow> running s \<Longrightarrow> step s = (Ok False, s') \<Longrightarrow> meter s' < meter s"
begin

lemma enough_fuel:
  assumes "invar s" and "meter s < n"
  shows "\<exists>r s'. run_loop n running step s = Some (r, s') \<and> invar s'"
  using assms
proof (induction n arbitrary: s)
  case 0
  then show ?case by simp
next
  case (Suc n)
  show ?case
  proof (cases "running s")
    case False
    with Suc.prems show ?thesis by simp
  next
    case True
    obtain r s' where st: "step s = (r, s')" by fastforce
    from step_invar [OF Suc.prems(1) True st] have invar': "invar s'" .
    show ?thesis
    proof (cases r)
      case (Ok stop)
      show ?thesis
      proof (cases stop)
        case True
        with \<open>running s\<close> st Ok invar' show ?thesis by simp
      next
        case False
        with Ok st have "step s = (Ok False, s')" by simp
        from step_meter [OF Suc.prems(1) True this] Suc.prems(2) have "meter s' < n" by simp
        from Suc.IH [OF invar' this] \<open>running s\<close> st Ok False show ?thesis by simp
      qed
    qed (use True st invar' in auto)
  qed
qed

lemma run_invar:
  assumes "run_loop n running step s = Some (r, s')" and "invar s"
  shows "invar s'"
  using assms
proof (induction n arbitrary: s)
  case 0
  then show ?case by simp
next
  case (Suc n)
  show ?case
  proof (cases "running s")
    case False
    with Suc.prems show ?thesis by simp
  next
    case True
    obtain q t where st: "step s = (q, t)" by fastforce
    from step_invar [OF Suc.prems(2) True st] have "invar t" .
    with Suc True st show ?thesis by (cases q) (auto split: if_splits)
  qed
qed

end

lemma run_loop_mono:
  assumes "run_loop n running step s = Some r" and "n \<le> m"
  shows "run_loop m running step s = Some r"
  using assms
proof (induction n arbitrary: s m)
  case 0
  then show ?case by simp
next
  case (Suc n)
  then obtain k where m: "m = Suc k" and k: "n \<le> k" by (cases m) auto
  from Suc.prems(1) show ?case
    unfolding m by (auto intro: Suc.IH k split: prod.splits outcome.splits if_splits)
qed

lemma run_loop_unique:
  assumes "run_loop n running step s = Some r" and "run_loop m running step s = Some r'"
  shows "r = r'"
  using run_loop_mono [OF assms(1), of "max n m"] run_loop_mono [OF assms(2), of "max n m"] by simp

section \<open>Vectors and hash maps\<close>

text \<open>
  A \<open>Vec\<close> is a list, pushed and popped at its end; \<open>&v[lo..hi]\<close> panics unless
  \<open>lo <= hi <= v.len()\<close>. Rust bounds every allocation by \<open>isize::MAX\<close> bytes, which theorems
  about a vector's length state as a hypothesis where they need it.
\<close>

definition vec_pop :: "'a list \<Rightarrow> ('a \<times> 'a list) option" where
  "vec_pop xs = (if xs = [] then None else Some (last xs, butlast xs))"

definition vec_slice :: "'a list \<Rightarrow> usize \<Rightarrow> usize \<Rightarrow> 'a list option" where
  "vec_slice xs lo hi =
     (if lo \<le> hi \<and> unat hi \<le> length xs
      then Some (take (unat hi - unat lo) (drop (unat lo) xs)) else None)"

definition index :: "'a list \<Rightarrow> nat \<Rightarrow> 'a option" where
  "index xs i = (if i < length xs then Some (xs ! i) else None)"

definition remove_at :: "nat \<Rightarrow> 'a list \<Rightarrow> 'a list" where
  "remove_at i xs = take i xs @ drop (Suc i) xs"

lemma vec_pop_snoc [simp]: "vec_pop (xs @ [x]) = Some (x, xs)"
  by (simp add: vec_pop_def)

lemma vec_pop_Nil [simp]: "vec_pop [] = None"
  by (simp add: vec_pop_def)

lemma vec_pop_Some: "vec_pop xs = Some (x, ys) \<longleftrightarrow> xs = ys @ [x]"
  by (auto simp: vec_pop_def)

lemma vec_pop_None: "vec_pop xs = None \<longleftrightarrow> xs = []"
  by (simp add: vec_pop_def)

lemma vec_slice_Some_length: "vec_slice xs lo hi = Some ys \<Longrightarrow> length ys = unat hi - unat lo"
  by (auto simp: vec_slice_def min_def split: if_splits)

text \<open>
  A \<open>HashMap\<close> is a partial function with a finite domain and its length is the size of the
  domain. The order in which it is iterated is not specified, so an operation that iterates
  takes the order as an argument, and its theorems hold for every list that \<^emph>\<open>iterates\<close> the
  map.
\<close>

definition iterates :: "('k \<rightharpoonup> 'v) \<Rightarrow> 'k list \<Rightarrow> bool" where
  "iterates m ks \<longleftrightarrow> distinct ks \<and> set ks = dom m"

definition map_len :: "('k \<rightharpoonup> 'v) \<Rightarrow> nat" where
  "map_len m = card (dom m)"

lemma map_len_update_new:
  "finite (dom m) \<Longrightarrow> k \<notin> dom m \<Longrightarrow> map_len (m(k \<mapsto> v)) = Suc (map_len m)"
  by (simp add: map_len_def)

lemma map_len_update_le: "finite (dom m) \<Longrightarrow> map_len (m(k \<mapsto> v)) \<le> Suc (map_len m)"
  by (simp add: map_len_def card_insert_if)

lemma map_len_delete_le: "finite (dom m) \<Longrightarrow> map_len (m(k := None)) \<le> map_len m"
  by (simp add: map_len_def card_Diff1_le)

lemma iterates_len: "iterates m ks \<Longrightarrow> length ks = map_len m"
  by (metis distinct_card iterates_def map_len_def)

section \<open>Decimal numerals\<close>

text \<open>The digits that \<open>format!("{}", n)\<close> writes for an unsigned integer.\<close>

fun decimal :: "nat \<Rightarrow> string" where
  "decimal n =
     (if n < 10 then [char_of (48 + n)] else decimal (n div 10) @ [char_of (48 + n mod 10)])"

declare decimal.simps [simp del]

end
