(* ===== verification/Permissions.thy ===== *)
theory Permissions
  imports Rust_Prelude
begin

text \<open>
  Model of \<open>src/memory/permissions.rs\<close>: access rights as a byte of flags, and the operations
  that read, add, remove and combine them. The abstract view of a permission value is the set of
  rights it grants (\<open>rights\<close>); the lemmas show each operation on bits to be the matching operation
  on sets, on the values that use the three defined bits only.
\<close>

section \<open>Model\<close>

record access_permissions =
  perm_bits :: u8

datatype permission = PermNone | PermRead | PermWrite | PermExecute

text \<open>The discriminants \<open>0b000\<close>, \<open>0b001\<close>, \<open>0b010\<close>, \<open>0b100\<close> (\<open>permission as u8\<close>).\<close>

fun permission_code :: "permission \<Rightarrow> u8" where
  "permission_code PermNone = 0"
| "permission_code PermRead = 1"
| "permission_code PermWrite = 2"
| "permission_code PermExecute = 4"

definition perms_NONE :: access_permissions where "perms_NONE = \<lparr>perm_bits = 0\<rparr>"
definition perms_READ :: access_permissions where "perms_READ = \<lparr>perm_bits = 1\<rparr>"
definition perms_WRITE :: access_permissions where "perms_WRITE = \<lparr>perm_bits = 2\<rparr>"
definition perms_EXECUTE :: access_permissions where "perms_EXECUTE = \<lparr>perm_bits = 4\<rparr>"
definition perms_READ_WRITE :: access_permissions where "perms_READ_WRITE = \<lparr>perm_bits = 3\<rparr>"
definition perms_READ_EXECUTE :: access_permissions where "perms_READ_EXECUTE = \<lparr>perm_bits = 5\<rparr>"
definition perms_WRITE_EXECUTE :: access_permissions where "perms_WRITE_EXECUTE = \<lparr>perm_bits = 6\<rparr>"
definition perms_ALL :: access_permissions where "perms_ALL = \<lparr>perm_bits = 7\<rparr>"

definition perms_new :: "bool \<Rightarrow> bool \<Rightarrow> bool \<Rightarrow> access_permissions" where
  "perms_new r w x =
     (let bits0 = 0;
          bits1 = (if r then bits0 OR perm_bits perms_READ else bits0);
          bits2 = (if w then bits1 OR perm_bits perms_WRITE else bits1);
          bits3 = (if x then bits2 OR perm_bits perms_EXECUTE else bits2)
      in \<lparr>perm_bits = bits3\<rparr>)"

definition has_permission :: "access_permissions \<Rightarrow> permission \<Rightarrow> bool" where
  "has_permission p r \<longleftrightarrow> perm_bits p AND permission_code r = permission_code r"

definition add_permission :: "permission \<Rightarrow> access_permissions \<Rightarrow> access_permissions" where
  "add_permission r p = p\<lparr>perm_bits := perm_bits p OR permission_code r\<rparr>"

definition remove_permission :: "permission \<Rightarrow> access_permissions \<Rightarrow> access_permissions" where
  "remove_permission r p = p\<lparr>perm_bits := perm_bits p AND NOT (permission_code r)\<rparr>"

definition can_read :: "access_permissions \<Rightarrow> bool" where
  "can_read p = has_permission p PermRead"

definition can_write :: "access_permissions \<Rightarrow> bool" where
  "can_write p = has_permission p PermWrite"

definition can_execute :: "access_permissions \<Rightarrow> bool" where
  "can_execute p = has_permission p PermExecute"

definition as_bits :: "access_permissions \<Rightarrow> u8" where
  "as_bits p = perm_bits p"

definition perms_default :: access_permissions where
  "perms_default = perms_READ_WRITE"

definition perms_bitand :: "access_permissions \<Rightarrow> access_permissions \<Rightarrow> access_permissions" where
  "perms_bitand p q = \<lparr>perm_bits = perm_bits p AND perm_bits q\<rparr>"

definition perms_bitor :: "access_permissions \<Rightarrow> access_permissions \<Rightarrow> access_permissions" where
  "perms_bitor p q = \<lparr>perm_bits = perm_bits p OR perm_bits q\<rparr>"

definition perms_from :: "u8 \<Rightarrow> access_permissions" where
  "perms_from b = \<lparr>perm_bits = b AND 7\<rparr>"

definition perms_display :: "access_permissions \<Rightarrow> string" where
  "perms_display p =
     (if can_read p then ''r'' else ''-'') @
     (if can_write p then ''w'' else ''-'') @
     (if can_execute p then ''x'' else ''-'')"

lemmas perms_consts =
  perms_NONE_def perms_READ_def perms_WRITE_def perms_EXECUTE_def perms_READ_WRITE_def
  perms_READ_EXECUTE_def perms_WRITE_EXECUTE_def perms_ALL_def

section \<open>Bits and rights\<close>

lemma word_bits_eq_iff: "v = w \<longleftrightarrow> (\<forall>n<8. bit (v :: u8) n \<longleftrightarrow> bit w n)"
  by (auto intro: bit_word_eqI)

text \<open>The number of the bit that a right occupies; the right \<open>None\<close> occupies none.\<close>

fun right_bit :: "permission \<Rightarrow> nat" where
  "right_bit PermRead = 0"
| "right_bit PermWrite = 1"
| "right_bit PermExecute = 2"
| "right_bit PermNone = 8"

lemma bit_permission_code: "bit (permission_code r) n \<longleftrightarrow> r \<noteq> PermNone \<and> n = right_bit r"
proof (cases r)
  case PermWrite
  then show ?thesis using bit_push_bit_iff_nat
    by (auto simp: bit_double_iff [of "1::u8", simplified] bit_1_iff)
next
  case PermExecute
  have "bit (4::u8) n \<longleftrightarrow> n = 2"
    using bit_exp_iff [where ?'a = "8 word", of 2 n] by auto
  with PermExecute show ?thesis by simp
qed (auto simp: bit_1_iff)

lemma right_bit_less: "r \<noteq> PermNone \<Longrightarrow> right_bit r < 8"
  by (cases r) auto

lemma right_bit_less_3: "r \<noteq> PermNone \<Longrightarrow> right_bit r < 3"
  by (cases r) auto

lemma right_bit_inj: "r \<noteq> PermNone \<Longrightarrow> q \<noteq> PermNone \<Longrightarrow> right_bit r = right_bit q \<Longrightarrow> r = q"
  by (cases r; cases q) auto

lemma has_permission_bit:
  "has_permission p r \<longleftrightarrow> (r = PermNone \<or> bit (perm_bits p) (right_bit r))"
proof -
  have "has_permission p r \<longleftrightarrow>
      (\<forall>n<8. bit (perm_bits p) n \<and> bit (permission_code r) n \<longleftrightarrow> bit (permission_code r) n)"
    unfolding has_permission_def word_bits_eq_iff by (simp add: bit_and_iff)
  also have "\<dots> \<longleftrightarrow> (r = PermNone \<or> bit (perm_bits p) (right_bit r))"
    unfolding bit_permission_code using right_bit_less [of r] by auto
  finally show ?thesis .
qed

lemma has_PermNone [simp]: "has_permission p PermNone"
  by (simp add: has_permission_bit)

definition rights :: "access_permissions \<Rightarrow> permission set" where
  "rights p = {r. r \<noteq> PermNone \<and> has_permission p r}"

text \<open>The values the module can build use the low three bits only.\<close>

definition perms_wf :: "access_permissions \<Rightarrow> bool" where
  "perms_wf p \<longleftrightarrow> perm_bits p AND 7 = perm_bits p"

lemma bit_7: "bit (7 :: u8) n \<longleftrightarrow> n < 3"
proof -
  have "bit (mask 3 :: u8) n \<longleftrightarrow> n < 3" by (auto simp: bit_mask_iff)
  moreover have "(mask 3 :: u8) = 7" by (simp add: mask_eq_exp_minus_1)
  ultimately show ?thesis by simp
qed

lemma perms_wf_bit: "perms_wf p \<longleftrightarrow> (\<forall>n. bit (perm_bits p) n \<longrightarrow> n < 3)"
proof -
  have "perms_wf p \<longleftrightarrow> (\<forall>n<8. bit (perm_bits p) n \<and> bit (7 :: u8) n \<longleftrightarrow> bit (perm_bits p) n)"
    unfolding perms_wf_def word_bits_eq_iff by (simp add: bit_and_iff)
  also have "\<dots> \<longleftrightarrow> (\<forall>n. bit (perm_bits p) n \<longrightarrow> n < 3)"
    unfolding bit_7 using bit_imp_le_length [of "perm_bits p"] by auto
  finally show ?thesis .
qed

lemma rights_bitand: "rights (perms_bitand p q) = rights p \<inter> rights q"
  by (auto simp: rights_def has_permission_bit perms_bitand_def bit_and_iff)

lemma rights_bitor: "rights (perms_bitor p q) = rights p \<union> rights q"
  by (auto simp: rights_def has_permission_bit perms_bitor_def bit_or_iff)

lemma rights_add: "rights (add_permission r p) = rights p \<union> ({r} - {PermNone})"
  by (auto simp: rights_def has_permission_bit add_permission_def bit_or_iff
      bit_permission_code dest: right_bit_inj)

lemma rights_remove: "rights (remove_permission r p) = rights p - {r}"
  by (auto simp: rights_def has_permission_bit remove_permission_def bit_and_iff bit_not_iff
      bit_permission_code right_bit_less dest: right_bit_inj)

lemma rights_default: "rights perms_default = {PermRead, PermWrite}"
proof -
  have "perm_bits perms_default = 3" by (simp add: perms_default_def perms_READ_WRITE_def)
  then have "has_permission perms_default r \<longleftrightarrow> r \<noteq> PermExecute" for r
    by (cases r) (simp_all add: has_permission_def)
  then show ?thesis unfolding rights_def by (auto intro: permission.exhaust)
qed

lemma has_right: "has_permission p r \<longleftrightarrow> r = PermNone \<or> r \<in> rights p"
  by (auto simp: rights_def)

lemma three_cases: "n < 3 \<longleftrightarrow> n = 0 \<or> n = 1 \<or> n = (2::nat)"
  by auto

lemma rights_inject:
  assumes "perms_wf p" and "perms_wf q" and "rights p = rights q"
  shows "p = q"
proof -
  have eq: "bit (perm_bits p) (right_bit r) = bit (perm_bits q) (right_bit r)"
    if "r \<noteq> PermNone" for r
    using assms(3) that unfolding rights_def has_permission_bit by auto
  have "bit (perm_bits p) n = bit (perm_bits q) n" for n
  proof (cases "n < 3")
    case True
    then show ?thesis
      using eq [of PermRead] eq [of PermWrite] eq [of PermExecute] by (auto simp: three_cases)
  next
    case False
    with assms(1,2) show ?thesis by (auto simp: perms_wf_bit)
  qed
  then have "perm_bits p = perm_bits q" by (simp add: bit_eq_iff)
  then show ?thesis by simp
qed

lemma perms_wf_new: "perms_wf (perms_new r w x)"
  by (simp add: perms_wf_def perms_new_def perms_consts Let_def)

lemma perms_wf_default: "perms_wf perms_default"
  by (simp add: perms_wf_def perms_default_def perms_consts)

lemma perms_wf_from: "perms_wf (perms_from b)"
  by (simp add: perms_wf_def perms_from_def and.assoc)

lemma perms_wf_bitand: "perms_wf p \<Longrightarrow> perms_wf (perms_bitand p q)"
  by (auto simp: perms_wf_bit perms_bitand_def bit_and_iff)

lemma perms_wf_bitor: "perms_wf p \<Longrightarrow> perms_wf q \<Longrightarrow> perms_wf (perms_bitor p q)"
  by (auto simp: perms_wf_bit perms_bitor_def bit_or_iff)

lemma perms_wf_add: "perms_wf p \<Longrightarrow> perms_wf (add_permission r p)"
  using right_bit_less_3 [of r]
  by (auto simp: perms_wf_bit add_permission_def bit_or_iff bit_permission_code)

lemma perms_wf_remove: "perms_wf p \<Longrightarrow> perms_wf (remove_permission r p)"
  by (auto simp: perms_wf_bit remove_permission_def bit_and_iff)

section \<open>Properties\<close>

text \<open>Permission values behave as sets of rights: \<open>&\<close> intersects and \<open>|\<close> unites them, adding
  and removing a right adds and removes this element (the pseudo-right \<open>None\<close> is no element), a
  check for a right is membership and a check for \<open>None\<close> always succeeds, and the default set
  is read and write.\<close>

theorem rights_semantics:
  "rights (perms_bitand p q) = rights p \<inter> rights q \<and>
   rights (perms_bitor p q) = rights p \<union> rights q \<and>
   rights (add_permission r p) = rights p \<union> ({r} - {PermNone}) \<and>
   rights (remove_permission r p) = rights p - {r} \<and>
   (has_permission p r \<longleftrightarrow> r = PermNone \<or> r \<in> rights p) \<and>
   rights perms_default = {PermRead, PermWrite}"
  by (simp add: rights_bitand rights_bitor rights_add rights_remove rights_default has_right)

text \<open>The values that the public constructors and operations can build.\<close>

inductive perms_built :: "access_permissions \<Rightarrow> bool" where
  perms_built_new: "perms_built (perms_new r w x)"
| perms_built_from: "perms_built (perms_from b)"
| perms_built_default: "perms_built perms_default"
| perms_built_const:
    "p \<in> {perms_NONE, perms_READ, perms_WRITE, perms_EXECUTE, perms_READ_WRITE,
          perms_READ_EXECUTE, perms_WRITE_EXECUTE, perms_ALL} \<Longrightarrow> perms_built p"
| perms_built_add: "perms_built p \<Longrightarrow> perms_built (add_permission r p)"
| perms_built_remove: "perms_built p \<Longrightarrow> perms_built (remove_permission r p)"
| perms_built_and: "perms_built p \<Longrightarrow> perms_built q \<Longrightarrow> perms_built (perms_bitand p q)"
| perms_built_or: "perms_built p \<Longrightarrow> perms_built q \<Longrightarrow> perms_built (perms_bitor p q)"

lemma perms_built_wf: "perms_built p \<Longrightarrow> perms_wf p"
proof (induction rule: perms_built.induct)
  case (perms_built_const p)
  then show ?case by (auto simp: perms_wf_def perms_consts)
qed (auto intro: perms_wf_new perms_wf_from perms_wf_add perms_wf_remove perms_wf_bitand
    perms_wf_bitor perms_wf_default)

lemma perms_display_rights:
  "perms_display p = perms_display q \<longleftrightarrow> rights p = rights q"
proof -
  have "rights p = rights q \<longleftrightarrow>
      (\<forall>r. r \<noteq> PermNone \<longrightarrow> has_permission p r = has_permission q r)"
    by (auto simp: rights_def)
  also have "\<dots> \<longleftrightarrow> can_read p = can_read q \<and> can_write p = can_write q \<and>
      can_execute p = can_execute q"
  proof -
    have "(\<forall>r. r \<noteq> PermNone \<longrightarrow> P r) \<longleftrightarrow> P PermRead \<and> P PermWrite \<and> P PermExecute" for P
      by (metis permission.distinct(1,3,5) permission.exhaust)
    then show ?thesis by (simp add: can_read_def can_write_def can_execute_def)
  qed
  finally show ?thesis by (auto simp: perms_display_def)
qed

text \<open>No sequence of public operations builds a permission value with an undefined bit. So the
  bits survive the trip through \<open>as_bits\<close> and \<open>From<u8>\<close>, and both the granted rights and the
  displayed text identify the value.\<close>

theorem perms_roundtrip:
  assumes "perms_built p" and "perms_built q"
  shows "perms_from (as_bits p) = p \<and> (perms_display p = perms_display q \<longleftrightarrow> p = q) \<and>
    (rights p = rights q \<longleftrightarrow> p = q)"
proof -
  have "perms_wf p" "perms_wf q" using assms by (auto dest: perms_built_wf)
  then have "rights p = rights q \<longleftrightarrow> p = q" by (auto dest: rights_inject)
  moreover have "perms_from (as_bits p) = p"
    using \<open>perms_wf p\<close> by (simp add: perms_from_def as_bits_def perms_wf_def)
  ultimately show ?thesis by (simp add: perms_display_rights)
qed

theorem perms_roundtrip_witness:
  "perms_from (as_bits (add_permission PermExecute perms_default)) =
     add_permission PermExecute perms_default \<and>
   perms_display (add_permission PermExecute perms_default) \<noteq> perms_display (perms_from 3)"
  using perms_roundtrip [OF perms_built_add [OF perms_built_default, of PermExecute]
      perms_built_from [of 3]]
  by (simp add: add_permission_def perms_default_def perms_from_def perms_consts)

end
