(* ===== verification/Page_Table.thy ===== *)
theory Page_Table
  imports Rust_Prelude
begin

text \<open>
  Model of \<open>src/memory/page_table.rs\<close>: pages of bytes with flags, allocated by number, freed to a
  free list and read and written with bounds checks. The invariant \<open>pt_inv\<close> says that the page
  numbers below \<open>next_page_id\<close> are either live or on the free list, never both. The locale
  \<open>page_store\<close> is the interface the memory manager uses: what a read returns after a write, and
  that other pages are untouched.
\<close>

section \<open>Model\<close>

text \<open>\<open>MemoryError\<close> of \<open>src/memory/mod.rs\<close>.\<close>

datatype mem_error =
    PageFault usize
  | SegmentFault usize
  | PermissionDenied usize
  | OutOfMemory

record page_flags =
  present :: bool
  writable :: bool
  executable :: bool
  user_accessible :: bool
  dirty :: bool
  accessed :: bool

definition page_flags_default :: page_flags where
  "page_flags_default =
     \<lparr>present = True, writable = True, executable = False, user_accessible = True,
      dirty = False, accessed = False\<rparr>"

record page =
  page_data :: "u8 list"
  flags :: page_flags

record page_table =
  pages :: "u32 \<rightharpoonup> page"
  free_pages :: "u32 list"
  page_size :: usize
  next_page_id :: u32

definition pt_new :: "usize \<Rightarrow> page_table" where
  "pt_new psz = \<lparr>pages = Map.empty, free_pages = [], page_size = psz, next_page_id = 0\<rparr>"

text \<open>\<open>page_id as usize\<close>, the argument of \<open>PageFault\<close>.\<close>

abbreviation fault_at :: "u32 \<Rightarrow> mem_error" where
  "fault_at page_id \<equiv> PageFault (ucast page_id)"

definition take_page_id :: "(page_table, mem_error, u32) comp" where
  "take_page_id =
     andthen (reads free_pages) (\<lambda>free.
       case vec_pop free of
         Some (i, rest) \<Rightarrow> andthen (updates (\<lambda>t. t\<lparr>free_pages := rest\<rparr>)) (\<lambda>_. ret i)
       | None \<Rightarrow>
           andthen (reads next_page_id) (\<lambda>i.
           andthen (ok_or OutOfMemory (checked_add_u i 1)) (\<lambda>next.
           andthen (updates (\<lambda>t. t\<lparr>next_page_id := next\<rparr>)) (\<lambda>_. ret i))))"

definition allocate_page :: "(page_table, mem_error, u32) comp" where
  "allocate_page =
     andthen take_page_id (\<lambda>i.
     andthen (updates (\<lambda>t. t\<lparr>pages := (pages t)(i \<mapsto>
        \<lparr>page_data = replicate (unat (page_size t)) 0, flags = page_flags_default\<rparr>)\<rparr>)) (\<lambda>_.
     ret i))"

definition free_page :: "u32 \<Rightarrow> (page_table, mem_error, unit) comp" where
  "free_page page_id =
     updates (\<lambda>t. case pages t page_id of
        None \<Rightarrow> t
      | Some _ \<Rightarrow> t\<lparr>pages := (pages t)(page_id := None), free_pages := free_pages t @ [page_id]\<rparr>)"

definition pt_read ::
  "build \<Rightarrow> u32 \<Rightarrow> usize \<Rightarrow> usize \<Rightarrow> (page_table, mem_error, u8 list) comp" where
  "pt_read b page_id offset sz =
     andthen (reads (\<lambda>t. pages t page_id)) (\<lambda>p.
     andthen (ok_or (fault_at page_id) p) (\<lambda>pg.
     andthen (guard_err (\<not> present (flags pg)) (fault_at page_id)) (\<lambda>_.
     andthen (or_panic ArithmeticOverflow (add_u b offset sz)) (\<lambda>hi.
     andthen (reads page_size) (\<lambda>psize.
     andthen (guard_err (psize < hi) (fault_at page_id)) (\<lambda>_.
     or_panic IndexOutOfBounds (vec_slice (page_data pg) offset hi)))))))"

text \<open>\<open>page.data[lo..hi].copy_from_slice(data)\<close>, with the bounds already checked.\<close>

definition overwrite :: "nat \<Rightarrow> u8 list \<Rightarrow> u8 list \<Rightarrow> u8 list" where
  "overwrite lo data xs = take lo xs @ data @ drop (lo + length data) xs"

definition pt_write ::
  "build \<Rightarrow> u32 \<Rightarrow> usize \<Rightarrow> u8 list \<Rightarrow> (page_table, mem_error, unit) comp" where
  "pt_write b page_id offset data =
     andthen (reads (\<lambda>t. pages t page_id)) (\<lambda>p.
     andthen (ok_or (fault_at page_id) p) (\<lambda>pg.
     andthen (guard_err (\<not> present (flags pg) \<or> \<not> writable (flags pg)) (fault_at page_id)) (\<lambda>_.
     andthen (or_panic ArithmeticOverflow (add_u b offset (of_nat (length data)))) (\<lambda>hi.
     andthen (reads page_size) (\<lambda>psize.
     andthen (guard_err (psize < hi) (fault_at page_id)) (\<lambda>_.
     andthen (or_panic IndexOutOfBounds (vec_slice (page_data pg) offset hi)) (\<lambda>_.
     updates (\<lambda>t. t\<lparr>pages := (pages t)(page_id \<mapsto>
        pg\<lparr>page_data := overwrite (unat offset) data (page_data pg),
           flags := (flags pg)\<lparr>dirty := True, accessed := True\<rparr>\<rparr>)\<rparr>))))))))"

definition set_flags :: "u32 \<Rightarrow> page_flags \<Rightarrow> (page_table, mem_error, unit) comp" where
  "set_flags page_id fl =
     andthen (reads (\<lambda>t. pages t page_id)) (\<lambda>p.
     andthen (ok_or (fault_at page_id) p) (\<lambda>pg.
     updates (\<lambda>t. t\<lparr>pages := (pages t)(page_id \<mapsto> pg\<lparr>flags := fl\<rparr>)\<rparr>)))"

definition get_page_size :: "page_table \<Rightarrow> usize" where
  "get_page_size t = page_size t"

definition get_flags :: "u32 \<Rightarrow> (page_table, mem_error, page_flags) comp" where
  "get_flags page_id =
     andthen (reads (\<lambda>t. pages t page_id)) (\<lambda>p.
     andthen (ok_or (fault_at page_id) p) (\<lambda>pg. ret (flags pg)))"

definition page_clear :: "page \<Rightarrow> page" where
  "page_clear pg =
     pg\<lparr>page_data := replicate (length (page_data pg)) 0,
        flags := (flags pg)\<lparr>dirty := False, accessed := False\<rparr>\<rparr>"

section \<open>The invariant\<close>

definition pt_inv :: "page_table \<Rightarrow> bool" where
  "pt_inv t \<longleftrightarrow>
     distinct (free_pages t) \<and> set (free_pages t) \<inter> dom (pages t) = {} \<and>
     set (free_pages t) \<union> dom (pages t) = {i. i < next_page_id t} \<and>
     (\<forall>i pg. pages t i = Some pg \<longrightarrow> length (page_data pg) = unat (page_size t))"

lemma page_size_new [simp]: "page_size (pt_new psz) = psz"
  by (simp add: pt_new_def)

lemma pt_inv_new: "pt_inv (pt_new psz)"
  by (simp add: pt_inv_def pt_new_def)

lemma less_Suc_word: "checked_add_u (n :: u32) 1 = Some m \<Longrightarrow> {i. i < m} = insert n {i. i < n}"
  by (drule checked_add_u_Some) (auto simp: word_less_nat_alt word_unat_eq_iff)

lemma allocate_page_inv:
  assumes "pt_inv t"
  shows "wp allocate_page
    (\<lambda>i t'. pt_inv t' \<and> pages t i = None \<and> page_size t' = page_size t \<and>
       pages t' = (pages t)(i \<mapsto>
         \<lparr>page_data = replicate (unat (page_size t)) 0, flags = page_flags_default\<rparr>))
    (\<lambda>e t'. e = OutOfMemory \<and> t' = t \<and> free_pages t = [] \<and> unat (next_page_id t) = 2 ^ 32 - 1)
    (\<lambda>_ _. False) t"
proof (cases "vec_pop (free_pages t)")
  case None
  then have free: "free_pages t = []" by (simp add: vec_pop_None)
  with assms have dom: "dom (pages t) = {i. i < next_page_id t}" by (simp add: pt_inv_def)
  then have fresh: "pages t (next_page_id t) = None"
    by (metis domIff mem_Collect_eq order_less_irrefl)
  show ?thesis
  proof (cases "checked_add_u (next_page_id t) 1")
    case None
    moreover from this have "unat (next_page_id t) = 2 ^ 32 - 1"
      using unsigned_less [of "next_page_id t", where ?'a = nat]
      by (auto simp: checked_add_u_def split: if_splits)
    ultimately show ?thesis
      using free by (simp add: allocate_page_def take_page_id_def wp_simps)
  next
    case (Some m)
    with assms free dom fresh show ?thesis
      by (auto simp: allocate_page_def take_page_id_def wp_simps pt_inv_def less_Suc_word)
  qed
next
  case (Some p)
  obtain i rest where "p = (i, rest)" by fastforce
  with Some have free: "free_pages t = rest @ [i]" by (simp add: vec_pop_Some)
  with assms have "pages t i = None" "distinct rest" "i \<notin> set rest"
    by (auto simp: pt_inv_def)
  with assms free Some \<open>p = (i, rest)\<close> show ?thesis
    by (auto simp: allocate_page_def take_page_id_def wp_simps pt_inv_def)
qed

lemma free_page_inv: "pt_inv t \<Longrightarrow> wp (free_page i) (\<lambda>_. pt_inv) (\<lambda>_ _. False) (\<lambda>_ _. False) t"
  by (auto simp: free_page_def wp_simps pt_inv_def split: option.split)

lemma length_overwrite: "lo + length data \<le> length xs \<Longrightarrow> length (overwrite lo data xs) = length xs"
  by (simp add: overwrite_def)

lemma read_overwrite:
  "lo + length data \<le> length xs \<Longrightarrow> take (length data) (drop lo (overwrite lo data xs)) = data"
  by (simp add: overwrite_def)

lemma overwrite_disjoint:
  assumes "lo + n \<le> off \<or> off + length data \<le> lo" and "off + length data \<le> length xs"
  shows "take n (drop lo (overwrite off data xs)) = take n (drop lo xs)"
  using assms(1)
proof
  assume "lo + n \<le> off"
  with assms(2) show ?thesis
    by (simp add: overwrite_def take_drop min_def)
next
  assume "off + length data \<le> lo"
  with assms(2) show ?thesis
    by (simp add: overwrite_def min_def)
qed

lemma unat_of_nat_length:
  "length xs < 2 ^ 63 \<Longrightarrow> unat (of_nat (length xs) :: usize) = length xs"
  by (simp add: unsigned_of_nat take_bit_nat_eq_self)

lemma pt_write_ok:
  assumes "pt_inv t" and "length data < 2 ^ 63"
  shows "wp (pt_write b i off data)
    (\<lambda>_ t'. \<exists>pg. pages t i = Some pg \<and> present (flags pg) \<and> writable (flags pg) \<and>
       unat off + length data \<le> length (page_data pg) \<and>
       t' = t\<lparr>pages := (pages t)(i \<mapsto>
         pg\<lparr>page_data := overwrite (unat off) data (page_data pg),
            flags := (flags pg)\<lparr>dirty := True, accessed := True\<rparr>\<rparr>)\<rparr>)
    (\<lambda>e t'. e = fault_at i \<and> t' = t)
    (\<lambda>_ t'. t' = t \<and> 2 ^ 64 \<le> unat off + length data) t"
proof (cases "pages t i")
  case None
  then show ?thesis by (simp add: pt_write_def wp_simps)
next
  case (Some pg)
  have len: "unat (of_nat (length data) :: usize) = length data"
    using assms(2) by (rule unat_of_nat_length)
  have data: "length (page_data pg) = unat (page_size t)"
    using assms(1) Some by (simp add: pt_inv_def)
  show ?thesis
  proof (cases "2 ^ 64 \<le> unat off + length data")
    case True
    then have "\<not> off \<le> off + of_nat (length data)"
      using no_olen_add_nat [of off "of_nat (length data)"] len by simp
    then show ?thesis
      using True Some len
      by (auto simp: pt_write_def wp_simps add_u_def vec_slice_def split: option.split)
  next
    case False
    then have no_wrap: "unat (off + of_nat (length data)) = unat off + length data"
      using unat_add_no_wrap [of off "of_nat (length data)"] len by simp
    have add: "add_u b off (of_nat (length data)) = Some (off + of_nat (length data))"
      using False len by (simp add: add_u_exact)
    show ?thesis
      using Some data no_wrap add
      by (auto simp: pt_write_def wp_simps vec_slice_def word_le_nat_alt word_less_nat_alt)
  qed
qed

lemma pt_write_succeeds:
  assumes "pt_inv t" "pages t i = Some pg" "present (flags pg)" "writable (flags pg)"
    and "unat off + length data \<le> unat (page_size t)" "length data < 2 ^ 63"
  shows "\<exists>t'. pt_write b i off data t = (Ok (), t')"
proof -
  have len: "unat (of_nat (length data) :: usize) = length data"
    using assms(6) by (rule unat_of_nat_length)
  moreover have "unat off + length data < 2 ^ 64"
    using assms(5) unat_lt_2p64 [of "page_size t"] by simp
  ultimately have "add_u b off (of_nat (length data)) = Some (off + of_nat (length data))"
    and "unat (off + of_nat (length data)) = unat off + length data"
    by (simp_all add: add_u_exact unat_add_no_wrap)
  moreover have "length (page_data pg) = unat (page_size t)"
    using assms(1,2) by (simp add: pt_inv_def)
  ultimately show ?thesis
    using assms by (simp add: pt_write_def andthen_def vec_slice_def word_le_nat_alt word_less_nat_alt)
qed

lemma pt_write_fails_unchanged:
  "wp (pt_write b i off data) (\<lambda>_ _. True) (\<lambda>e t'. e = fault_at i \<and> t' = t) (\<lambda>_ t'. t' = t) t"
  by (auto simp: pt_write_def wp_simps split: option.split)

lemma pt_read_ok:
  assumes "pt_inv t"
  shows "wp (pt_read b i off sz)
    (\<lambda>d t'. t' = t \<and> (\<exists>pg. pages t i = Some pg \<and> present (flags pg) \<and>
       unat off + unat sz \<le> length (page_data pg) \<and>
       d = take (unat sz) (drop (unat off) (page_data pg))))
    (\<lambda>e t'. e = fault_at i \<and> t' = t \<and>
       (\<forall>pg. pages t i = Some pg \<longrightarrow>
          present (flags pg) \<longrightarrow> length (page_data pg) < unat off + unat sz))
    (\<lambda>_ t'. t' = t \<and> 2 ^ 64 \<le> unat off + unat sz) t"
proof (cases "pages t i")
  case None
  then show ?thesis by (simp add: pt_read_def wp_simps)
next
  case (Some pg)
  have data: "length (page_data pg) = unat (page_size t)"
    using assms Some by (simp add: pt_inv_def)
  show ?thesis
  proof (cases "2 ^ 64 \<le> unat off + unat sz")
    case True
    moreover from this have "\<not> off \<le> off + sz"
      using no_olen_add_nat [of off sz] by simp
    moreover have "unat (page_size t) < 2 ^ 64"
      using unsigned_less [of "page_size t", where ?'a = nat] by simp
    ultimately show ?thesis
      using Some data by (auto simp: pt_read_def wp_simps add_u_def vec_slice_def split: option.split)
  next
    case False
    then have no_wrap: "unat (off + sz) = unat off + unat sz"
      using unat_add_no_wrap [of off sz] by simp
    have "add_u b off sz = Some (off + sz)"
      using False by (simp add: add_u_exact)
    with Some data no_wrap show ?thesis
      by (auto simp: pt_read_def wp_simps vec_slice_def word_le_nat_alt word_less_nat_alt)
  qed
qed

lemma pt_write_inv:
  assumes "pt_inv t" and "length data < 2 ^ 63"
  shows "wp (pt_write b i off data) (\<lambda>_. pt_inv) (\<lambda>_. pt_inv) (\<lambda>_. pt_inv) t"
  by (rule wp_mono [OF pt_write_ok [OF assms]])
    (use assms(1) in \<open>auto simp: pt_inv_def length_overwrite split: if_splits\<close>)

text \<open>A write does not take away that a page can be read.\<close>

lemma pt_read_kept:
  assumes t: "pt_inv t" "length data < 2 ^ 63" and wr: "pt_write b i off data t = (Ok (), t')"
    and old: "pt_read b j lo sz t = (Ok d, t)"
  shows "\<exists>d'. pt_read b j lo sz t' = (Ok d', t')"
proof -
  from wp_Ok [OF pt_write_ok [OF t] wr] obtain pg where
    pg: "pages t i = Some pg" "present (flags pg)" "unat off + length data \<le> length (page_data pg)"
    and t': "t' = t\<lparr>pages := (pages t)(i \<mapsto>
      pg\<lparr>page_data := overwrite (unat off) data (page_data pg),
         flags := (flags pg)\<lparr>dirty := True, accessed := True\<rparr>\<rparr>)\<rparr>"
    by auto
  from wp_Ok [OF pt_read_ok [OF t(1)] old] obtain q where
    q: "pages t j = Some q" "present (flags q)" "unat lo + unat sz \<le> length (page_data q)"
    by auto
  have "length (page_data q) < 2 ^ 64"
    using t(1) q(1) unat_lt_2p64 [of "page_size t"] by (simp add: pt_inv_def)
  moreover have "pt_inv t'" by (rule wp_Ok [OF pt_write_inv [OF t] wr])
  note pt_read_ok [OF this, of b j lo sz]
  ultimately show ?thesis
    using pg q t'
    by (auto simp: wp_def length_overwrite split: prod.splits outcome.splits if_splits)
qed

lemma set_flags_inv:
  "pt_inv t \<Longrightarrow> wp (set_flags i fl) (\<lambda>_. pt_inv) (\<lambda>_. pt_inv) (\<lambda>_. pt_inv) t"
  by (auto simp: set_flags_def wp_simps pt_inv_def split: option.split if_splits)

section \<open>The interface of the page table\<close>

text \<open>
  What a client relies on: the stored bytes as a map from page numbers to byte lists, and how
  each operation that returns reads or changes this map. \<open>invar\<close> hides the free list.
\<close>

locale page_store =
  fixes invar :: "'s \<Rightarrow> bool"
    and contents :: "'s \<Rightarrow> 'p \<Rightarrow> u8 list option"
    and alloc :: "('s, 'e, 'p) comp"
    and release :: "'p \<Rightarrow> ('s, 'e, unit) comp"
    and get_bytes :: "'p \<Rightarrow> usize \<Rightarrow> usize \<Rightarrow> ('s, 'e, u8 list) comp"
    and put_bytes :: "'p \<Rightarrow> usize \<Rightarrow> u8 list \<Rightarrow> ('s, 'e, unit) comp"
  assumes alloc_spec: "invar s \<Longrightarrow> alloc s = (Ok i, s') \<Longrightarrow>
      invar s' \<and> contents s i = None \<and>
      (\<exists>n. contents s' = (contents s)(i \<mapsto> replicate n 0))"
    and release_spec: "invar s \<Longrightarrow> release i s = (Ok (), s') \<Longrightarrow>
      invar s' \<and> contents s' = (contents s)(i := None)"
    and get_spec: "invar s \<Longrightarrow> get_bytes i off sz s = (Ok d, s') \<Longrightarrow>
      s' = s \<and> (\<exists>xs. contents s i = Some xs \<and> unat off + unat sz \<le> length xs \<and>
        d = take (unat sz) (drop (unat off) xs))"
    and put_spec: "invar s \<Longrightarrow> length data < 2 ^ 63 \<Longrightarrow> put_bytes i off data s = (Ok (), s') \<Longrightarrow>
      invar s' \<and> (\<exists>xs. contents s i = Some xs \<and> unat off + length data \<le> length xs \<and>
        contents s' = (contents s)(i \<mapsto> overwrite (unat off) data xs))"
    and put_readable: "invar s \<Longrightarrow> length data < 2 ^ 63 \<Longrightarrow>
      put_bytes i off data s = (Ok (), s') \<Longrightarrow>
      \<exists>d. get_bytes i off (of_nat (length data)) s' = (Ok d, s')"
begin

lemma get_after_put:
  assumes "invar s" "length data < 2 ^ 63" "put_bytes i off data s = (Ok (), s')"
  shows "get_bytes i off (of_nat (length data)) s' = (Ok data, s')"
proof -
  from put_spec [OF assms] obtain xs where
    "invar s'" and len: "unat off + length data \<le> length xs"
    and xs: "contents s' i = Some (overwrite (unat off) data xs)" by auto
  moreover from put_readable [OF assms] obtain d
    where d: "get_bytes i off (of_nat (length data)) s' = (Ok d, s')" by auto
  ultimately show ?thesis
    using get_spec [OF \<open>invar s'\<close> d] read_overwrite [OF len] unat_of_nat_length [OF assms(2)]
    by simp
qed

text \<open>Two ranges that share no byte: on different pages, or one before the other.\<close>

lemma get_disjoint:
  assumes "invar s" "length data < 2 ^ 63" "put_bytes i off data s = (Ok (), s')"
    and old: "get_bytes j lo sz s = (Ok d, s)" and new: "get_bytes j lo sz s' = (Ok d', s')"
    and "i \<noteq> j \<or> unat lo + unat sz \<le> unat off \<or> unat off + length data \<le> unat lo"
  shows "d' = d"
proof -
  from put_spec [OF assms(1-3)] obtain xs where
    "invar s'" and xs: "contents s i = Some xs" "unat off + length data \<le> length xs"
    and s': "contents s' = (contents s)(i \<mapsto> overwrite (unat off) data xs)" by auto
  from get_spec [OF \<open>invar s\<close> old] obtain ys where
    ys: "contents s j = Some ys" "d = take (unat sz) (drop (unat lo) ys)" by auto
  from get_spec [OF \<open>invar s'\<close> new] obtain zs where
    zs: "contents s' j = Some zs" "d' = take (unat sz) (drop (unat lo) zs)" by auto
  show ?thesis
  proof (cases "i = j")
    case False
    with s' ys zs show ?thesis by simp
  next
    case True
    with xs ys zs s' have "d' = take (unat sz) (drop (unat lo) (overwrite (unat off) data ys))"
      by simp
    with True xs ys assms(6) show ?thesis by (simp add: overwrite_disjoint)
  qed
qed

lemma alloc_zeroed:
  assumes "invar s" "alloc s = (Ok i, s')" "get_bytes i off sz s' = (Ok d, s')"
  shows "d = replicate (unat sz) 0"
proof -
  from alloc_spec [OF assms(1,2)] obtain n
    where "invar s'" "contents s' i = Some (replicate n 0)" by auto
  with get_spec [OF _ assms(3)] show ?thesis
    by (auto simp: min_def)
qed

lemma get_after_release:
  assumes "invar s" "release i s = (Ok (), s')"
  shows "get_bytes i off sz s' \<noteq> (Ok d, t)"
  using release_spec [OF assms] get_spec [of s' i off sz d t] by auto

end

definition page_contents :: "page_table \<Rightarrow> u32 \<Rightarrow> u8 list option" where
  "page_contents t i = map_option page_data (pages t i)"

lemma page_contents_upd [simp]:
  "page_contents (t\<lparr>pages := (pages t)(i := p)\<rparr>) =
     (page_contents t)(i := map_option page_data p)"
  by (simp add: page_contents_def fun_eq_iff)

interpretation pt: page_store pt_inv page_contents allocate_page free_page "pt_read b" "pt_write b"
  for b
proof
  fix t t' i assume "pt_inv t" "allocate_page t = (Ok i, t')"
  then show "pt_inv t' \<and> page_contents t i = None \<and>
      (\<exists>n. page_contents t' = (page_contents t)(i \<mapsto> replicate n 0))"
    by (auto dest!: allocate_page_inv dest: wp_Ok simp: page_contents_def fun_eq_iff)
next
  fix t t' i assume "pt_inv t" "free_page i t = (Ok (), t')"
  then show "pt_inv t' \<and> page_contents t' = (page_contents t)(i := None)"
    using wp_Ok [OF free_page_inv, of t i "()" t']
    by (auto simp: free_page_def page_contents_def fun_eq_iff split: option.splits)
next
  fix t t' i off sz d assume "pt_inv t" "pt_read b i off sz t = (Ok d, t')"
  then show "t' = t \<and> (\<exists>xs. page_contents t i = Some xs \<and> unat off + unat sz \<le> length xs \<and>
      d = take (unat sz) (drop (unat off) xs))"
    by (auto dest!: wp_Ok [OF pt_read_ok] simp: page_contents_def)
next
  fix t t' i off data
  assume t: "pt_inv t" "length data < 2 ^ 63" and st: "pt_write b i off data t = (Ok (), t')"
  show "pt_inv t' \<and> (\<exists>xs. page_contents t i = Some xs \<and> unat off + length data \<le> length xs \<and>
      page_contents t' = (page_contents t)(i \<mapsto> overwrite (unat off) data xs))"
    using wp_Ok [OF pt_write_inv [OF t] st] wp_Ok [OF pt_write_ok [OF t] st]
    by (auto simp: page_contents_def fun_eq_iff)
  obtain pg where pg: "pages t i = Some pg" "present (flags pg)"
    "unat off + length data \<le> length (page_data pg)"
    and t': "t' = t\<lparr>pages := (pages t)(i \<mapsto>
      pg\<lparr>page_data := overwrite (unat off) data (page_data pg),
         flags := (flags pg)\<lparr>dirty := True, accessed := True\<rparr>\<rparr>)\<rparr>"
    using wp_Ok [OF pt_write_ok [OF t] st] by auto
  have "pt_inv t'" by (rule wp_Ok [OF pt_write_inv [OF t] st])
  note r = pt_read_ok [OF this, of b i off "of_nat (length data)"]
  have "length (page_data pg) < 2 ^ 64"
    using t(1) pg(1) unat_lt_2p64 [of "page_size t"] by (simp add: pt_inv_def)
  moreover have "unat (of_nat (length data) :: usize) = length data"
    using t(2) by (rule unat_of_nat_length)
  ultimately show "\<exists>d. pt_read b i off (of_nat (length data)) t' = (Ok d, t')"
    using r pg t' by (auto simp: wp_def length_overwrite split: prod.splits outcome.splits)
qed

section \<open>Reachable page tables\<close>

text \<open>
  One call of the public interface of \<open>PageTable\<close>, whatever it returns (Rust limits a slice to
  \<open>isize::MAX\<close> bytes), and the tables that sequences of such calls reach from \<open>new\<close>.
\<close>

inductive pt_step :: "page_table \<Rightarrow> page_table \<Rightarrow> bool" where
  pt_step_allocate: "allocate_page t = (r, t') \<Longrightarrow> pt_step t t'"
| pt_step_free: "free_page i t = (r, t') \<Longrightarrow> pt_step t t'"
| pt_step_read: "pt_read b i off sz t = (r, t') \<Longrightarrow> pt_step t t'"
| pt_step_write: "length data < 2 ^ 63 \<Longrightarrow> pt_write b i off data t = (r, t') \<Longrightarrow> pt_step t t'"
| pt_step_set_flags: "set_flags i fl t = (r, t') \<Longrightarrow> pt_step t t'"
| pt_step_get_flags: "get_flags i t = (r, t') \<Longrightarrow> pt_step t t'"

inductive pt_reachable :: "usize \<Rightarrow> page_table \<Rightarrow> bool" for psz where
  pt_reachable_new: "pt_reachable psz (pt_new psz)"
| pt_reachable_step: "pt_reachable psz t \<Longrightarrow> pt_step t t' \<Longrightarrow> pt_reachable psz t'"

lemma page_size_kept:
  "wp allocate_page (\<lambda>_ t'. page_size t' = page_size t) (\<lambda>_ t'. page_size t' = page_size t)
     (\<lambda>_ t'. page_size t' = page_size t) t"
  "wp (free_page i) (\<lambda>_ t'. page_size t' = page_size t) (\<lambda>_ t'. page_size t' = page_size t)
     (\<lambda>_ t'. page_size t' = page_size t) t"
  "wp (pt_write b i off data) (\<lambda>_ t'. page_size t' = page_size t)
     (\<lambda>_ t'. page_size t' = page_size t) (\<lambda>_ t'. page_size t' = page_size t) t"
  "wp (set_flags i fl) (\<lambda>_ t'. page_size t' = page_size t)
     (\<lambda>_ t'. page_size t' = page_size t) (\<lambda>_ t'. page_size t' = page_size t) t"
  by (auto simp: allocate_page_def take_page_id_def free_page_def pt_write_def set_flags_def
      wp_simps split: option.split)

lemma reads_keep_table:
  "wp (pt_read b i off sz) (\<lambda>_ t'. t' = t) (\<lambda>_ t'. t' = t) (\<lambda>_ t'. t' = t) t"
  "wp (get_flags i) (\<lambda>_ t'. t' = t) (\<lambda>_ t'. t' = t) (\<lambda>_ t'. t' = t) t"
  by (auto simp: pt_read_def get_flags_def wp_simps split: option.split)

lemma pt_step_inv:
  assumes "pt_step t t'" and "pt_inv t"
  shows "pt_inv t' \<and> page_size t' = page_size t"
  using assms
proof cases
  case (pt_step_allocate r)
  have "wp allocate_page (\<lambda>_. pt_inv) (\<lambda>_. pt_inv) (\<lambda>_. pt_inv) t"
    by (rule wp_mono [OF allocate_page_inv]) (use assms(2) in auto)
  with pt_step_allocate page_size_kept(1) [of t] show ?thesis by (auto dest: wp_all)
next
  case (pt_step_free i r)
  have "wp (free_page i) (\<lambda>_. pt_inv) (\<lambda>_. pt_inv) (\<lambda>_. pt_inv) t"
    by (rule wp_mono [OF free_page_inv]) (use assms(2) in auto)
  with pt_step_free page_size_kept(2) [of i t] show ?thesis by (auto dest: wp_all)
next
  case (pt_step_read b i off sz r)
  with assms reads_keep_table(1) [of b i off sz t] show ?thesis by (auto dest: wp_all)
next
  case (pt_step_write data b i off r)
  with pt_write_inv [OF assms(2) pt_step_write(1), of b i off] page_size_kept(3) [of b i off data t]
  show ?thesis by (auto dest: wp_all)
next
  case (pt_step_set_flags i fl r)
  with set_flags_inv [OF assms(2)] page_size_kept(4) [of i fl t] show ?thesis
    by (auto dest: wp_all)
next
  case (pt_step_get_flags i r)
  with assms reads_keep_table(2) [of i t] show ?thesis by (auto dest: wp_all)
qed

lemma pt_reachable_inv: "pt_reachable psz t \<Longrightarrow> pt_inv t \<and> page_size t = psz"
  by (induction rule: pt_reachable.induct) (auto simp: pt_inv_new dest: pt_step_inv)

lemma pt_inv_live: "pt_inv t \<Longrightarrow> map_len (pages t) + length (free_pages t) = unat (next_page_id t)"
proof -
  assume t: "pt_inv t"
  have fin: "finite (dom (pages t))" by (rule finite_subset [OF subset_UNIV]) simp
  have "card {i. i < next_page_id t} = unat (next_page_id t)"
  proof -
    have "unat ` {i. i < next_page_id t} = {..<unat (next_page_id t)}"
    proof (intro equalityI subsetI)
      fix n assume "n \<in> {..<unat (next_page_id t)}"
      then have "unat (of_nat n :: u32) = n"
        using unsigned_less [of "next_page_id t", where ?'a = nat]
        by (simp add: unsigned_of_nat take_bit_nat_eq_self)
      with \<open>n \<in> _\<close> show "n \<in> unat ` {i. i < next_page_id t}"
        by (auto simp: word_less_nat_alt intro!: image_eqI [of _ _ "of_nat n"])
    qed (auto simp: word_less_nat_alt)
    moreover have "inj_on unat {i. i < next_page_id t}"
      by (auto intro: inj_onI simp: word_unat_eq_iff)
    ultimately show ?thesis by (metis card_image card_lessThan)
  qed
  moreover have "card (set (free_pages t) \<union> dom (pages t)) =
      card (set (free_pages t)) + card (dom (pages t))"
    by (rule card_Un_disjoint) (use t fin in \<open>auto simp: pt_inv_def\<close>)
  moreover have "set (free_pages t) \<union> dom (pages t) = {i. i < next_page_id t}"
    and "card (set (free_pages t)) = length (free_pages t)"
    using t by (simp_all add: pt_inv_def distinct_card)
  ultimately show ?thesis by (simp add: map_len_def)
qed

section \<open>Properties\<close>

text \<open>C11: A page table reached by any sequence of calls of its public operations, failing ones
  included, keeps its page size and its bookkeeping: the free list has no duplicates, the page
  numbers handed out so far are exactly the live and the free ones, never both, and every page
  holds \<open>page_size\<close> bytes.\<close>

theorem page_table_invariants:
  assumes "pt_reachable psz t"
  shows "page_size t = psz \<and> distinct (free_pages t) \<and>
    set (free_pages t) \<inter> dom (pages t) = {} \<and>
    set (free_pages t) \<union> dom (pages t) = {i. i < next_page_id t} \<and>
    (\<forall>pg \<in> ran (pages t). length (page_data pg) = unat psz)"
  using pt_reachable_inv [OF assms] by (auto simp: pt_inv_def ran_def)

theorem page_table_invariants_witness:
  "set (free_pages (snd (free_page 0 (snd (allocate_page (pt_new 4)))))) \<inter>
     dom (pages (snd (free_page 0 (snd (allocate_page (pt_new 4)))))) = {} \<and>
   free_pages (snd (free_page 0 (snd (allocate_page (pt_new 4))))) = [0]"
proof -
  define t1 where "t1 = snd (allocate_page (pt_new 4))"
  define t2 where "t2 = snd (free_page 0 t1)"
  have "pt_reachable 4 t1"
    unfolding t1_def
    by (rule pt_reachable_step [OF pt_reachable_new pt_step_allocate [OF prod.collapse [symmetric]]])
  then have "pt_reachable 4 t2"
    unfolding t2_def
    by (rule pt_reachable_step [OF _ pt_step_free [OF prod.collapse [symmetric]]])
  from page_table_invariants [OF this] have "set (free_pages t2) \<inter> dom (pages t2) = {}" by blast
  moreover have "free_pages t2 = [0]"
    by (simp add: t2_def t1_def allocate_page_def take_page_id_def free_page_def pt_new_def
        checked_add_u_def andthen_def)
  ultimately show ?thesis by (simp add: t1_def t2_def)
qed

text \<open>Allocation fails exactly when all \<open>2 ^ 32 - 1\<close> page numbers are live, and then changes
  nothing. Otherwise it returns a number that was not live, and the only change to the stored
  pages is that this number now has a page of zeros with the default flags, also when the
  number is recycled.\<close>

theorem allocate_page_total:
  assumes "pt_inv t"
  shows "if map_len (pages t) = 2 ^ 32 - 1 then allocate_page t = (Err OutOfMemory, t)
    else \<exists>i t'. allocate_page t = (Ok i, t') \<and> pages t i = None \<and>
      pages t' = (pages t)(i \<mapsto>
        \<lparr>page_data = replicate (unat (page_size t)) 0, flags = page_flags_default\<rparr>)"
proof -
  obtain r t' where run: "allocate_page t = (r, t')" by fastforce
  note spec = allocate_page_inv [OF assms]
  show ?thesis
  proof (cases r)
    case (Ok i)
    with spec run have "pt_inv t'" "pages t i = None"
      "pages t' = (pages t)(i \<mapsto>
        \<lparr>page_data = replicate (unat (page_size t)) 0, flags = page_flags_default\<rparr>)"
      by (auto dest: wp_Ok)
    moreover from this have "map_len (pages t') = Suc (map_len (pages t))"
      by (simp add: map_len_update_new domIff)
    with pt_inv_live [OF \<open>pt_inv t'\<close>] have "map_len (pages t) \<noteq> 2 ^ 32 - 1"
      using unsigned_less [of "next_page_id t'", where ?'a = nat] by simp
    ultimately show ?thesis using run Ok by auto
  next
    case (Err e)
    with spec run have "e = OutOfMemory" "t' = t" "free_pages t = []"
      "unat (next_page_id t) = 2 ^ 32 - 1"
      by (auto dest: wp_Err)
    with pt_inv_live [OF assms] run Err show ?thesis by simp
  next
    case (Panic p)
    with spec run show ?thesis by (auto dest: wp_Panic)
  qed
qed

text \<open>C10: Writing to a present, writable page within its bounds succeeds; reading the same range
  then returns the bytes written, and a read that shares no byte with the range, on this page
  or another, returns what it returned before.\<close>

theorem page_read_after_write:
  assumes "pt_inv t" and "pages t i = Some pg" "present (flags pg)" "writable (flags pg)"
    and "unat off + length data \<le> unat (page_size t)" "length data < 2 ^ 63"
    and "pt_read b j lo sz t = (Ok d, t)"
    and "i \<noteq> j \<or> unat lo + unat sz \<le> unat off \<or> unat off + length data \<le> unat lo"
  shows "\<exists>t'. pt_write b i off data t = (Ok (), t') \<and>
    pt_read b i off (of_nat (length data)) t' = (Ok data, t') \<and>
    pt_read b j lo sz t' = (Ok d, t')"
proof -
  note t = assms(1) assms(6)
  from pt_write_succeeds [OF assms(1-6)] obtain t'
    where wr: "pt_write b i off data t = (Ok (), t')" by blast
  have "\<exists>d'. pt_read b j lo sz t' = (Ok d', t')"
    using pt_read_kept [OF t wr] assms(7) by blast
  with pt.get_after_put [OF t wr] pt.get_disjoint [OF t wr assms(7) _ assms(8)] wr
  show ?thesis by auto
qed

definition two_pages :: page_table where
  "two_pages =
     \<lparr>pages = [0 \<mapsto> \<lparr>page_data = [0, 0, 0, 0], flags = page_flags_default\<rparr>,
               1 \<mapsto> \<lparr>page_data = [1, 2, 3, 4], flags = page_flags_default\<rparr>],
      free_pages = [], page_size = 4, next_page_id = 2\<rparr>"

lemma two_pages_inv: "pt_inv two_pages"
proof -
  have "{i. i < (2 :: u32)} = {0, 1}"
    by (auto simp: word_less_nat_alt word_unat_eq_iff)
  then show ?thesis by (simp add: pt_inv_def two_pages_def insert_commute)
qed

lemma two_pages_read: "pt_read Debug 1 0 2 two_pages = (Ok [1, 2], two_pages)"
  by (simp add: pt_read_def two_pages_def add_u_def vec_slice_def page_flags_default_def)

theorem allocate_page_total_witness:
  "\<exists>i t'. allocate_page two_pages = (Ok i, t') \<and> pages t' i =
     Some \<lparr>page_data = [0, 0, 0, 0], flags = page_flags_default\<rparr>"
proof -
  have "dom (pages two_pages) = {0, 1}" by (auto simp: two_pages_def)
  then have "map_len (pages two_pages) \<noteq> 2 ^ 32 - 1" by (simp add: map_len_def)
  moreover have "replicate (unat (page_size two_pages)) (0 :: u8) = [0, 0, 0, 0]"
  proof -
    have "unat (page_size two_pages) = 4" by (simp add: two_pages_def)
    then show ?thesis by (simp add: numeral_eq_Suc)
  qed
  ultimately show ?thesis
    using allocate_page_total [OF two_pages_inv] by auto
qed

theorem page_read_after_write_witness:
  "\<exists>t'. pt_write Debug 0 1 [9, 8] two_pages = (Ok (), t') \<and>
     pt_read Debug 0 1 2 t' = (Ok [9, 8], t') \<and> pt_read Debug 1 0 2 t' = (Ok [1, 2], t')"
  using page_read_after_write [OF two_pages_inv _ _ _ _ _ two_pages_read,
      of 0 "\<lparr>page_data = [0, 0, 0, 0], flags = page_flags_default\<rparr>" 1 "[9, 8]"]
  by (simp add: two_pages_def page_flags_default_def)

end
