(* ===== verification/Segments.thy ===== *)
theory Segments
  imports Page_Table
begin

text \<open>
  Model of \<open>src/memory/segment.rs\<close>: typed memory segments with a base, a size, a growth limit and
  metadata. Timestamps are natural numbers read from a clock, which the operations take as an
  argument. The lemmas follow a segment through every sequence of its operations: what never
  changes, how far it can grow, and how addresses translate to offsets and back.
\<close>

section \<open>Model\<close>

datatype segment_type = Code | Data | Stack | Heap

type_synonym system_time = nat

record segment_metadata =
  creation_time :: system_time
  last_access :: system_time
  reference_count :: usize
  shared :: bool
  owner :: "u32 option"

record memory_segment =
  segment_type :: segment_type
  seg_base :: usize
  seg_size :: usize
  max_size :: usize
  growable :: bool
  metadata :: segment_metadata

text \<open>The clock is read twice.\<close>

definition metadata_new :: "system_time \<Rightarrow> system_time \<Rightarrow> segment_metadata" where
  "metadata_new now now' =
     \<lparr>creation_time = now, last_access = now', reference_count = 1, shared = False, owner = None\<rparr>"

definition segment_limits :: "build \<Rightarrow> segment_type \<Rightarrow> usize \<Rightarrow> (usize \<times> bool) option" where
  "segment_limits b st sz =
     (case st of
        Code \<Rightarrow> Some (sz, False)
      | Data \<Rightarrow> map_option (\<lambda>limit. (limit, True)) (mul_u b sz 2)
      | Stack \<Rightarrow> Some (1024 * 1024, True)
      | Heap \<Rightarrow> Some (- 1, True))"

definition segment_new ::
  "build \<Rightarrow> system_time \<Rightarrow> system_time \<Rightarrow> segment_type \<Rightarrow> usize \<Rightarrow>
   (mem_error, memory_segment) outcome" where
  "segment_new b now now' st sz =
     (if sz = 0 then Err OutOfMemory
      else case segment_limits b st sz of
          None \<Rightarrow> Panic ArithmeticOverflow
        | Some (limit, grows) \<Rightarrow> Ok
            \<lparr>segment_type = st, seg_base = 0, seg_size = sz, max_size = limit,
             growable = grows, metadata = metadata_new now now'\<rparr>)"

definition resize :: "usize \<Rightarrow> (memory_segment, mem_error, unit) comp" where
  "resize new_size =
     andthen (reads growable) (\<lambda>g.
     andthen (reads seg_base) (\<lambda>base.
     andthen (guard_err (\<not> g) (SegmentFault base)) (\<lambda>_.
     andthen (reads max_size) (\<lambda>limit.
     andthen (guard_err (limit < new_size) OutOfMemory) (\<lambda>_.
     updates (\<lambda>s. s\<lparr>seg_size := new_size\<rparr>))))))"

text \<open>
  \<open>contains\<close> evaluates \<open>base + size\<close> only when the address is not below the base; \<open>None\<close> is the
  overflow panic of a debug build. \<open>segment_offset\<close> has the code's \<open>Option\<close> inside.
\<close>

definition contains :: "build \<Rightarrow> usize \<Rightarrow> memory_segment \<Rightarrow> bool option" where
  "contains b address s =
     (if seg_base s \<le> address
      then map_option (\<lambda>top. address < top) (add_u b (seg_base s) (seg_size s))
      else Some False)"

definition segment_offset :: "build \<Rightarrow> usize \<Rightarrow> memory_segment \<Rightarrow> usize option option" where
  "segment_offset b address s =
     map_option (\<lambda>inside. if inside then Some (address - seg_base s) else None)
       (contains b address s)"

definition set_base :: "usize \<Rightarrow> memory_segment \<Rightarrow> memory_segment" where
  "set_base base s = s\<lparr>seg_base := base\<rparr>"

definition increment_ref_count :: "build \<Rightarrow> (memory_segment, mem_error, unit) comp" where
  "increment_ref_count b =
     andthen (reads (\<lambda>s. reference_count (metadata s))) (\<lambda>n.
     andthen (or_panic ArithmeticOverflow (add_u b n 1)) (\<lambda>n'.
     updates (\<lambda>s. s\<lparr>metadata := (metadata s)\<lparr>reference_count := n'\<rparr>\<rparr>)))"

definition decrement_ref_count :: "(memory_segment, mem_error, usize) comp" where
  "decrement_ref_count =
     andthen (updates (\<lambda>s. s\<lparr>metadata := (metadata s)
        \<lparr>reference_count := sat_sub_u (reference_count (metadata s)) 1\<rparr>\<rparr>)) (\<lambda>_.
     reads (\<lambda>s. reference_count (metadata s)))"

definition set_shared :: "bool \<Rightarrow> memory_segment \<Rightarrow> memory_segment" where
  "set_shared v s = s\<lparr>metadata := (metadata s)\<lparr>shared := v\<rparr>\<rparr>"

definition is_shared :: "memory_segment \<Rightarrow> bool" where
  "is_shared s = shared (metadata s)"

definition set_owner :: "u32 \<Rightarrow> memory_segment \<Rightarrow> memory_segment" where
  "set_owner i s = s\<lparr>metadata := (metadata s)\<lparr>owner := Some i\<rparr>\<rparr>"

definition owner_id :: "memory_segment \<Rightarrow> u32 option" where
  "owner_id s = owner (metadata s)"

definition get_segment_type :: "memory_segment \<Rightarrow> segment_type" where
  "get_segment_type s = segment_type s"

definition get_size :: "memory_segment \<Rightarrow> usize" where
  "get_size s = seg_size s"

definition get_base :: "memory_segment \<Rightarrow> usize" where
  "get_base s = seg_base s"

definition get_is_growable :: "memory_segment \<Rightarrow> bool" where
  "get_is_growable s = growable s"

definition get_max_size :: "memory_segment \<Rightarrow> usize" where
  "get_max_size s = max_size s"

definition last_access_time :: "memory_segment \<Rightarrow> system_time" where
  "last_access_time s = last_access (metadata s)"

definition get_creation_time :: "memory_segment \<Rightarrow> system_time" where
  "get_creation_time s = creation_time (metadata s)"

definition update_access_time :: "system_time \<Rightarrow> memory_segment \<Rightarrow> memory_segment" where
  "update_access_time now s = s\<lparr>metadata := (metadata s)\<lparr>last_access := now\<rparr>\<rparr>"

section \<open>Operations on a segment\<close>

inductive seg_step :: "build \<Rightarrow> memory_segment \<Rightarrow> memory_segment \<Rightarrow> bool" for b where
  seg_resize: "resize n s = (r, s') \<Longrightarrow> seg_step b s s'"
| seg_set_base: "seg_step b s (set_base a s)"
| seg_increment: "increment_ref_count b s = (r, s') \<Longrightarrow> seg_step b s s'"
| seg_decrement: "decrement_ref_count s = (r, s') \<Longrightarrow> seg_step b s s'"
| seg_set_shared: "seg_step b s (set_shared v s)"
| seg_set_owner: "seg_step b s (set_owner i s)"
| seg_touch: "seg_step b s (update_access_time now s)"

inductive seg_reachable :: "build \<Rightarrow> segment_type \<Rightarrow> usize \<Rightarrow> memory_segment \<Rightarrow> bool"
  for b st n where
  seg_reachable_new: "segment_new b now now' st n = Ok s \<Longrightarrow> seg_reachable b st n s"
| seg_reachable_step: "seg_reachable b st n s \<Longrightarrow> seg_step b s s' \<Longrightarrow> seg_reachable b st n s'"

definition seg_inv :: "build \<Rightarrow> segment_type \<Rightarrow> usize \<Rightarrow> memory_segment \<Rightarrow> bool" where
  "seg_inv b st n s \<longleftrightarrow>
     n \<noteq> 0 \<and> segment_type s = st \<and> segment_limits b st n = Some (max_size s, growable s) \<and>
     (seg_size s = n \<or> growable s \<and> seg_size s \<le> max_size s)"

lemma seg_inv_new: "segment_new b now now' st n = Ok s \<Longrightarrow> seg_inv b st n s"
  by (auto simp: segment_new_def seg_inv_def split: if_splits option.splits)

lemma resize_wp:
  "wp (resize m) (\<lambda>_ s'. s' = s\<lparr>seg_size := m\<rparr> \<and> growable s \<and> m \<le> max_size s)
     (\<lambda>e s'. s' = s \<and> (if growable s then e = OutOfMemory \<and> max_size s < m
                       else e = SegmentFault (seg_base s)))
     (\<lambda>_ _. False) s"
  by (auto simp: resize_def wp_simps not_less)

lemma seg_step_inv: "seg_step b s s' \<Longrightarrow> seg_inv b st n s \<Longrightarrow> seg_inv b st n s'"
proof (induction rule: seg_step.induct)
  case (seg_resize m s r s')
  have "wp (resize m) (\<lambda>_. seg_inv b st n) (\<lambda>_. seg_inv b st n) (\<lambda>_. seg_inv b st n) s"
    by (rule wp_mono [OF resize_wp]) (use seg_resize(2) in \<open>auto simp: seg_inv_def\<close>)
  with seg_resize(1) show ?case by (blast dest: wp_all)
next
  case (seg_increment s r s')
  have "wp (increment_ref_count b) (\<lambda>_. seg_inv b st n) (\<lambda>_. seg_inv b st n) (\<lambda>_. seg_inv b st n) s"
    using seg_increment(2)
    by (auto simp: increment_ref_count_def wp_simps seg_inv_def split: option.split)
  with seg_increment(1) show ?case by (blast dest: wp_all)
next
  case (seg_decrement s r s')
  have "wp decrement_ref_count (\<lambda>_. seg_inv b st n) (\<lambda>_. seg_inv b st n) (\<lambda>_. seg_inv b st n) s"
    using seg_decrement(2) by (auto simp: decrement_ref_count_def wp_simps seg_inv_def)
  with seg_decrement(1) show ?case by (blast dest: wp_all)
qed (simp_all add: seg_inv_def set_base_def set_shared_def set_owner_def update_access_time_def)

lemma seg_reachable_inv: "seg_reachable b st n s \<Longrightarrow> seg_inv b st n s"
  by (induction rule: seg_reachable.induct) (blast intro: seg_inv_new seg_step_inv)+

lemma doubling_wraps: "(n :: usize) * 2 < n \<longleftrightarrow> 2 ^ 63 \<le> unat n"
proof (cases "2 ^ 63 \<le> unat n")
  case True
  then have "unat (n * 2) = unat n * 2 - 2 ^ 64"
    using unat_lt_2p64 [of n] by (simp add: unat_word_ariths mod_if)
  with True show ?thesis
    using unat_lt_2p64 [of n] by (simp add: word_less_nat_alt)
next
  case False
  then have "unat (n * 2) = unat n * 2"
    by (simp add: unat_mult_no_wrap)
  with False show ?thesis by (simp add: word_less_nat_alt)
qed

lemma limit_below_size:
  assumes "segment_limits b st n = Some (limit, g)" and "n \<noteq> 0"
  shows "limit < n \<longleftrightarrow>
    st = Stack \<and> 1048576 < unat n \<or> st = Data \<and> b = Release \<and> 2 ^ 63 \<le> unat n"
proof (cases st)
  case Data
  with assms(1) have m: "mul_u b n 2 = Some limit" by (auto simp: segment_limits_def)
  then have "limit = n * 2" by (simp add: mul_u_def split: if_splits)
  moreover have "b = Debug \<Longrightarrow> unat n < 2 ^ 63"
    using m by (auto simp: mul_u_def split: if_splits)
  ultimately show ?thesis
    using Data doubling_wraps [of n] by (cases b) auto
next
  case Heap
  with assms(1) have "limit = - 1" by (auto simp: segment_limits_def)
  with Heap show ?thesis by (simp add: word_order.not_eq_extremum)
qed (use assms in \<open>auto simp: segment_limits_def word_less_nat_alt\<close>)

text \<open>The offset computed for an address, with the base and size as numbers.\<close>

lemma contains_nat:
  assumes "unat (seg_base s) + unat (seg_size s) < 2 ^ 64"
  shows "contains b a s = Some
    (unat (seg_base s) \<le> unat a \<and> unat a < unat (seg_base s) + unat (seg_size s))"
  using assms
  by (simp add: contains_def add_u_exact word_le_nat_alt word_less_nat_alt unat_add_no_wrap)

lemma segment_offset_nat:
  assumes "unat (seg_base s) + unat (seg_size s) < 2 ^ 64"
  shows "segment_offset b a s = Some
    (if unat (seg_base s) \<le> unat a \<and> unat a < unat (seg_base s) + unat (seg_size s)
     then Some (a - seg_base s) else None)"
  by (simp add: segment_offset_def contains_nat [OF assms])

section \<open>Properties\<close>

text \<open>Through every sequence of operations a segment keeps its type, its growth limit and
  whether it may grow. Its size is the one it was created with or, only if it may grow, one
  within the limit: a code segment never changes its size. The creation size itself is within
  the limit except for a stack created larger than the fixed 1 MiB limit, and for a data segment
  of \<open>2 ^ 63\<close> bytes or more in a release build, where doubling the size wraps.\<close>

theorem segment_growth:
  assumes "seg_reachable b st n s"
  shows "segment_type s = st \<and> segment_limits b st n = Some (max_size s, growable s) \<and>
    (growable s \<longleftrightarrow> st \<noteq> Code) \<and> (seg_size s = n \<or> growable s \<and> seg_size s \<le> max_size s) \<and>
    (max_size s < n \<longleftrightarrow>
       st = Stack \<and> 1048576 < unat n \<or> st = Data \<and> b = Release \<and> 2 ^ 63 \<le> unat n)"
  using seg_reachable_inv [OF assms] limit_below_size [of b st n "max_size s" "growable s"]
  by (auto simp: seg_inv_def) (auto simp: segment_limits_def split: segment_type.splits)

theorem segment_growth_witness:
  "\<exists>s. segment_new Debug 0 0 Data 32 = Ok s \<and>
     fst (resize 64 s) = Ok () \<and> seg_size (snd (resize 64 s)) = 64 \<and>
     \<not> max_size (snd (resize 64 s)) < 32"
proof -
  obtain s where new: "segment_new Debug 0 0 Data 32 = Ok s" and "s =
      \<lparr>segment_type = Data, seg_base = 0, seg_size = 32, max_size = 64, growable = True,
       metadata = metadata_new 0 0\<rparr>"
    by (simp add: segment_new_def segment_limits_def mul_u_def)
  then have "resize 64 s = (Ok (), s\<lparr>seg_size := 64\<rparr>)" by (simp add: resize_def)
  moreover have "seg_reachable Debug Data 32 (snd (resize 64 s))"
    by (rule seg_reachable_step [OF seg_reachable_new [OF new] seg_resize [OF prod.collapse [symmetric]]])
  note segment_growth [OF this]
  ultimately show ?thesis using new by auto
qed

text \<open>The offset of an address is defined exactly for the addresses from the base up to, not
  including, base plus size, and adding the base gives the address back; distinct addresses of
  the segment have distinct offsets, all of them below the size. (In a debug build
  \<open>contains\<close> panics when base plus size overflows and the address is not below the base.)\<close>

theorem segment_address_roundtrip:
  assumes "unat (seg_base s) + unat (seg_size s) < 2 ^ 64"
  shows "(\<exists>r. segment_offset b a s = Some r \<and>
      (r \<noteq> None \<longleftrightarrow> contains b a s = Some True) \<and>
      (r \<noteq> None \<longleftrightarrow> unat (seg_base s) \<le> unat a \<and> unat a < unat (seg_base s) + unat (seg_size s)) \<and>
      (\<forall>off. r = Some off \<longrightarrow> off < seg_size s \<and> seg_base s + off = a)) \<and>
    (\<forall>off < seg_size s. segment_offset b (seg_base s + off) s = Some (Some off))"
proof -
  have inside: "segment_offset b (seg_base s + off) s = Some (Some off)" if "off < seg_size s" for off
  proof -
    have "unat (seg_base s + off) = unat (seg_base s) + unat off"
      using assms that by (intro unat_add_no_wrap) (simp add: word_less_nat_alt)
    with that show ?thesis
      by (simp add: segment_offset_nat [OF assms] word_less_nat_alt)
  qed
  note contains_nat [OF assms, of b a]
  moreover have "a - seg_base s < seg_size s"
    if "unat (seg_base s) \<le> unat a" "unat a < unat (seg_base s) + unat (seg_size s)"
    using that by (simp add: word_less_nat_alt unat_sub_le word_le_nat_alt)
  ultimately show ?thesis
    using inside by (simp add: segment_offset_nat [OF assms])
qed

theorem segment_address_roundtrip_witness:
  "segment_offset Debug 0x1004 (set_base 0x1000 \<lparr>segment_type = Heap, seg_base = 0, seg_size = 16,
     max_size = - 1, growable = True, metadata = metadata_new 0 0\<rparr>) = Some (Some 4)"
proof -
  let ?s = "set_base 0x1000 \<lparr>segment_type = Heap, seg_base = 0, seg_size = 16,
     max_size = - 1, growable = True, metadata = metadata_new 0 0\<rparr>"
  have "unat (seg_base ?s) + unat (seg_size ?s) < 2 ^ 64" by (simp add: set_base_def)
  from segment_address_roundtrip [OF this, of Debug 0]
  have "\<forall>off < seg_size ?s. segment_offset Debug (seg_base ?s + off) ?s = Some (Some off)" by blast
  from this [rule_format, of 4] show ?thesis by (simp add: set_base_def)
qed

end
