(* ===== verification/Garbage_Collector.thy ===== *)
theory Garbage_Collector
  imports Segments
begin

text \<open>
  Model of \<open>src/memory/gc.rs\<close>: a mark phase over segment indices, a sweep that removes unmarked
  segments from the vector, and the statistics. The specification of a collector is
  \<open>filter is_root_segment\<close>; the lemmas determine what the code's sweep computes instead, since
  it tests the mark of an index after removals have moved the segments to other indices.
\<close>

section \<open>Model\<close>

record gc_stats =
  collections :: usize
  freed_segments :: usize
  freed_pages :: usize
  total_time_ms :: u64

record garbage_collector =
  gc_threshold :: usize
  marked :: "u32 set"
  gc_stats :: gc_stats

definition gc_new :: "usize \<Rightarrow> garbage_collector" where
  "gc_new thr =
     \<lparr>gc_threshold = thr, marked = {},
      gc_stats = \<lparr>collections = 0, freed_segments = 0, freed_pages = 0, total_time_ms = 0\<rparr>\<rparr>"

definition is_root_segment :: "memory_segment \<Rightarrow> bool" where
  "is_root_segment s \<longleftrightarrow> is_shared s \<or> owner_id s \<noteq> None"

text \<open>\<open>mark\<close>: the loop over \<open>segments.iter().enumerate()\<close>, from index \<open>i\<close>.\<close>

fun mark_from :: "nat \<Rightarrow> memory_segment list \<Rightarrow> u32 set \<Rightarrow> u32 set" where
  "mark_from i [] m = m"
| "mark_from i (s # ss) m =
     mark_from (Suc i) ss (if is_root_segment s then insert (of_nat i) m else m)"

definition mark :: "memory_segment list \<Rightarrow> garbage_collector \<Rightarrow> garbage_collector" where
  "mark segments gc = gc\<lparr>marked := mark_from 0 segments (marked gc)\<rparr>"

text \<open>
  The \<open>while i < segments.len()\<close> loop of \<open>sweep\<close> with the number of segments freed so far. The
  code's two counters are always equal, and bounded by the number of segments, so they
  cannot overflow. The page table is an argument of \<open>sweep\<close> that its body does not use.
\<close>

function sweep_loop ::
  "u32 set \<Rightarrow> nat \<Rightarrow> nat \<Rightarrow> memory_segment list \<Rightarrow> memory_segment list \<times> nat" where
  "sweep_loop m i freed segments =
     (if i < length segments then
        if of_nat i \<notin> m then sweep_loop m i (freed + 1) (remove_at i segments)
        else sweep_loop m (i + 1) freed segments
      else (segments, freed))"
  by pat_completeness auto
termination
  by (relation "measure (\<lambda>(m, i, freed, segments). length segments - i)")
    (auto simp: remove_at_def)

declare sweep_loop.simps [simp del]

definition sweep ::
  "garbage_collector \<Rightarrow> memory_segment list \<Rightarrow> page_table \<Rightarrow>
   (usize \<times> usize) \<times> memory_segment list \<times> page_table" where
  "sweep gc segments t =
     (case sweep_loop (marked gc) 0 0 segments of
        (segments', freed) \<Rightarrow> ((of_nat freed, of_nat freed), segments', t))"

definition add_stats ::
  "build \<Rightarrow> usize \<Rightarrow> usize \<Rightarrow> u64 \<Rightarrow> (gc_stats, 'e, unit) comp" where
  "add_stats b freed_segs freed_pgs elapsed =
     andthen (reads (\<lambda>st. add_u b (collections st) 1)) (\<lambda>x.
     andthen (or_panic ArithmeticOverflow x) (\<lambda>n.
     andthen (updates (\<lambda>st. st\<lparr>collections := n\<rparr>)) (\<lambda>_.
     andthen (reads (\<lambda>st. add_u b (freed_segments st) freed_segs)) (\<lambda>x.
     andthen (or_panic ArithmeticOverflow x) (\<lambda>n.
     andthen (updates (\<lambda>st. st\<lparr>freed_segments := n\<rparr>)) (\<lambda>_.
     andthen (reads (\<lambda>st. add_u b (freed_pages st) freed_pgs)) (\<lambda>x.
     andthen (or_panic ArithmeticOverflow x) (\<lambda>n.
     andthen (updates (\<lambda>st. st\<lparr>freed_pages := n\<rparr>)) (\<lambda>_.
     andthen (reads (\<lambda>st. add_u b (total_time_ms st) elapsed)) (\<lambda>x.
     andthen (or_panic ArithmeticOverflow x) (\<lambda>n.
     updates (\<lambda>st. st\<lparr>total_time_ms := n\<rparr>))))))))))))"

text \<open>
  \<open>collect\<close> mutates the collector, the segments and the page table. \<open>elapsed\<close> is the time the
  two phases took, in milliseconds as \<open>u64\<close>. When a statistic overflows in a debug build, the
  panic leaves the marks in place.
\<close>

definition collect ::
  "build \<Rightarrow> u64 \<Rightarrow> (garbage_collector \<times> memory_segment list \<times> page_table, 'e, unit) comp" where
  "collect b elapsed = (\<lambda>(gc, segments, t).
     let gc1 = mark segments gc;
         ((freed_segs, freed_pgs), segments', t') = sweep gc1 segments t
     in case add_stats b freed_segs freed_pgs elapsed (gc_stats gc1) of
          (Ok _, st) \<Rightarrow> (Ok (), gc1\<lparr>gc_stats := st, marked := {}\<rparr>, segments', t')
        | (Err e, st) \<Rightarrow> (Err e, gc1\<lparr>gc_stats := st\<rparr>, segments', t')
        | (Panic p, st) \<Rightarrow> (Panic p, gc1\<lparr>gc_stats := st\<rparr>, segments', t'))"

definition get_threshold :: "garbage_collector \<Rightarrow> usize" where
  "get_threshold g = gc_threshold g"

definition get_gc_stats :: "garbage_collector \<Rightarrow> gc_stats" where
  "get_gc_stats g = gc_stats g"

definition total_freed_memory :: "build \<Rightarrow> gc_stats \<Rightarrow> usize option" where
  "total_freed_memory b st = add_u b (freed_segments st) (freed_pages st)"

section \<open>What the sweep keeps\<close>

lemma mark_from_iff:
  "x \<in> mark_from i ss m \<longleftrightarrow>
     x \<in> m \<or> (\<exists>k < length ss. is_root_segment (ss ! k) \<and> x = of_nat (i + k))"
proof (induction ss arbitrary: i m)
  case (Cons s ss)
  then show ?case by (auto simp: Ex_less_Suc2 add.assoc)
qed simp

lemma mark_exact:
  assumes "length ss < 2 ^ 32" and "i < length ss"
  shows "(of_nat i :: u32) \<in> mark_from 0 ss {} \<longleftrightarrow> is_root_segment (ss ! i)"
proof -
  have "k = i" if "(of_nat i :: u32) = of_nat k" "k < length ss" for k
  proof -
    from that(1) have "unat (of_nat i :: u32) = unat (of_nat k :: u32)" by simp
    with assms that(2) show ?thesis by (simp add: unsigned_of_nat take_bit_nat_eq_self)
  qed
  with assms(2) show ?thesis by (auto simp: mark_from_iff)
qed

text \<open>Once the index stands at an unmarked position, every later segment moves there and goes.\<close>

lemma sweep_loop_drops:
  "of_nat i \<notin> m \<Longrightarrow> i \<le> length ss \<Longrightarrow>
   sweep_loop m i freed ss = (take i ss, freed + (length ss - i))"
proof (induction "length ss - i" arbitrary: ss freed)
  case 0
  then show ?case by (subst sweep_loop.simps) simp
next
  case (Suc n)
  then have "i < length ss" by simp
  with Suc.hyps(2) have "n = length (remove_at i ss) - i" "i \<le> length (remove_at i ss)"
    "length (remove_at i ss) = length ss - 1" "take i (remove_at i ss) = take i ss"
    by (auto simp: remove_at_def)
  with Suc.hyps(1) [of "remove_at i ss" "freed + 1"] Suc.prems \<open>i < length ss\<close> show ?case
    by (subst sweep_loop.simps) simp
qed

lemma sweep_loop_prefix:
  assumes "\<And>j. j < length ss \<Longrightarrow> of_nat j \<in> m \<longleftrightarrow> P (ss ! j)"
    and "i \<le> length (takeWhile P ss)"
  shows "sweep_loop m i freed ss = (takeWhile P ss, freed + (length ss - length (takeWhile P ss)))"
  using assms(2)
proof (induction "length (takeWhile P ss) - i" arbitrary: i)
  case 0
  then have i: "i = length (takeWhile P ss)" by simp
  have tw: "take (length (takeWhile P ss)) ss = takeWhile P ss"
    by (metis takeWhile_eq_take)
  show ?case
  proof (cases "i < length ss")
    case True
    with i have "\<not> P (ss ! i)" by (simp add: nth_length_takeWhile)
    with True assms(1) have "of_nat i \<notin> m" by simp
    from sweep_loop_drops [OF this, of ss freed] True i tw show ?thesis by simp
  next
    case False
    with i tw show ?thesis by (subst sweep_loop.simps) simp
  qed
next
  case (Suc n)
  then have "i < length (takeWhile P ss)" by simp
  moreover from this have "i < length ss" using length_takeWhile_le [of P ss] by linarith
  moreover have "P (ss ! i)"
    using calculation(1) by (metis nth_mem set_takeWhileD takeWhile_nth)
  ultimately show ?case
    using Suc.hyps assms(1) by (subst sweep_loop.simps) simp
qed

text \<open>The sweep of the whole collection in closed form.\<close>

lemma sweep_marked:
  assumes "length ss < 2 ^ 32" "marked gc = {}"
  shows "sweep (mark ss gc) ss t =
    (let kept = takeWhile is_root_segment ss; freed = of_nat (length ss - length kept)
     in ((freed, freed), kept, t))"
  using sweep_loop_prefix [of ss "mark_from 0 ss {}" is_root_segment 0 0] mark_exact [OF assms(1)]
  by (simp add: sweep_def mark_def assms(2) Let_def)

lemma takeWhile_eq_filter_iff:
  "takeWhile P xs = filter P xs \<longleftrightarrow> (\<forall>x \<in> set (dropWhile P xs). \<not> P x)"
proof -
  have "filter P (takeWhile P xs) = takeWhile P xs"
    by (auto simp: filter_id_conv dest: set_takeWhileD)
  then have "filter P (takeWhile P xs @ dropWhile P xs) =
      takeWhile P xs @ filter P (dropWhile P xs)"
    by (simp only: filter_append)
  then have "filter P xs = takeWhile P xs @ filter P (dropWhile P xs)"
    by (simp only: takeWhile_dropWhile_id)
  moreover have "filter P (dropWhile P xs) = [] \<longleftrightarrow> (\<forall>x \<in> set (dropWhile P xs). \<not> P x)"
    by (simp add: filter_empty_conv)
  ultimately show ?thesis by (metis append_self_conv)
qed

lemma collect_effect:
  assumes "length ss < 2 ^ 32" "marked gc = {}"
  shows "wp (collect b el :: (_, 'e, unit) comp)
    (\<lambda>_ (gc', ss', t'). ss' = takeWhile is_root_segment ss \<and> t' = t \<and> marked gc' = {} \<and>
       gc_threshold gc' = gc_threshold gc \<and>
       gc_stats gc' = (let st = gc_stats gc; n = of_nat (length ss - length ss') in
         \<lparr>collections = collections st + 1, freed_segments = freed_segments st + n,
          freed_pages = freed_pages st + n, total_time_ms = total_time_ms st + el\<rparr>))
    (\<lambda>_ _. False)
    (\<lambda>p (gc', ss', t'). p = ArithmeticOverflow \<and> b = Debug \<and>
       ss' = takeWhile is_root_segment ss \<and> t' = t)
    (gc, ss, t)"
proof -
  let ?n = "of_nat (length ss - length (takeWhile is_root_segment ss)) :: usize"
  have stats: "wp (add_stats b ?n ?n el :: (_, 'e, unit) comp)
    (\<lambda>_ st. st = (let st = gc_stats gc in
       \<lparr>collections = collections st + 1, freed_segments = freed_segments st + ?n,
        freed_pages = freed_pages st + ?n, total_time_ms = total_time_ms st + el\<rparr>))
    (\<lambda>_ _. False) (\<lambda>p _. p = ArithmeticOverflow \<and> b = Debug) (gc_stats gc)"
    by (cases "gc_stats gc")
      (auto simp: add_stats_def wp_simps add_u_def Let_def split: option.split if_splits)
  have kept: "gc_stats (mark ss gc) = gc_stats gc" "gc_threshold (mark ss gc) = gc_threshold gc"
    by (simp_all add: mark_def)
  obtain r :: "('e, unit) outcome" and st where run: "add_stats b ?n ?n el (gc_stats gc) = (r, st)" by fastforce
  show ?thesis
  proof (cases r)
    case (Ok u)
    with wp_Ok [OF stats run [unfolded Ok]] run kept show ?thesis
      by (simp add: wp_def collect_def Let_def sweep_marked [OF assms])
  next
    case (Err e)
    with wp_Err [OF stats] run show ?thesis by simp
  next
    case (Panic p)
    with wp_Panic [OF stats run [unfolded Panic]] run kept show ?thesis
      by (simp add: wp_def collect_def Let_def sweep_marked [OF assms])
  qed
qed

section \<open>Properties\<close>

text \<open>C30: A collection keeps exactly the segments before the first one that is neither shared nor
  owned, whatever follows: everything it keeps is a root, but a root behind the first non-root
  is freed too, so the survivors are the roots precisely when no root follows a non-root. The
  page table is untouched although the freed pages are counted. The only other outcome than a
  normal return is the overflow of a statistic in a debug build, after the same removals.\<close>

theorem gc_keeps_root_prefix:
  assumes "length ss < 2 ^ 32" and "marked gc = {}"
  shows "\<exists>r gc'. collect b el (gc, ss, t) = (r, gc', takeWhile is_root_segment ss, t) \<and>
    (r = Panic ArithmeticOverflow \<and> b = Debug \<or> r = Ok () \<and> marked gc' = {} \<and>
       freed_segments (gc_stats gc') = freed_segments (gc_stats gc) +
         of_nat (length ss - length (takeWhile is_root_segment ss)) \<and>
       freed_pages (gc_stats gc') = freed_pages (gc_stats gc) +
         of_nat (length ss - length (takeWhile is_root_segment ss))) \<and>
    (takeWhile is_root_segment ss = filter is_root_segment ss \<longleftrightarrow>
       (\<forall>s \<in> set (dropWhile is_root_segment ss). \<not> is_root_segment s))"
  using collect_effect [OF assms, of b el t] takeWhile_eq_filter_iff [of is_root_segment ss]
  by (auto simp: wp_def Let_def split: prod.splits outcome.splits)

definition plain_segment :: memory_segment where
  "plain_segment =
     \<lparr>segment_type = Heap, seg_base = 0, seg_size = 8, max_size = - 1, growable = True,
      metadata = metadata_new 0 0\<rparr>"

theorem gc_keeps_root_prefix_witness:
  "\<exists>gc'. collect Release 0 (gc_new 0, [plain_segment, set_shared True plain_segment], pt_new 4) =
     (Ok (), gc', [], pt_new 4) \<and> is_root_segment (set_shared True plain_segment)"
  using gc_keeps_root_prefix
    [of "[plain_segment, set_shared True plain_segment]" "gc_new 0" Release 0 "pt_new 4"]
  by (simp add: gc_new_def is_root_segment_def is_shared_def owner_id_def set_shared_def
      plain_segment_def metadata_new_def) blast

end
