(* ===== verification/Lru_Cache.thy ===== *)
theory Lru_Cache
  imports Rust_Prelude
begin

text \<open>
  Model of \<open>LRUCache\<close> in \<open>src/memory/mod.rs\<close>: a hash map bounded by a capacity and a deque of its
  keys with the most recently used one in front. Its abstraction is the list of its entries in
  order of use (\<open>entries\<close>), on which each operation has a one-line specification, as long as no present
  key is inserted again. The locale \<open>cache\<close> is what the memory manager relies on even then: a cache
  never invents entries, so that it stays coherent with a backing store under the manager's discipline.
\<close>

section \<open>Model\<close>

record ('k, 'v) lru_cache =
  capacity :: usize
  cached :: "'k \<rightharpoonup> 'v"
  lru :: "'k list"

definition lru_new :: "usize \<Rightarrow> ('k, 'v) lru_cache" where
  "lru_new cap = \<lparr>capacity = cap, cached = Map.empty, lru = []\<rparr>"

text \<open>\<open>lru.iter().position(|x| x == key)\<close>, and the removal at that position.\<close>

fun position :: "'k \<Rightarrow> 'k list \<Rightarrow> nat option" where
  "position k [] = None"
| "position k (x # xs) = (if x = k then Some 0 else map_option Suc (position k xs))"

definition lru_get :: "'k \<Rightarrow> ('k, 'v) lru_cache \<Rightarrow> 'v option \<times> ('k, 'v) lru_cache" where
  "lru_get k c =
     (case position k (lru c) of
        Some pos \<Rightarrow> (cached c k, c\<lparr>lru := k # remove_at pos (lru c)\<rparr>)
      | None \<Rightarrow> (None, c))"

definition evict :: "('k, 'v) lru_cache \<Rightarrow> ('k, 'v) lru_cache" where
  "evict c =
     (if unat (capacity c) \<le> map_len (cached c)
      then case vec_pop (lru c) of
          Some (k, rest) \<Rightarrow> c\<lparr>lru := rest, cached := (cached c)(k := None)\<rparr>
        | None \<Rightarrow> c
      else c)"

definition lru_insert :: "'k \<Rightarrow> 'v \<Rightarrow> ('k, 'v) lru_cache \<Rightarrow> ('k, 'v) lru_cache" where
  "lru_insert k v c =
     (let c' = evict c in c'\<lparr>cached := (cached c')(k \<mapsto> v), lru := k # lru c'\<rparr>)"

definition lru_remove :: "'k \<Rightarrow> ('k, 'v) lru_cache \<Rightarrow> ('k, 'v) lru_cache" where
  "lru_remove k c =
     (let c' = c\<lparr>cached := (cached c)(k := None)\<rparr>
      in case position k (lru c') of
          Some pos \<Rightarrow> c'\<lparr>lru := remove_at pos (lru c')\<rparr>
        | None \<Rightarrow> c')"

section \<open>The invariant and the abstraction\<close>

definition lru_inv :: "('k, 'v) lru_cache \<Rightarrow> bool" where
  "lru_inv c \<longleftrightarrow> distinct (lru c) \<and> set (lru c) = dom (cached c) \<and>
     length (lru c) \<le> max 1 (unat (capacity c))"

text \<open>What remains when present keys are inserted too: every entry has its key in the queue.\<close>

definition queue_covers :: "('k, 'v) lru_cache \<Rightarrow> bool" where
  "queue_covers c \<longleftrightarrow> dom (cached c) \<subseteq> set (lru c)"

definition entries :: "('k, 'v) lru_cache \<Rightarrow> ('k \<times> 'v) list" where
  "entries c = map (\<lambda>k. (k, the (cached c k))) (lru c)"

lemma position_None: "position k xs = None \<longleftrightarrow> k \<notin> set xs"
  by (induction xs) auto

lemma remove_position:
  "position k xs = Some i \<Longrightarrow> remove_at i xs = remove1 k xs"
proof (induction xs arbitrary: i)
  case (Cons x xs)
  then show ?case by (auto simp: remove_at_def split: if_splits)
qed simp

lemma position_cases:
  obtains "k \<notin> set xs" "position k xs = None"
  | i where "k \<in> set xs" "position k xs = Some i" "remove_at i xs = remove1 k xs"
  by (cases "position k xs") (auto simp: position_None remove_position, metis option.distinct(1) position_None)

lemma lru_inv_new: "lru_inv (lru_new cap)"
  by (simp add: lru_inv_def lru_new_def)

lemma lru_len: "lru_inv c \<Longrightarrow> map_len (cached c) = length (lru c)"
  by (metis distinct_card lru_inv_def map_len_def)

lemma lru_get_eq:
  assumes "lru_inv c"
  shows "lru_get k c =
    (cached c k, if k \<in> dom (cached c) then c\<lparr>lru := k # remove1 k (lru c)\<rparr> else c)"
proof (rule position_cases [of k "lru c"])
  assume "k \<notin> set (lru c)" "position k (lru c) = None"
  with assms show ?thesis by (auto simp: lru_get_def lru_inv_def domIff)
qed (use assms in \<open>auto simp: lru_get_def lru_inv_def\<close>)

lemma lru_remove_eq:
  "lru_remove k c = c\<lparr>cached := (cached c)(k := None), lru := remove1 k (lru c)\<rparr>"
  by (rule position_cases [of k "lru c"]) (simp_all add: lru_remove_def Let_def remove1_idem)

lemma evict_eq:
  assumes "lru_inv c"
  shows "evict c =
    (if length (lru c) < unat (capacity c) \<or> lru c = [] then c
     else c\<lparr>lru := butlast (lru c), cached := (cached c)(last (lru c) := None)\<rparr>)"
  using lru_len [OF assms] by (auto simp: evict_def vec_pop_def not_less)

lemma evict_inv:
  assumes "lru_inv c"
  shows "lru_inv (evict c) \<and> length (lru (evict c)) < max 1 (unat (capacity c)) \<and>
    capacity (evict c) = capacity c"
proof (cases "length (lru c) < unat (capacity c) \<or> lru c = []")
  case True
  with assms show ?thesis by (auto simp: evict_eq)
next
  case False
  then obtain k rest where lru: "lru c = rest @ [k]"
    by (metis rev_exhaust)
  with assms False show ?thesis
    by (auto simp: evict_eq lru_inv_def)
qed

lemma lru_get_inv: "lru_inv c \<Longrightarrow> lru_inv (snd (lru_get k c))"
  by (auto simp: lru_get_eq) (auto simp: lru_inv_def length_remove1 Suc_pred' dest: length_pos_if_in_set)

lemma lru_insert_inv:
  assumes "lru_inv c" and "k \<notin> dom (cached c)"
  shows "lru_inv (lru_insert k v c)"
proof -
  have "k \<notin> dom (cached (evict c))"
    using assms by (auto simp: evict_eq)
  with evict_inv [OF assms(1)] show ?thesis
    by (auto simp: lru_insert_def Let_def lru_inv_def)
qed

lemma lru_remove_inv: "lru_inv c \<Longrightarrow> lru_inv (lru_remove k c)"
  by (auto simp: lru_remove_eq lru_inv_def length_remove1 split: if_splits)

lemma lru_inv_covers: "lru_inv c \<Longrightarrow> queue_covers c"
  by (simp add: lru_inv_def queue_covers_def)

lemma lru_get_covered:
  assumes "queue_covers c"
  shows "lru_get k c =
    (cached c k, if k \<in> set (lru c) then c\<lparr>lru := k # remove1 k (lru c)\<rparr> else c)"
proof (rule position_cases [of k "lru c"])
  assume "k \<notin> set (lru c)" "position k (lru c) = None"
  moreover from this assms have "cached c k = None" by (auto simp: queue_covers_def)
  ultimately show ?thesis by (simp add: lru_get_def)
qed (use assms in \<open>auto simp: lru_get_def\<close>)

lemma set_remove1_other: "j \<in> set xs \<Longrightarrow> j \<noteq> k \<Longrightarrow> j \<in> set (remove1 k xs)"
  by (induction xs) auto

lemma lru_get_covers: "queue_covers c \<Longrightarrow> queue_covers (snd (lru_get k c))"
  by (auto simp: lru_get_covered) (auto simp: queue_covers_def intro: set_remove1_other)

lemma lru_remove_covers: "queue_covers c \<Longrightarrow> queue_covers (lru_remove k c)"
  by (auto simp: lru_remove_eq queue_covers_def intro: set_remove1_other split: if_splits)

lemma lru_insert_covers: "queue_covers c \<Longrightarrow> queue_covers (lru_insert k v c)"
proof -
  assume c: "queue_covers c"
  have "queue_covers (evict c)"
  proof (cases "lru c" rule: rev_cases)
    case Nil
    with c show ?thesis by (simp add: evict_def vec_pop_def)
  next
    case (snoc ks j)
    with c show ?thesis by (auto simp: evict_def vec_pop_def queue_covers_def)
  qed
  then show ?thesis by (auto simp: lru_insert_def Let_def queue_covers_def)
qed

text \<open>A key that is inserted while it is present is in the queue twice, unless it was the one to evict.\<close>

lemma lru_insert_eq:
  assumes "lru_inv c"
  shows "lru_insert k v c =
    (if length (lru c) < unat (capacity c) \<or> lru c = []
     then c\<lparr>cached := (cached c)(k \<mapsto> v), lru := k # lru c\<rparr>
     else c\<lparr>cached := (cached c)(last (lru c) := None, k \<mapsto> v), lru := k # butlast (lru c)\<rparr>)"
  using assms by (simp add: lru_insert_def evict_eq Let_def)

lemma lru_insert_inv_iff:
  assumes "lru_inv c"
  shows "lru_inv (lru_insert k v c) \<longleftrightarrow>
    k \<notin> dom (cached c) \<or> unat (capacity c) \<le> length (lru c) \<and> k = last (lru c)"
proof (cases "k \<in> dom (cached c)")
  case False
  with lru_insert_inv [OF assms] show ?thesis by simp
next
  case True
  then have k: "k \<in> set (lru c)" "lru c \<noteq> []" using assms by (auto simp: lru_inv_def)
  then obtain ks j where lru: "lru c = ks @ [j]" by (metis rev_exhaust)
  show ?thesis
  proof (cases "length (lru c) < unat (capacity c)")
    case True
    with k assms show ?thesis by (auto simp: lru_insert_eq lru_inv_def)
  next
    case False
    with assms k lru show ?thesis
      by (auto simp: lru_insert_eq lru_inv_def)
  qed
qed

section \<open>Refinement of a list in order of use\<close>

definition without :: "'k \<Rightarrow> ('k \<times> 'v) list \<Rightarrow> ('k \<times> 'v) list" where
  "without k es = filter (\<lambda>e. fst e \<noteq> k) es"

lemma map_of_entries: "lru_inv c \<Longrightarrow> map_of (entries c) = cached c"
proof
  fix k assume c: "lru_inv c"
  have "map_of (map (\<lambda>k. (k, the (cached c k))) ks) k =
      (if k \<in> set ks then Some (the (cached c k)) else None)" for ks
    by (induction ks) auto
  with c show "map_of (entries c) k = cached c k"
    by (auto simp: entries_def lru_inv_def domIff)
qed

lemma without_entries:
  "distinct ks \<Longrightarrow> without k (map (\<lambda>k. (k, f k)) ks) = map (\<lambda>k. (k, f k)) (remove1 k ks)"
  by (induction ks) (auto simp: without_def filter_id_conv remove1_idem)

lemma entries_get:
  assumes "lru_inv c" and "cached c k = Some v"
  shows "entries (snd (lru_get k c)) = (k, v) # without k (entries c)"
  using assms by (simp add: lru_get_eq [OF assms(1)] domI entries_def without_entries lru_inv_def)

lemma lru_get_fst: "lru_inv c \<Longrightarrow> fst (lru_get k c) = cached c k"
  by (simp add: lru_get_eq)

lemma entries_miss: "lru_inv c \<Longrightarrow> cached c k = None \<Longrightarrow> entries (snd (lru_get k c)) = entries c"
  by (simp add: lru_get_eq domIff)

lemma entries_remove:
  assumes "lru_inv c"
  shows "entries (lru_remove k c) = without k (entries c)"
proof -
  have "map (\<lambda>j. (j, the (((cached c)(k := None)) j))) (remove1 k (lru c)) =
      map (\<lambda>j. (j, the (cached c j))) (remove1 k (lru c))"
    using assms by (auto simp: lru_inv_def)
  with assms show ?thesis
    by (simp add: lru_remove_eq entries_def without_entries lru_inv_def)
qed

lemma entries_evict:
  assumes "lru_inv c"
  shows "entries (evict c) =
    (if length (entries c) < unat (capacity c) then entries c else butlast (entries c))"
proof (cases "lru c = []")
  case True
  with assms show ?thesis by (auto simp: evict_eq entries_def)
next
  case False
  then obtain k rest where lru: "lru c = rest @ [k]" by (metis rev_exhaust)
  with assms have "k \<notin> set rest" by (auto simp: lru_inv_def)
  then have "map (\<lambda>j. (j, the (((cached c)(k := None)) j))) rest =
      map (\<lambda>j. (j, the (cached c j))) rest" by auto
  with assms lru show ?thesis by (simp add: evict_eq entries_def butlast_append)
qed

lemma entries_insert:
  assumes "lru_inv c" and "k \<notin> dom (cached c)"
  shows "entries (lru_insert k v c) = (k, v) # entries (evict c)"
proof -
  have "k \<notin> set (lru (evict c))" using assms evict_inv [OF assms(1)]
    by (auto simp: lru_inv_def evict_eq [OF assms(1)] split: if_splits dest: in_set_butlastD)
  then show ?thesis by (auto simp: lru_insert_def Let_def entries_def)
qed

lemma count_distinct: "distinct xs \<Longrightarrow> x \<in> set xs \<Longrightarrow> count_list xs x = 1"
  by (induction xs) (auto simp: count_list_0_iff)

lemma entries_last:
  assumes "lru c \<noteq> []"
  shows "fst (last (entries c)) = last (lru c)"
  using assms by (simp add: entries_def last_map)

lemma entries_insert_last:
  assumes "lru_inv c" and "lru c = ks @ [k]" and "unat (capacity c) \<le> length (lru c)"
  shows "entries (lru_insert k v c) = (k, v) # butlast (entries c)"
proof -
  have "lru_insert k v c = c\<lparr>cached := (cached c)(k \<mapsto> v), lru := k # ks\<rparr>"
    using assms(2,3) by (simp add: lru_insert_eq [OF assms(1)])
  moreover have "k \<notin> set ks" using assms(1,2) by (simp add: lru_inv_def)
  ultimately show ?thesis using assms(2) by (auto simp: entries_def butlast_append)
qed

lemma insert_present:
  assumes "lru_inv c" and "k \<in> set (lru c)" and "length (lru c) < unat (capacity c) \<or> k \<noteq> last (lru c)"
  shows "\<not> lru_inv (lru_insert k v c) \<and> count_list (lru (lru_insert k v c)) k = 2 \<and>
    cached (lru_insert k v c) =
      (if length (lru c) < unat (capacity c) then cached c else (cached c)(last (lru c) := None))(k \<mapsto> v)"
proof -
  obtain ks j where lru: "lru c = ks @ [j]" using assms(2) by (metis empty_iff empty_set rev_exhaust)
  have dist: "distinct (lru c)" using assms(1) by (simp add: lru_inv_def)
  have "k \<in> set ks" if "\<not> length (lru c) < unat (capacity c)" using assms(2,3) lru that by auto
  moreover have "k \<in> dom (cached c)" using assms(1,2) by (simp add: lru_inv_def)
  then have "\<not> lru_inv (lru_insert k v c)"
    using assms(3) lru_insert_inv_iff [OF assms(1), of k v] by auto
  ultimately show ?thesis
    using assms(2) lru dist count_distinct [OF dist assms(2)] count_distinct [of ks k]
    by (auto simp: lru_insert_eq [OF assms(1)])
qed

lemma insert_cases:
  assumes "lru_inv c"
  shows "if map_of (entries c) k = None \<or> unat (capacity c) \<le> length (entries c) \<and> k = fst (last (entries c))
     then entries (lru_insert k v c) =
         (k, v) # (if length (entries c) < unat (capacity c) then entries c
                   else butlast (entries c)) \<and>
       lru_inv (lru_insert k v c)
     else \<not> lru_inv (lru_insert k v c) \<and> count_list (lru (lru_insert k v c)) k = 2 \<and>
       cached (lru_insert k v c) =
         (if length (entries c) < unat (capacity c) then cached c
          else (cached c)(fst (last (entries c)) := None))(k \<mapsto> v)"
proof -
  have len: "length (entries c) = length (lru c)" by (simp add: entries_def)
  have found: "map_of (entries c) k = None \<longleftrightarrow> k \<notin> set (lru c)" "k \<in> dom (cached c) \<longleftrightarrow> k \<in> set (lru c)"
    using assms by (auto simp: map_of_entries [OF assms] lru_inv_def domIff)
  show ?thesis
  proof (cases "k \<in> set (lru c)")
    case False
    with assms found show ?thesis
      by (simp add: entries_insert entries_evict lru_insert_inv)
  next
    case True
    then have ne: "lru c \<noteq> []" by auto
    show ?thesis
    proof (cases "unat (capacity c) \<le> length (lru c) \<and> k = last (lru c)")
      case full: True
      then have "lru c = butlast (lru c) @ [k]" using ne by simp
      from entries_insert_last [OF assms this] full show ?thesis
        by (simp add: len entries_last [OF ne] lru_insert_inv_iff [OF assms])
    next
      case False
      with insert_present [OF assms True, of v] True show ?thesis
        by (auto simp: len entries_last [OF ne] found not_less)
    qed
  qed
qed

section \<open>The interface of the cache\<close>

text \<open>
  \<open>contents\<close> is what the cache would answer. Looking up may reorder the entries but changes no
  answer; storing may forget other keys; dropping forgets one key.
\<close>

locale cache =
  fixes invar :: "'c \<Rightarrow> bool"
    and contents :: "'c \<Rightarrow> 'k \<Rightarrow> 'v option"
    and get :: "'k \<Rightarrow> 'c \<Rightarrow> 'v option \<times> 'c"
    and store :: "'k \<Rightarrow> 'v \<Rightarrow> 'c \<Rightarrow> 'c"
    and forget :: "'k \<Rightarrow> 'c \<Rightarrow> 'c"
  assumes get_spec: "invar c \<Longrightarrow> get k c = (r, c') \<Longrightarrow>
      invar c' \<and> r = contents c k \<and> contents c' = contents c"
    and store_spec: "invar c \<Longrightarrow>
      invar (store k v c) \<and> contents (store k v c) k = Some v \<and>
      (\<forall>j. j \<noteq> k \<longrightarrow> contents (store k v c) j \<in> {None, contents c j})"
    and forget_spec: "invar c \<Longrightarrow>
      invar (forget k c) \<and> contents (forget k c) = (contents c)(k := None)"
begin

text \<open>A cache is coherent when every answer satisfies a relation with its key.\<close>

definition coherent :: "('k \<Rightarrow> 'v \<Rightarrow> bool) \<Rightarrow> 'c \<Rightarrow> bool" where
  "coherent R c \<longleftrightarrow> invar c \<and> (\<forall>k v. contents c k = Some v \<longrightarrow> R k v)"

lemma coherent_get:
  assumes "coherent R c" and "get k c = (r, c')"
  shows "coherent R c' \<and> (\<forall>v. r = Some v \<longrightarrow> R k v)"
  using assms get_spec [of c k r c'] by (auto simp: coherent_def)

lemma coherent_store:
  assumes "coherent R c" and "R k v"
  shows "coherent R (store k v c)"
  unfolding coherent_def
proof (intro conjI allI impI)
  from assms store_spec show "invar (store k v c)" by (simp add: coherent_def)
  fix j w assume w: "contents (store k v c) j = Some w"
  show "R j w"
  proof (cases "j = k")
    case True
    with w assms store_spec [of c k v] show ?thesis by (simp add: coherent_def)
  next
    case False
    with assms w store_spec [of c k v] have "contents c j = Some w" by (auto simp: coherent_def)
    with assms(1) show ?thesis by (simp add: coherent_def)
  qed
qed

lemma coherent_forget:
  assumes "coherent R c" and "\<And>j v. j \<noteq> k \<Longrightarrow> R j v \<Longrightarrow> R' j v"
  shows "coherent R' (forget k c)"
  using assms forget_spec [of c k] by (auto simp: coherent_def split: if_splits)

end

interpretation lru: cache queue_covers cached lru_get lru_insert lru_remove
proof
  fix c :: "('k, 'v) lru_cache" and k r c'
  assume c: "queue_covers c" "lru_get k c = (r, c')"
  then show "queue_covers c' \<and> r = cached c k \<and> cached c' = cached c"
    using lru_get_covers [of c k] by (auto simp: lru_get_covered split: if_splits)
next
  fix c :: "('k, 'v) lru_cache" and k v
  assume "queue_covers c"
  then have "queue_covers (lru_insert k v c)" by (rule lru_insert_covers)
  then show "queue_covers (lru_insert k v c) \<and> cached (lru_insert k v c) k = Some v \<and>
      (\<forall>j. j \<noteq> k \<longrightarrow> cached (lru_insert k v c) j \<in> {None, cached c j})"
    by (auto simp: lru_insert_def Let_def evict_def split: option.split)
next
  fix c :: "('k, 'v) lru_cache" and k
  assume "queue_covers c"
  then show "queue_covers (lru_remove k c) \<and> cached (lru_remove k c) = (cached c)(k := None)"
    by (simp add: lru_remove_covers) (simp add: lru_remove_eq)
qed

section \<open>Properties\<close>

text \<open>C17: On a well-formed cache the operations implement a bounded list of entries in order of
  use. A hit returns the entry's value and moves it to the front, a miss changes nothing.
  Inserting puts the key in front and, when the list has reached the capacity, first drops the least
  recently used entry. Removing drops the key. The list never exceeds the capacity, or one entry when
  the capacity is zero. This holds for the insertion of an absent key, and of a key that is the entry
  to drop. Inserting any other present key leaves the recency list: the key is in the queue twice, and a
  full cache has dropped the least recently used entry although no room was needed.\<close>

theorem lru_refines_recency_list:
  assumes "lru_inv c"
  shows "fst (lru_get k c) = map_of (entries c) k \<and>
    entries (snd (lru_get k c)) =
      (case map_of (entries c) k of
         None \<Rightarrow> entries c | Some v \<Rightarrow> (k, v) # without k (entries c)) \<and>
    lru_inv (snd (lru_get k c)) \<and>
    (if map_of (entries c) k = None \<or> unat (capacity c) \<le> length (entries c) \<and> k = fst (last (entries c))
     then entries (lru_insert k v c) =
         (k, v) # (if length (entries c) < unat (capacity c) then entries c
                   else butlast (entries c)) \<and>
       lru_inv (lru_insert k v c)
     else \<not> lru_inv (lru_insert k v c) \<and> count_list (lru (lru_insert k v c)) k = 2 \<and>
       cached (lru_insert k v c) =
         (if length (entries c) < unat (capacity c) then cached c
          else (cached c)(fst (last (entries c)) := None))(k \<mapsto> v)) \<and>
    entries (lru_remove k c) = without k (entries c) \<and> lru_inv (lru_remove k c) \<and>
    length (entries c) \<le> max 1 (unat (capacity c))"
proof -
  have "length (entries c) \<le> max 1 (unat (capacity c))"
    using assms by (simp add: lru_inv_def entries_def)
  moreover have "fst (lru_get k c) = map_of (entries c) k"
    "entries (snd (lru_get k c)) = (case map_of (entries c) k of
       None \<Rightarrow> entries c | Some v \<Rightarrow> (k, v) # without k (entries c))"
    using assms by (simp_all add: map_of_entries entries_get entries_miss lru_get_fst split: option.split)
  ultimately show ?thesis
    using insert_cases [OF assms, of k v] assms by (simp add: entries_remove lru_get_inv lru_remove_inv)
qed

theorem lru_refines_recency_list_witness:
  "let c = \<lparr>capacity = 2, cached = [1 \<mapsto> ''a'', 2 \<mapsto> ''b''], lru = [2, 1 :: nat]\<rparr>
   in entries (snd (lru_get 1 c)) = [(1, ''a''), (2, ''b'')] \<and>
      entries (lru_insert 3 ''c'' c) = [(3, ''c''), (2, ''b'')] \<and>
      lru (lru_insert 2 ''d'' c) = [2, 2]"
proof -
  let ?c = "\<lparr>capacity = 2, cached = [1 \<mapsto> ''a'', 2 \<mapsto> ''b''], lru = [2, 1 :: nat]\<rparr>"
  have "lru_inv ?c" by (auto simp: lru_inv_def)
  from lru_refines_recency_list [OF this, of 1] lru_refines_recency_list [OF this, of 3 "''c''"]
    lru_refines_recency_list [OF this, of 2 "''d''"]
  show ?thesis by (simp add: entries_def without_def lru_insert_def evict_def vec_pop_def map_len_def)
qed

end
