(* ===== verification/Blocking.thy ===== *)
theory Blocking
  imports Rust_Prelude
begin

text \<open>
  Calls that may wait for ever. A task that asks an asynchronous lock for a second guard while it
  holds one that excludes it is never woken: the lock is not reentrant. \<open>None\<close> is the call that
  never returns; guards of other tasks are given back and need no model.
\<close>

type_synonym ('s, 'e, 'a) blocking = "'s \<Rightarrow> (('e, 'a) outcome \<times> 's) option"

definition runs :: "('s, 'e, 'a) comp \<Rightarrow> ('s, 'e, 'a) blocking" where
  "runs m s = Some (m s)"

definition never :: "('s, 'e, 'a) blocking" where
  "never s = None"

definition chain ::
  "('s, 'e, 'a) blocking \<Rightarrow> ('a \<Rightarrow> ('s, 'e, 'b) blocking) \<Rightarrow> ('s, 'e, 'b) blocking" where
  "chain m f s =
     (case m s of
        None \<Rightarrow> None
      | Some (Ok a, s') \<Rightarrow> f a s'
      | Some (Err e, s') \<Rightarrow> Some (Err e, s')
      | Some (Panic p, s') \<Rightarrow> Some (Panic p, s'))"

text \<open>The guard on the lock that the calling code holds while it calls.\<close>

datatype guard = NoGuard | ReadGuard | WriteGuard

text \<open>Guards are ordered by what they exclude.\<close>

fun strength :: "guard \<Rightarrow> nat" where
  "strength NoGuard = 0"
| "strength ReadGuard = 1"
| "strength WriteGuard = 2"

lemma strength_inject: "strength g = strength h \<longleftrightarrow> g = h"
  by (cases g; cases h) simp_all

instantiation guard :: linorder
begin

definition less_eq_guard :: "guard \<Rightarrow> guard \<Rightarrow> bool" where
  "less_eq_guard g h \<longleftrightarrow> strength g \<le> strength h"

definition less_guard :: "guard \<Rightarrow> guard \<Rightarrow> bool" where
  "less_guard g h \<longleftrightarrow> strength g < strength h"

instance
  by standard (auto simp: less_eq_guard_def less_guard_def strength_inject)

end

lemma guard_extremes [simp]: "WriteGuard \<le> g \<longleftrightarrow> g = WriteGuard" "g \<le> NoGuard \<longleftrightarrow> g = NoGuard"
  by (cases g; simp add: less_eq_guard_def)+

definition lock_read :: "guard \<Rightarrow> ('s, 'e, unit) blocking" where
  "lock_read g = (if g = WriteGuard then never else runs (ret ()))"

definition lock_write :: "guard \<Rightarrow> ('s, 'e, unit) blocking" where
  "lock_write g = (if g = NoGuard then runs (ret ()) else never)"

lemma runs_apply [simp]: "runs m s = Some (m s)"
  by (simp add: runs_def)

lemma never_apply [simp]: "never s = None"
  by (simp add: never_def)

lemma chain_never [simp]: "chain never f s = None"
  by (simp add: chain_def)

lemma chain_ret [simp]: "chain (runs (ret a)) f s = f a s"
  by (simp add: chain_def)

lemma chain_reads [simp]: "chain (runs (reads g)) f s = f (g s) s"
  by (simp add: chain_def)

lemma lock_simps [simp]:
  "lock_read NoGuard = runs (ret ())" "lock_read ReadGuard = runs (ret ())" "lock_read WriteGuard = never"
  "lock_write NoGuard = runs (ret ())" "lock_write ReadGuard = never" "lock_write WriteGuard = never"
  by (simp_all add: lock_read_def lock_write_def)

lemma chain_None: "m s = None \<Longrightarrow> chain m f s = None"
  by (simp add: chain_def)

lemma chain_Ok: "m s = Some (Ok a, s') \<Longrightarrow> chain m f s = f a s'"
  by (simp add: chain_def)

lemma chain_runs:
  "chain (runs m) f s =
     (case m s of (Ok a, s') \<Rightarrow> f a s' | (Err e, s') \<Rightarrow> Some (Err e, s') | (Panic p, s') \<Rightarrow> Some (Panic p, s'))"
  by (simp add: chain_def)

lemma chain_eq_Ok:
  "chain m f s = Some (Ok b, t) \<longleftrightarrow> (\<exists>a s'. m s = Some (Ok a, s') \<and> f a s' = Some (Ok b, t))"
  by (auto simp: chain_def split: option.splits prod.splits outcome.splits)

text \<open>What returns under a guard does the same under a weaker one: holding less never blocks more.\<close>

definition guard_mono :: "(guard \<Rightarrow> ('s, 'e, 'a) blocking) \<Rightarrow> bool" where
  "guard_mono m \<longleftrightarrow> (\<forall>g h s. g \<le> h \<longrightarrow> m h s \<noteq> None \<longrightarrow> m g s = m h s)"

lemma guard_monoD: "guard_mono m \<Longrightarrow> m h s = Some x \<Longrightarrow> g \<le> h \<Longrightarrow> m g s = Some x"
  by (auto simp: guard_mono_def)

lemma guard_mono_const: "guard_mono (\<lambda>_. m)"
  by (simp add: guard_mono_def)

lemma guard_mono_locks: "guard_mono lock_read" "guard_mono lock_write"
  by (auto simp: guard_mono_def lock_read_def lock_write_def)

lemma guard_mono_chain:
  assumes "guard_mono m" and "\<And>a. guard_mono (\<lambda>g. f g a)"
  shows "guard_mono (\<lambda>g. chain (m g) (f g))"
  unfolding guard_mono_def
proof (intro allI impI)
  fix g h :: guard and s
  assume le: "g \<le> h" and ret: "chain (m h) (f h) s \<noteq> None"
  then obtain r s' where m: "m h s = Some (r, s')" by (auto simp: chain_def split: option.splits)
  from guard_monoD [OF assms(1) this le] have "m g s = Some (r, s')" .
  with m ret assms(2) le show "chain (m g) (f g) s = chain (m h) (f h) s"
    by (cases r) (simp_all add: chain_def guard_mono_def)
qed

end
