(* ===== verification/Memory_Manager.thy ===== *)
theory Memory_Manager
  imports Permissions Garbage_Collector Lru_Cache Blocking
begin

text \<open>
  Model of \<open>MemoryManager\<close> in \<open>src/memory/mod.rs\<close>, which composes the page table, the segments,
  the permissions, the collector and the cache. Each method is one computation on the record of
  all six fields. The fields sit behind locks. A read and a write are composed of the steps between
  which other threads can act (\<open>mem_lookup\<close>, \<open>mem_miss\<close>, \<open>check_permissions\<close> and \<open>mem_fill\<close>;
  \<open>check_permissions\<close>, \<open>mem_put\<close> and \<open>mem_invalidate\<close>), which \<open>Memory_Concurrency\<close> interleaves; the other
  methods hold their locks to the end. \<open>allocate\<close> asks for a lock that it holds itself and never
  returns; \<open>allocate_body\<close> is what it would do if that lock were granted.
\<close>

section \<open>Model\<close>

record mem_address =
  segment_id :: u32
  page_id :: u32
  addr_offset :: u32

record memory_stats =
  total_allocations :: usize
  total_deallocations :: usize
  page_faults :: usize
  cache_hits :: usize
  cache_misses :: usize

record memory_config =
  conf_page_size :: usize
  conf_gc_threshold :: usize
  conf_cache_size :: usize

record memory_manager =
  mm_pages :: page_table
  mm_segments :: "memory_segment list"
  mm_permissions :: "mem_address \<rightharpoonup> access_permissions"
  mm_gc :: garbage_collector
  mm_cache :: "(mem_address, u8 list) lru_cache"
  mm_stats :: memory_stats

type_synonym 'a mm = "(memory_manager, mem_error, 'a) comp"

definition memory_manager_new :: "memory_config \<Rightarrow> memory_manager" where
  "memory_manager_new config =
     \<lparr>mm_pages = pt_new (conf_page_size config), mm_segments = [], mm_permissions = Map.empty,
      mm_gc = gc_new (conf_gc_threshold config), mm_cache = lru_new (conf_cache_size config),
      mm_stats = \<lparr>total_allocations = 0, total_deallocations = 0, page_faults = 0,
                  cache_hits = 0, cache_misses = 0\<rparr>\<rparr>"

abbreviation on_pages :: "(page_table, mem_error, 'a) comp \<Rightarrow> 'a mm" where
  "on_pages \<equiv> zoom mm_pages (\<lambda>t m. m\<lparr>mm_pages := t\<rparr>)"

abbreviation on_cache :: "((mem_address, u8 list) lru_cache, mem_error, 'a) comp \<Rightarrow> 'a mm" where
  "on_cache \<equiv> zoom mm_cache (\<lambda>c m. m\<lparr>mm_cache := c\<rparr>)"

text \<open>\<open>self.stats.write().counter += 1\<close>\<close>

definition count ::
  "build \<Rightarrow> (memory_stats \<Rightarrow> usize) \<Rightarrow> (usize \<Rightarrow> memory_stats \<Rightarrow> memory_stats) \<Rightarrow> unit mm" where
  "count b counter set_counter =
     andthen (reads (\<lambda>m. add_u b (counter (mm_stats m)) 1)) (\<lambda>x.
     andthen (or_panic ArithmeticOverflow x) (\<lambda>n.
     updates (\<lambda>m. m\<lparr>mm_stats := set_counter n (mm_stats m)\<rparr>)))"

text \<open>\<open>segments.iter().map(|s| s.size()).sum::<usize>()\<close>\<close>

definition total_size :: "build \<Rightarrow> memory_segment list \<Rightarrow> usize option" where
  "total_size b segments =
     fold (\<lambda>s acc. Option.bind acc (\<lambda>n. add_u b n (seg_size s))) segments (Some 0)"

definition should_collect_garbage :: "build \<Rightarrow> bool mm" where
  "should_collect_garbage b =
     andthen (reads (\<lambda>m. total_size b (mm_segments m))) (\<lambda>x.
     andthen (or_panic ArithmeticOverflow x) (\<lambda>total.
     reads (\<lambda>m. gc_threshold (mm_gc m) \<le> total)))"

definition collect_garbage :: "build \<Rightarrow> u64 \<Rightarrow> unit mm" where
  "collect_garbage b elapsed =
     zoom (\<lambda>m. (mm_gc m, mm_segments m, mm_pages m))
       (\<lambda>(g, s, t) m. m\<lparr>mm_gc := g, mm_segments := s, mm_pages := t\<rparr>) (collect b elapsed)"

definition pages_needed :: "build \<Rightarrow> usize \<Rightarrow> usize mm" where
  "pages_needed b sz =
     andthen (reads (\<lambda>m. page_size (mm_pages m))) (\<lambda>psize.
     andthen (or_panic ArithmeticOverflow (add_u b sz psize)) (\<lambda>x.
     andthen (or_panic ArithmeticOverflow (sub_u b x 1)) (\<lambda>y.
     if psize = 0 then abort DivideByZero else ret (y div psize))))"

fun allocate_pages :: "nat \<Rightarrow> (page_table, mem_error, u32 list) comp" where
  "allocate_pages 0 = ret []"
| "allocate_pages (Suc n) =
     andthen allocate_page (\<lambda>i. andthen (allocate_pages n) (\<lambda>is. ret (i # is)))"

text \<open>
  The clock readings and the time that a collection takes are arguments. \<open>Vec::with_capacity\<close>
  panics when the requested capacity exceeds \<open>isize::MAX\<close> bytes.
\<close>

definition allocate_segment ::
  "build \<Rightarrow> system_time \<Rightarrow> system_time \<Rightarrow> usize \<Rightarrow> segment_type \<Rightarrow> mem_address mm" where
  "allocate_segment b now now' sz st =
     andthen (lift_outcome (segment_new b now now' st sz)) (\<lambda>segment.
     andthen (reads (\<lambda>m. of_nat (length (mm_segments m)))) (\<lambda>sid.
     andthen (updates (\<lambda>m. m\<lparr>mm_segments := mm_segments m @ [segment]\<rparr>)) (\<lambda>_.
     andthen (pages_needed b sz) (\<lambda>n.
     andthen (if 2 ^ 63 \<le> unat n * 4 then abort CapacityOverflow else ret ()) (\<lambda>_.
     andthen (on_pages (allocate_pages (unat n))) (\<lambda>page_ids.
     andthen (or_panic IndexOutOfBounds (index page_ids 0)) (\<lambda>first.
     let addr = \<lparr>segment_id = sid, page_id = first, addr_offset = 0\<rparr> in
     andthen (updates (\<lambda>m. m\<lparr>mm_permissions := (mm_permissions m)(addr \<mapsto> perms_default)\<rparr>)) (\<lambda>_.
     andthen (count b total_allocations (\<lambda>n s. s\<lparr>total_allocations := n\<rparr>)) (\<lambda>_.
     ret addr)))))))))"

text \<open>The body, as if every lock it asks for were granted.\<close>

definition allocate_body ::
  "build \<Rightarrow> system_time \<Rightarrow> system_time \<Rightarrow> u64 \<Rightarrow> usize \<Rightarrow> segment_type \<Rightarrow> mem_address mm" where
  "allocate_body b now now' elapsed sz st =
     andthen (should_collect_garbage b) (\<lambda>full.
     andthen (if full then collect_garbage b elapsed else ret ()) (\<lambda>_.
     allocate_segment b now now' sz st))"

text \<open>The call: \<open>should_collect_garbage\<close> asks for the lock of the segments for reading; \<open>g\<close> is the guard on
  it that the caller holds, and \<open>allocate\<close> holds it for writing.\<close>

definition should_collect_call :: "guard \<Rightarrow> build \<Rightarrow> (memory_manager, mem_error, bool) blocking" where
  "should_collect_call g b = chain (lock_read g) (\<lambda>_. runs (should_collect_garbage b))"

definition allocate ::
  "build \<Rightarrow> system_time \<Rightarrow> system_time \<Rightarrow> u64 \<Rightarrow> usize \<Rightarrow> segment_type \<Rightarrow>
   (memory_manager, mem_error, mem_address) blocking" where
  "allocate b now now' elapsed sz st =
     chain (lock_write NoGuard) (\<lambda>_.
     chain (should_collect_call WriteGuard b) (\<lambda>full.
     runs (andthen (if full then collect_garbage b elapsed else ret ()) (\<lambda>_.
       allocate_segment b now now' sz st))))"

lemma allocate_never_returns: "allocate b now now' elapsed sz st m = None"
  by (simp add: allocate_def should_collect_call_def chain_def)

lemma allocate_body_unguarded:
  "chain (should_collect_call NoGuard b) (\<lambda>full.
     runs (andthen (if full then collect_garbage b elapsed else ret ()) (\<lambda>_.
       allocate_segment b now now' sz st))) m = Some (allocate_body b now now' elapsed sz st m)"
  by (simp add: allocate_body_def should_collect_call_def chain_def andthen_def
      split: prod.split outcome.split)

definition deallocate :: "build \<Rightarrow> mem_address \<Rightarrow> unit mm" where
  "deallocate b addr =
     andthen (reads (\<lambda>m. length (mm_segments m))) (\<lambda>n.
     andthen (if unat (segment_id addr) < n
              then updates (\<lambda>m. m\<lparr>mm_segments :=
                     remove_at (unat (segment_id addr)) (mm_segments m)\<rparr>)
              else abort IndexOutOfBounds) (\<lambda>_.
     andthen (on_pages (free_page (page_id addr))) (\<lambda>_.
     andthen (updates (\<lambda>m. m\<lparr>mm_permissions := (mm_permissions m)(addr := None)\<rparr>)) (\<lambda>_.
     count b total_deallocations (\<lambda>n s. s\<lparr>total_deallocations := n\<rparr>)))))"

definition check_permissions :: "mem_address \<Rightarrow> permission \<Rightarrow> unit mm" where
  "check_permissions addr required =
     andthen (reads (\<lambda>m. mm_permissions m addr)) (\<lambda>p.
     case p of
       Some perms \<Rightarrow> if has_permission perms required then ret ()
                     else fail (PermissionDenied (ucast (segment_id addr)))
     | None \<Rightarrow> fail (PermissionDenied (ucast (segment_id addr))))"

text \<open>The steps of \<open>read\<close>. The lock of the cache is held while a hit is counted, and that of the page table
  for reading from the read of the page to the insertion.\<close>

definition mem_lookup :: "build \<Rightarrow> mem_address \<Rightarrow> u8 list option mm" where
  "mem_lookup b addr =
     andthen (on_cache (\<lambda>c. case lru_get addr c of (r, c') \<Rightarrow> (Ok r, c'))) (\<lambda>hit.
     case hit of
       Some data \<Rightarrow> andthen (count b cache_hits (\<lambda>n s. s\<lparr>cache_hits := n\<rparr>)) (\<lambda>_. ret (Some data))
     | None \<Rightarrow> ret None)"

definition mem_miss :: "build \<Rightarrow> unit mm" where
  "mem_miss b = count b cache_misses (\<lambda>n s. s\<lparr>cache_misses := n\<rparr>)"

definition mem_fill :: "build \<Rightarrow> mem_address \<Rightarrow> usize \<Rightarrow> u8 list mm" where
  "mem_fill b addr sz =
     andthen (on_pages (pt_read b (page_id addr) (ucast (addr_offset addr)) sz)) (\<lambda>data.
     andthen (on_cache (updates (lru_insert addr data))) (\<lambda>_.
     ret data))"

definition mem_read :: "build \<Rightarrow> mem_address \<Rightarrow> usize \<Rightarrow> u8 list mm" where
  "mem_read b addr sz =
     andthen (mem_lookup b addr) (\<lambda>hit.
     case hit of
       Some data \<Rightarrow> ret data
     | None \<Rightarrow>
         andthen (mem_miss b) (\<lambda>_.
         andthen (check_permissions addr PermRead) (\<lambda>_.
         mem_fill b addr sz)))"

text \<open>The steps of \<open>write\<close>. The lock of the page table is held for writing through both, but the cache can
  be looked up between them.\<close>

definition mem_put :: "build \<Rightarrow> mem_address \<Rightarrow> u8 list \<Rightarrow> unit mm" where
  "mem_put b addr data = on_pages (pt_write b (page_id addr) (ucast (addr_offset addr)) data)"

definition mem_invalidate :: "mem_address \<Rightarrow> unit mm" where
  "mem_invalidate addr = on_cache (updates (lru_remove addr))"

definition mem_write :: "build \<Rightarrow> mem_address \<Rightarrow> u8 list \<Rightarrow> unit mm" where
  "mem_write b addr data =
     andthen (check_permissions addr PermWrite) (\<lambda>_.
     andthen (mem_put b addr data) (\<lambda>_.
     mem_invalidate addr))"

definition protect :: "mem_address \<Rightarrow> access_permissions \<Rightarrow> unit mm" where
  "protect addr perms =
     updates (\<lambda>m. m\<lparr>mm_permissions := (mm_permissions m)(addr \<mapsto> perms)\<rparr>)"

section \<open>What each method does\<close>

definition mm_inv :: "memory_manager \<Rightarrow> bool" where
  "mm_inv m \<longleftrightarrow> pt_inv (mm_pages m) \<and> queue_covers (mm_cache m) \<and> marked (mm_gc m) = {}"

definition permits :: "memory_manager \<Rightarrow> mem_address \<Rightarrow> permission \<Rightarrow> bool" where
  "permits m addr r \<longleftrightarrow> (\<exists>p. mm_permissions m addr = Some p \<and> has_permission p r)"

lemma permits_other [simp]:
  "permits (m\<lparr>mm_pages := t\<rparr>) a r = permits m a r" "permits (m\<lparr>mm_cache := c\<rparr>) a r = permits m a r"
  "permits (m\<lparr>mm_stats := s\<rparr>) a r = permits m a r"
  by (simp_all add: permits_def)

lemma mm_inv_new: "mm_inv (memory_manager_new config)"
  by (simp add: mm_inv_def memory_manager_new_def pt_inv_new lru_inv_covers lru_inv_new gc_new_def)

lemma wp_check_permissions [wp_simps]:
  "wp (check_permissions a r) Q E F m =
     (if permits m a r then Q () m else E (PermissionDenied (ucast (segment_id a))) m)"
  by (auto simp: check_permissions_def permits_def wp_simps split: option.split)

lemma wp_count [wp_simps]:
  "wp (count b f g) Q E F m =
     (if b = Debug \<and> f (mm_stats m) = - 1 then F ArithmeticOverflow m
      else Q () (m\<lparr>mm_stats := g (f (mm_stats m) + 1) (mm_stats m)\<rparr>))"
  by (simp add: count_def wp_simps add_u_one)

lemma mm_pages_id [simp]: "m\<lparr>mm_pages := mm_pages m\<rparr> = m"
  and mm_cache_id [simp]: "m\<lparr>mm_cache := mm_cache m\<rparr> = m"
  by (cases m; simp)+

lemma mem_put_spec:
  "wp (mem_put b a data)
     (\<lambda>_ m'. \<exists>t'. pt_write b (page_id a) (ucast (addr_offset a)) data (mm_pages m) = (Ok (), t') \<and>
        m' = m\<lparr>mm_pages := t'\<rparr>)
     (\<lambda>e m'. m' = m \<and> e = fault_at (page_id a)) (\<lambda>_ m'. m' = m) m"
proof -
  obtain r t' where run: "pt_write b (page_id a) (ucast (addr_offset a)) data (mm_pages m) = (r, t')"
    by fastforce
  with pt_write_fails_unchanged [of b "page_id a" "ucast (addr_offset a)" data "mm_pages m"]
  show ?thesis
    by (cases r) (simp_all add: mem_put_def wp_simps, simp_all add: wp_def run)
qed

lemma wp_mem_invalidate [wp_simps]:
  "wp (mem_invalidate a) Q E F m = Q () (m\<lparr>mm_cache := lru_remove a (mm_cache m)\<rparr>)"
  by (simp add: mem_invalidate_def wp_simps)

text \<open>
  A write that fails changes nothing; one that succeeds changed one page and forgot the
  address in the cache.
\<close>

lemma mem_write_spec:
  "wp (mem_write b a data)
     (\<lambda>_ m'. permits m a PermWrite \<and> (\<exists>t'.
        pt_write b (page_id a) (ucast (addr_offset a)) data (mm_pages m) = (Ok (), t') \<and>
        m' = m\<lparr>mm_pages := t', mm_cache := lru_remove a (mm_cache m)\<rparr>))
     (\<lambda>e m'. m' = m \<and> (if permits m a PermWrite then e = fault_at (page_id a)
                       else e = PermissionDenied (ucast (segment_id a))))
     (\<lambda>_ m'. m' = m) m"
  unfolding mem_write_def wp_andthen wp_check_permissions
  by (auto simp: wp_simps intro!: wp_mono [OF mem_put_spec])

text \<open>A read hits the cache, whatever the permissions and the size, or goes to the page table.\<close>

abbreviation note_hit :: "memory_manager \<Rightarrow> memory_manager" where
  "note_hit m \<equiv> m\<lparr>mm_stats := (mm_stats m)\<lparr>cache_hits := cache_hits (mm_stats m) + 1\<rparr>\<rparr>"

abbreviation note_miss :: "memory_manager \<Rightarrow> memory_manager" where
  "note_miss m \<equiv> m\<lparr>mm_stats := (mm_stats m)\<lparr>cache_misses := cache_misses (mm_stats m) + 1\<rparr>\<rparr>"

abbreviation looked :: "mem_address \<Rightarrow> memory_manager \<Rightarrow> memory_manager" where
  "looked a m \<equiv> m\<lparr>mm_cache := snd (lru_get a (mm_cache m))\<rparr>"

lemma cache_lookup:
  "on_cache (\<lambda>c. case lru_get a c of (r, c') \<Rightarrow> (Ok r, c')) m = (Ok (fst (lru_get a (mm_cache m))), looked a m)"
  by (simp add: zoom_def split: prod.splits)

lemma wp_mem_lookup:
  assumes "queue_covers (mm_cache m)"
  shows "wp (mem_lookup b a) Q E F m =
    (case cached (mm_cache m) a of
       None \<Rightarrow> Q None (looked a m)
     | Some d \<Rightarrow> if b = Debug \<and> cache_hits (mm_stats m) = - 1 then F ArithmeticOverflow (looked a m)
                 else Q (Some d) (note_hit (looked a m)))"
proof -
  have "fst (lru_get a (mm_cache m)) = cached (mm_cache m) a" by (simp add: lru_get_covered [OF assms])
  then show ?thesis
    by (simp add: mem_lookup_def wp_andthen wp_def [of "on_cache _"] cache_lookup)
      (auto simp: wp_simps split: option.split)
qed

lemma mem_fill_spec:
  "wp (mem_fill b a sz)
     (\<lambda>d m'. pt_read b (page_id a) (ucast (addr_offset a)) sz (mm_pages m) = (Ok d, mm_pages m) \<and>
        m' = m\<lparr>mm_cache := lru_insert a d (mm_cache m)\<rparr>)
     (\<lambda>e m'. pt_read b (page_id a) (ucast (addr_offset a)) sz (mm_pages m) = (Err e, mm_pages m) \<and> m' = m)
     (\<lambda>p m'. pt_read b (page_id a) (ucast (addr_offset a)) sz (mm_pages m) = (Panic p, mm_pages m) \<and> m' = m)
     m"
proof -
  obtain r t where run: "pt_read b (page_id a) (ucast (addr_offset a)) sz (mm_pages m) = (r, t)"
    by fastforce
  moreover from reads_keep_table(1) run have "t = mm_pages m" by (rule wp_all)
  ultimately show ?thesis
    by (cases r; simp add: mem_fill_def wp_simps wp_def [of "pt_read _ _ _ _"])
qed

lemma mem_read_hit:
  assumes "queue_covers (mm_cache m)" and "cached (mm_cache m) a = Some d"
  shows "wp (mem_read b a sz) (\<lambda>x m'. x = d \<and> m' = note_hit (looked a m))
     (\<lambda>_ _. False) (\<lambda>p _. b = Debug \<and> cache_hits (mm_stats m) = - 1) m"
  using assms by (simp add: mem_read_def wp_andthen wp_mem_lookup) (simp add: wp_simps)

lemma mem_read_miss:
  assumes "queue_covers (mm_cache m)" and "cached (mm_cache m) a = None"
  shows "wp (mem_read b a sz)
     (\<lambda>d m'. permits m a PermRead \<and>
        pt_read b (page_id a) (ucast (addr_offset a)) sz (mm_pages m) = (Ok d, mm_pages m) \<and>
        m' = (note_miss (looked a m))\<lparr>mm_cache := lru_insert a d (mm_cache (looked a m))\<rparr>)
     (\<lambda>e m'. (if permits m a PermRead then
          pt_read b (page_id a) (ucast (addr_offset a)) sz (mm_pages m) = (Err e, mm_pages m)
        else e = PermissionDenied (ucast (segment_id a))) \<and> m' = note_miss (looked a m))
     (\<lambda>p m'. b = Debug \<and> cache_misses (mm_stats m) = - 1 \<or>
        permits m a PermRead \<and>
        pt_read b (page_id a) (ucast (addr_offset a)) sz (mm_pages m) = (Panic p, mm_pages m)) m"
  using assms unfolding mem_read_def wp_andthen wp_mem_lookup [OF assms(1)] mem_miss_def
  by (auto simp: wp_simps intro!: wp_mono [OF mem_fill_spec])

section \<open>The invariant\<close>

lemma mem_write_inv:
  assumes "mm_inv m" and "length data < 2 ^ 63"
  shows "wp (mem_write b a data) (\<lambda>_. mm_inv) (\<lambda>_. mm_inv) (\<lambda>_. mm_inv) m"
  by (rule wp_mono [OF mem_write_spec])
    (use assms in \<open>auto simp: mm_inv_def lru_remove_covers dest: wp_Ok [OF pt_write_inv]\<close>)

lemma mem_lookup_inv:
  assumes "mm_inv m"
  shows "wp (mem_lookup b a) (\<lambda>_. mm_inv) (\<lambda>_. mm_inv) (\<lambda>_. mm_inv) m"
proof -
  have "queue_covers (mm_cache m)" using assms by (simp add: mm_inv_def)
  then show ?thesis
    using assms by (simp add: wp_mem_lookup mm_inv_def lru_get_covers split: option.split)
qed

lemma mem_fill_inv:
  assumes "mm_inv m"
  shows "wp (mem_fill b a sz) (\<lambda>_. mm_inv) (\<lambda>_. mm_inv) (\<lambda>_. mm_inv) m"
  by (rule wp_mono [OF mem_fill_spec]) (use assms in \<open>auto simp: mm_inv_def lru_insert_covers\<close>)

lemma mem_read_inv:
  assumes "mm_inv m"
  shows "wp (mem_read b a sz) (\<lambda>_. mm_inv) (\<lambda>_. mm_inv) (\<lambda>_. mm_inv) m"
  unfolding mem_read_def wp_andthen mem_miss_def
proof (rule wp_mono [OF mem_lookup_inv [OF assms]])
  fix hit m' assume inv: "mm_inv m'"
  then have "mm_inv (note_miss m')" by (simp add: mm_inv_def)
  with inv show "wp (case hit of None \<Rightarrow> andthen (count b cache_misses (\<lambda>n s. s\<lparr>cache_misses := n\<rparr>))
        (\<lambda>_. andthen (check_permissions a PermRead) (\<lambda>_. mem_fill b a sz))
      | Some data \<Rightarrow> ret data) (\<lambda>_. mm_inv) (\<lambda>_. mm_inv) (\<lambda>_. mm_inv) m'"
    by (auto simp: wp_simps mem_fill_inv split: option.split)
qed auto

lemma collect_keeps_pages:
  "wp (collect b el) (\<lambda>_ (g, ss', t'). marked g = {} \<and> t' = t) (\<lambda>_ _. False) (\<lambda>_ _. True) (g, ss, t)"
proof -
  have no_err: "wp (add_stats b n k el) (\<lambda>_ _. True) (\<lambda>_ _. False) (\<lambda>_ _. True) st" for n k st
    by (auto simp: add_stats_def wp_simps split: option.split)
  show ?thesis
    by (auto simp: wp_def collect_def Let_def sweep_def dest: wp_Err [OF no_err]
        split: prod.splits outcome.splits)
qed

text \<open>
  What a series of page allocations does: it takes distinct numbers that were not live, fills
  their pages with zeros and leaves all others alone.
\<close>

definition zero_page :: "page_table \<Rightarrow> page" where
  "zero_page t = \<lparr>page_data = replicate (unat (page_size t)) 0, flags = page_flags_default\<rparr>"

lemma allocate_pages_spec:
  assumes "pt_inv t"
  shows "wp (allocate_pages n)
    (\<lambda>is t'. pt_inv t' \<and> page_size t' = page_size t \<and> length is = n \<and> distinct is \<and>
       set is \<inter> dom (pages t) = {} \<and>
       pages t' = (\<lambda>i. if i \<in> set is then Some (zero_page t) else pages t i))
    (\<lambda>e t'. e = OutOfMemory \<and> pt_inv t' \<and> page_size t' = page_size t \<and> pages t \<subseteq>\<^sub>m pages t') (\<lambda>_ _. False) t"
  using assms
proof (induction n arbitrary: t)
  case 0
  then show ?case by (simp add: wp_def)
next
  case (Suc n)
  show ?case
    unfolding allocate_pages.simps wp_andthen
  proof (rule wp_mono [OF allocate_page_inv [OF Suc.prems]], goal_cases)
    case (1 i u)
    then have u: "pt_inv u" "pages t i = None" "page_size u = page_size t"
      "pages u = (pages t)(i \<mapsto> zero_page t)" by (auto simp: zero_page_def)
    have zero: "zero_page u = zero_page t" using u(3) by (simp add: zero_page_def)
    show ?case
      unfolding wp_andthen wp_ret
    proof (rule wp_mono [OF Suc.IH [OF u(1)]], goal_cases)
      case (1 ids v)
      with u zero show ?case by (auto simp: fun_eq_iff)
    next
      case (2 e v)
      moreover have "pages t \<subseteq>\<^sub>m pages u" using u(2,4) by (simp add: map_le_def domIff) fastforce
      ultimately show ?case using u(3) by (auto intro: map_le_trans)
    qed
  qed (use Suc.prems in auto)
qed

lemma pages_needed_reads: "wp (pages_needed b sz) (\<lambda>_ m'. m' = m) (\<lambda>_ _. False) (\<lambda>_ m'. m' = m) m"
  by (auto simp: pages_needed_def wp_simps split: option.split)

lemma should_collect_reads:
  "wp (should_collect_garbage b) (\<lambda>_ m'. m' = m) (\<lambda>_ _. False) (\<lambda>_ m'. m' = m) m"
  by (auto simp: should_collect_garbage_def wp_simps split: option.split)

text \<open>The number of pages a size takes in a table; \<open>None\<close> for the panics of the computation.\<close>

definition page_count :: "build \<Rightarrow> usize \<Rightarrow> usize \<Rightarrow> usize option" where
  "page_count b psize sz =
     Option.bind (Option.bind (add_u b sz psize) (\<lambda>x. sub_u b x 1))
       (\<lambda>y. if psize = 0 then None else Some (y div psize))"

lemma wp_pages_needed:
  "wp (pages_needed b sz)
     (\<lambda>n m'. page_count b (page_size (mm_pages m)) sz = Some n \<and> m' = m)
     (\<lambda>_ _. False) (\<lambda>_ m'. m' = m) m"
  by (auto simp: pages_needed_def page_count_def wp_simps split: option.split)

definition allocated :: "build \<Rightarrow> usize \<Rightarrow> memory_manager \<Rightarrow> mem_address \<Rightarrow> memory_manager \<Rightarrow> bool" where
  "allocated b sz m addr m' \<longleftrightarrow>
     mm_inv m' \<and> addr_offset addr = 0 \<and> mm_cache m' = mm_cache m \<and>
     page_size (mm_pages m') = page_size (mm_pages m) \<and>
     mm_permissions m' = (mm_permissions m)(addr \<mapsto> perms_default) \<and>
     (\<exists>ids. ids \<noteq> [] \<and> page_id addr = hd ids \<and> distinct ids \<and>
        page_count b (page_size (mm_pages m)) sz = Some (of_nat (length ids)) \<and>
        length ids < 2 ^ 64 \<and> set ids \<inter> dom (pages (mm_pages m)) = {} \<and>
        pages (mm_pages m') =
          (\<lambda>i. if i \<in> set ids then Some (zero_page (mm_pages m)) else pages (mm_pages m) i))"

text \<open>An allocation that fails may keep pages that it has taken already, but changes none.\<close>

definition grown :: "memory_manager \<Rightarrow> memory_manager \<Rightarrow> bool" where
  "grown m m' \<longleftrightarrow> mm_inv m' \<and> mm_cache m' = mm_cache m \<and>
     page_size (mm_pages m') = page_size (mm_pages m) \<and> pages (mm_pages m) \<subseteq>\<^sub>m pages (mm_pages m')"

lemma allocated_grown: "allocated b sz m a m' \<Longrightarrow> grown m m'"
  by (auto simp: allocated_def grown_def map_le_def disjoint_iff)

lemma allocate_segment_spec:
  assumes "mm_inv m"
  shows "wp (allocate_segment b now now' sz st)
    (allocated b sz m) (\<lambda>e m'. e = OutOfMemory \<and> grown m m') (\<lambda>_ _. True) m"
proof (cases "segment_new b now now' st sz")
  case (Ok seg)
  let ?m = "m\<lparr>mm_segments := mm_segments m @ [seg]\<rparr>"
  have inv: "pt_inv (mm_pages ?m)" using assms by (simp add: mm_inv_def)
  show ?thesis
    unfolding allocate_segment_def wp_andthen wp_lift_outcome wp_reads wp_updates Ok outcome.case
  proof (rule wp_mono [OF wp_pages_needed], goal_cases)
    case (1 n m1)
    show ?case
      unfolding wp_if wp_abort wp_ret wp_zoom
    proof (simp only: 1 split: if_split, intro conjI impI TrueI,
        rule wp_mono [OF allocate_pages_spec [OF inv]], goal_cases)
      case (1 ids u)
      show ?case
      proof (cases ids)
        case Nil
        then show ?thesis by (simp add: index_def wp_simps)
      next
        case (Cons i is')
        moreover have "unat n < 2 ^ 64" using unat_lt_2p64 [of n] by simp
        moreover have "of_nat (length ids) = n" using 1 by simp
        ultimately show ?thesis
          using 1 assms \<open>page_count b _ sz = Some n \<and> _\<close>
          by (auto simp: index_def wp_simps Let_def allocated_def mm_inv_def zero_page_def
              intro!: exI [of _ ids]) (metis disjoint_iff domI)+
      qed
    next
      case (2 e u)
      with assms show ?case by (simp add: grown_def mm_inv_def)
    qed simp
  qed auto
next
  case (Err e)
  with assms show ?thesis
    by (auto simp: allocate_segment_def wp_simps segment_new_def grown_def map_le_def
        split: if_splits option.splits)
next
  case (Panic p)
  then show ?thesis by (simp add: allocate_segment_def wp_simps)
qed

lemma allocate_spec:
  assumes "mm_inv m"
  shows "wp (allocate_body b now now' el sz st)
    (allocated b sz m) (\<lambda>e m'. e = OutOfMemory \<and> grown m m') (\<lambda>_ _. True) m"
proof -
  have rest: "wp (allocate_segment b now now' sz st)
      (allocated b sz m) (\<lambda>e m'. e = OutOfMemory \<and> grown m m') (\<lambda>_ _. True) m1"
    if "mm_pages m1 = mm_pages m" "mm_cache m1 = mm_cache m" "marked (mm_gc m1) = {}"
      "mm_permissions m1 = mm_permissions m" for m1
  proof -
    have "mm_inv m1" using assms that by (simp add: mm_inv_def)
    moreover have "allocated b sz m1 = allocated b sz m"
      using that by (simp add: allocated_def fun_eq_iff)
    moreover have "grown m1 = grown m" using that by (simp add: grown_def fun_eq_iff)
    ultimately show ?thesis using allocate_segment_spec [of m1 b now now' sz st] by simp
  qed
  have gc: "wp (collect_garbage b el)
      (\<lambda>_ m1. mm_pages m1 = mm_pages m \<and> mm_cache m1 = mm_cache m \<and> marked (mm_gc m1) = {} \<and>
        mm_permissions m1 = mm_permissions m) (\<lambda>_ _. False) (\<lambda>_ _. True) m"
    unfolding collect_garbage_def wp_zoom
    by (rule wp_mono [OF collect_keeps_pages]) auto
  show ?thesis
    unfolding allocate_body_def wp_andthen
  proof (rule wp_mono [OF should_collect_reads], goal_cases)
    case (1 full m1)
    then show ?case
    proof (cases full)
      case True
      with 1 show ?thesis
        by (simp only: if_True) (rule wp_mono [OF gc], auto intro: rest)
    next
      case False
      with 1 assms show ?thesis
        by (simp only: if_False wp_ret) (rule rest, auto simp: mm_inv_def)
    qed
  qed auto
qed

lemma deallocate_spec:
  "wp (deallocate b a)
     (\<lambda>_ m'. unat (segment_id a) < length (mm_segments m) \<and>
        m' = m\<lparr>mm_segments := remove_at (unat (segment_id a)) (mm_segments m),
          mm_pages := snd (free_page (page_id a) (mm_pages m)),
          mm_permissions := (mm_permissions m)(a := None),
          mm_stats := (mm_stats m)\<lparr>total_deallocations := total_deallocations (mm_stats m) + 1\<rparr>\<rparr>)
     (\<lambda>_ _. False)
     (\<lambda>p m'. p = IndexOutOfBounds \<and> m' = m \<and> length (mm_segments m) \<le> unat (segment_id a) \<or>
        b = Debug \<and> total_deallocations (mm_stats m) = - 1) m"
  by (auto simp: deallocate_def wp_simps free_page_def)

end
