(* ===== verification/Memory_Properties.thy ===== *)
theory Memory_Properties
  imports Memory_Manager
begin

text \<open>
  Properties of the memory manager: the invariant of every reachable manager, reading back what
  was written, what permissions do and do not protect, what deallocation leaves behind, the
  coherence of the cache on addresses of different pages, and the locks.
\<close>

section \<open>The calls keep the invariant\<close>

lemma wp_returning:
  assumes "wp m (\<lambda>_. P) (\<lambda>_. P) (\<lambda>_ _. True) s" and "m s = (r, s')" and "\<forall>p. r \<noteq> Panic p"
  shows "P s'"
  using assms by (cases r) (auto simp: wp_def)

lemma allocate_grows:
  assumes "mm_inv m" and "allocate_body b now now' el sz st m = (r, m')" and "\<forall>p. r \<noteq> Panic p"
  shows "grown m m'"
proof -
  have "wp (allocate_body b now now' el sz st) (\<lambda>_. grown m) (\<lambda>_. grown m) (\<lambda>_ _. True) m"
    by (rule wp_mono [OF allocate_spec [OF assms(1)]]) (auto intro: allocated_grown)
  from wp_returning [OF this assms(2,3)] show ?thesis .
qed

lemma allocate_inv:
  "mm_inv m \<Longrightarrow> allocate_body b now now' el sz st m = (r, m') \<Longrightarrow> \<forall>p. r \<noteq> Panic p \<Longrightarrow> mm_inv m'"
  using allocate_grows by (simp add: grown_def)

lemma allocate_keeps_cache: "preserves (\<lambda>m. mm_cache m = c) (allocate_body b now now' el sz st)"
  unfolding allocate_body_def allocate_segment_def should_collect_garbage_def collect_garbage_def pages_needed_def
    count_def Let_def
  by (auto intro!: preserving preserves_updates preserves_zoom)

lemma deallocate_inv:
  assumes "mm_inv m" and "deallocate b a m = (Ok (), m')"
  shows "mm_inv m'"
proof -
  from assms(2) have "mm_pages m' = snd (free_page (page_id a) (mm_pages m))" "mm_cache m' = mm_cache m"
    "mm_gc m' = mm_gc m"
    by (auto dest!: wp_Ok [OF deallocate_spec])
  moreover have "pt_inv (snd (free_page (page_id a) (mm_pages m)))"
    using free_page_inv [of "mm_pages m" "page_id a"] assms(1)
    by (auto simp: mm_inv_def wp_def free_page_def)
  ultimately show ?thesis using assms(1) by (simp add: mm_inv_def)
qed

section \<open>Calls that succeed\<close>

lemma mem_write_succeeds:
  assumes "permits m a PermWrite"
    and wr: "pt_write b (page_id a) (ucast (addr_offset a)) data (mm_pages m) = (Ok (), t)"
  shows "mem_write b a data m = (Ok (), m\<lparr>mm_pages := t, mm_cache := lru_remove a (mm_cache m)\<rparr>)"
proof -
  have "wp (mem_put b a data) (\<lambda>_ m'. m' = m\<lparr>mm_pages := t\<rparr>) (\<lambda>_ _. False) (\<lambda>_ _. False) m"
    unfolding mem_put_def wp_zoom using wr by (simp add: wp_def)
  from wp_mono [OF this] show ?thesis
    unfolding wp_returns mem_write_def wp_andthen using assms(1) by (simp add: wp_simps)
qed

lemma mem_read_miss_succeeds:
  assumes "queue_covers (mm_cache m)" "cached (mm_cache m) a = None" "permits m a PermRead"
    and "pt_read b (page_id a) (ucast (addr_offset a)) sz (mm_pages m) = (Ok d, mm_pages m)"
    and "cache_misses (mm_stats m) \<noteq> - 1"
  shows "mem_read b a sz m =
    (Ok d, (note_miss (looked a m))\<lparr>mm_cache := lru_insert a d (mm_cache (looked a m))\<rparr>)"
proof -
  obtain r m' where run: "mem_read b a sz m = (r, m')" by fastforce
  with mem_read_miss [OF assms(1,2), of b sz] assms(3-5) show ?thesis
    by (cases r) (auto simp: wp_def)
qed

lemma mem_read_hit_succeeds:
  assumes "queue_covers (mm_cache m)" "cached (mm_cache m) a = Some d" "cache_hits (mm_stats m) \<noteq> - 1"
  shows "mem_read b a sz m = (Ok d, note_hit (looked a m))"
proof -
  obtain r m' where run: "mem_read b a sz m = (r, m')" by fastforce
  with mem_read_hit [OF assms(1,2), of b sz] assms(3) show ?thesis
    by (cases r) (auto simp: wp_def)
qed

lemma mem_read_denied:
  assumes "queue_covers (mm_cache m)" "cached (mm_cache m) a = None" "\<not> permits m a PermRead"
    and "cache_misses (mm_stats m) \<noteq> - 1"
  shows "mem_read b a sz m = (Err (PermissionDenied (ucast (segment_id a))), note_miss (looked a m))"
proof -
  obtain r m' where run: "mem_read b a sz m = (r, m')" by fastforce
  with mem_read_miss [OF assms(1,2), of b sz] assms(3-4) show ?thesis
    by (cases r) (auto simp: wp_def)
qed

lemma mem_write_denied:
  assumes "\<not> permits m a PermWrite"
  shows "mem_write b a data m = (Err (PermissionDenied (ucast (segment_id a))), m)"
  unfolding wp_fails mem_write_def using assms by (simp add: wp_simps)

lemma page_count_ceiling:
  assumes "page_count b psize sz = Some n" and "unat sz + unat psize < 2 ^ 64"
  shows "unat n = (unat sz + unat psize - 1) div unat psize"
proof -
  have "add_u b sz psize = Some (sz + psize)" and sum: "unat (sz + psize) = unat sz + unat psize"
    using assms(2) by (simp_all add: add_u_exact unat_add_no_wrap)
  with assms(1) have n: "psize \<noteq> 0" "sub_u b (sz + psize) 1 = Some (sz + psize - 1)"
    "n = (sz + psize - 1) div psize"
    by (auto simp: page_count_def sub_u_def split: if_splits option.splits bind_splits)
  have "0 < unat psize" using n(1) by (simp add: unat_gt_0)
  then have "1 \<le> sz + psize" using sum by (simp add: word_le_nat_alt)
  then have "unat (sz + psize - 1) = unat sz + unat psize - 1"
    using sum by (simp add: unat_sub_le)
  with n(3) show ?thesis by (simp add: unat_div)
qed

section \<open>Properties of single calls\<close>

text \<open>C29: Who may write and read an address, and whose page has room for the data, can write the
  data and then reads back what was written. The read fills the cache: every further read of
  the address returns the same bytes, whatever size it asks for.\<close>

theorem read_own_write:
  assumes "mm_inv m" and "permits m a PermWrite" "permits m a PermRead"
    and "pages (mm_pages m) (page_id a) = Some pg" "present (flags pg)" "writable (flags pg)"
    and "unat (addr_offset a) + length data \<le> unat (page_size (mm_pages m))"
    and "length data < 2 ^ 63"
    and "cache_misses (mm_stats m) \<noteq> - 1" "cache_hits (mm_stats m) \<noteq> - 1"
  shows "\<exists>m1 m2. mem_write b a data m = (Ok (), m1) \<and>
    mem_read b a (of_nat (length data)) m1 = (Ok data, m2) \<and>
    (\<forall>sz. fst (mem_read b a sz m2) = Ok data)"
proof -
  have inv: "pt_inv (mm_pages m)" "queue_covers (mm_cache m)" using assms(1) by (simp_all add: mm_inv_def)
  have "unat (ucast (addr_offset a) :: usize) + length data \<le> unat (page_size (mm_pages m))"
    using assms(7) by simp
  from pt_write_succeeds [OF inv(1) assms(4-6) this assms(8)] obtain t
    where wr: "pt_write b (page_id a) (ucast (addr_offset a)) data (mm_pages m) = (Ok (), t)" by blast
  let ?m1 = "m\<lparr>mm_pages := t, mm_cache := lru_remove a (mm_cache m)\<rparr>"
  have w: "mem_write b a data m = (Ok (), ?m1)"
    using mem_write_succeeds [OF assms(2) wr] .
  have lru: "queue_covers (mm_cache ?m1)" using inv(2) by (simp add: lru_remove_covers)
  moreover have "cached (mm_cache ?m1) a = None" by (simp add: lru_remove_eq)
  moreover have "permits ?m1 a PermRead" using assms(3) by (simp add: permits_def)
  moreover have "pt_read b (page_id a) (ucast (addr_offset a)) (of_nat (length data)) (mm_pages ?m1)
      = (Ok data, mm_pages ?m1)"
    using pt.get_after_put [OF inv(1) assms(8) wr] by simp
  ultimately obtain m2 where r: "mem_read b a (of_nat (length data)) ?m1 = (Ok data, m2)"
    and m2: "m2 = (note_miss (looked a ?m1))\<lparr>mm_cache := lru_insert a data (mm_cache (looked a ?m1))\<rparr>"
    using mem_read_miss_succeeds [of ?m1 a b] assms(9) by simp
  have "queue_covers (mm_cache m2)" "cached (mm_cache m2) a = Some data"
    using lru.store_spec [OF lru_get_covers [OF lru, of a], of a data] by (simp_all add: m2)
  then have "fst (mem_read b a sz m2) = Ok data" for sz
    using mem_read_hit_succeeds [of m2 a data b sz] assms(10) by (simp add: m2)
  with w r show ?thesis by blast
qed

text \<open>Setting permissions takes effect on every write: without the write right it is refused and
  changes nothing. It takes effect on a read only if the address is not cached: then a read
  without the read right is refused and touches no page, whereas a cached address answers
  with the cached bytes, whatever its permissions now are.\<close>

theorem protect_enforcement:
  assumes "mm_inv m" and "protect a perms m = (Ok (), m')"
    and "cache_misses (mm_stats m) \<noteq> - 1" "cache_hits (mm_stats m) \<noteq> - 1"
  shows "(\<not> has_permission perms PermWrite \<longrightarrow>
      mem_write b a data m' = (Err (PermissionDenied (ucast (segment_id a))), m')) \<and>
    (\<not> has_permission perms PermRead \<longrightarrow>
      (case cached (mm_cache m) a of
         None \<Rightarrow> \<exists>m''. mem_read b a sz m' = (Err (PermissionDenied (ucast (segment_id a))), m'') \<and>
                   mm_pages m'' = mm_pages m
       | Some d \<Rightarrow> fst (mem_read b a sz m') = Ok d))"
proof -
  have m': "m' = m\<lparr>mm_permissions := (mm_permissions m)(a \<mapsto> perms)\<rparr>"
    using assms(2) by (simp add: protect_def)
  then have perm: "permits m' a r \<longleftrightarrow> has_permission perms r" for r by (simp add: permits_def)
  have lru: "queue_covers (mm_cache m')" "mm_cache m' = mm_cache m"
    using assms(1) m' by (simp_all add: mm_inv_def)
  have stats: "cache_misses (mm_stats m') \<noteq> - 1" "cache_hits (mm_stats m') \<noteq> - 1"
    using assms(3,4) m' by simp_all
  show ?thesis
  proof (cases "cached (mm_cache m) a")
    case None
    with lru stats perm show ?thesis
      by (auto simp: mem_read_denied mem_write_denied m')
  next
    case (Some d)
    with lru stats perm show ?thesis
      by (auto simp: mem_read_hit_succeeds mem_write_denied)
  qed
qed

text \<open>Deallocating an address frees its page and withdraws its permissions, but leaves its bytes
  in the cache. A read of the freed address still returns them, and so does a read after any
  later allocation that hands out the same address again, although the recycled page is all
  zeros.\<close>

theorem stale_read_after_free:
  assumes "mm_inv m" and "cached (mm_cache m) a = Some d"
    and "deallocate b a m = (Ok (), m1)"
    and "cache_hits (mm_stats m) \<noteq> - 1"
    and "allocate_body b now now' el sz st m1 = (Ok a, m2)" "cache_hits (mm_stats m2) \<noteq> - 1"
  shows "pages (mm_pages m1) (page_id a) = None \<and> \<not> permits m1 a PermRead \<and>
    fst (mem_read b a n m1) = Ok d \<and>
    pages (mm_pages m2) (page_id a) = Some (zero_page (mm_pages m1)) \<and>
    fst (mem_read b a n m2) = Ok d"
proof -
  have m1: "mm_pages m1 = snd (free_page (page_id a) (mm_pages m))" "mm_cache m1 = mm_cache m"
    "mm_permissions m1 = (mm_permissions m)(a := None)"
    "cache_hits (mm_stats m1) = cache_hits (mm_stats m)"
    using wp_Ok [OF deallocate_spec assms(3)] by auto
  have "mm_inv m1" using deallocate_inv [OF assms(1,3)] .
  from wp_Ok [OF allocate_spec [OF this] assms(5)]
  have m2: "mm_inv m2" "mm_cache m2 = mm_cache m1"
    "pages (mm_pages m2) (page_id a) = Some (zero_page (mm_pages m1))"
    by (auto simp: allocated_def)
  have "fst (mem_read b a n m1) = Ok d"
    using mem_read_hit_succeeds [of m1 a d b n] \<open>mm_inv m1\<close> assms(2,4) m1 by (simp add: mm_inv_def)
  moreover have "fst (mem_read b a n m2) = Ok d"
    using mem_read_hit_succeeds [of m2 a d b n] m2 assms(2,6) m1 by (simp add: mm_inv_def)
  moreover have "pages (mm_pages m1) (page_id a) = None"
    by (simp add: m1 free_page_def split: option.split)
  ultimately show ?thesis using m1 m2 by (simp add: permits_def)
qed

text \<open>A successful allocation takes as many pages as the size rounded up to whole pages, all of
  them zeroed and none of them live before, but records only the first: deallocating the
  address gives one page back, and all others stay live for ever.\<close>

theorem allocation_leaks_pages:
  assumes "mm_inv m" and "unat sz + unat (page_size (mm_pages m)) < 2 ^ 64"
    and "allocate_body b now now' el sz st m = (Ok a, m1)" and "deallocate b a m1 = (Ok (), m2)"
  shows "\<exists>ids. length ids =
      (unat sz + unat (page_size (mm_pages m)) - 1) div unat (page_size (mm_pages m)) \<and>
    distinct ids \<and> set ids \<inter> dom (pages (mm_pages m)) = {} \<and> page_id a = hd ids \<and> ids \<noteq> [] \<and>
    (\<forall>i. pages (mm_pages m2) i =
       (if i \<in> set (tl ids) then Some (zero_page (mm_pages m)) else pages (mm_pages m) i))"
proof -
  from wp_Ok [OF allocate_spec [OF assms(1)] assms(3)] obtain ids where
    ids: "ids \<noteq> []" "page_id a = hd ids" "distinct ids" "length ids < 2 ^ 64"
      "page_count b (page_size (mm_pages m)) sz = Some (of_nat (length ids))"
      "set ids \<inter> dom (pages (mm_pages m)) = {}"
    and m1: "pages (mm_pages m1) =
      (\<lambda>i. if i \<in> set ids then Some (zero_page (mm_pages m)) else pages (mm_pages m) i)"
    by (auto simp: allocated_def)
  have "mm_pages m2 = snd (free_page (page_id a) (mm_pages m1))"
    using wp_Ok [OF deallocate_spec assms(4)] by auto
  then have "pages (mm_pages m2) = (pages (mm_pages m1))(page_id a := None)"
    by (auto simp: free_page_def split: option.split)
  moreover obtain i is' where "ids = i # is'" using ids(1) by (cases ids) auto
  moreover have "pages (mm_pages m) i = None"
    using ids(6) \<open>ids = i # is'\<close> by auto
  ultimately have "\<forall>j. pages (mm_pages m2) j =
      (if j \<in> set (tl ids) then Some (zero_page (mm_pages m)) else pages (mm_pages m) j)"
    using ids m1 by auto
  moreover have "length ids =
      (unat sz + unat (page_size (mm_pages m)) - 1) div unat (page_size (mm_pages m))"
    using page_count_ceiling [OF ids(5) assms(2)] ids(4)
    by (simp add: unsigned_of_nat take_bit_nat_eq_self)
  ultimately show ?thesis using ids by blast
qed

section \<open>Witnesses\<close>

text \<open>A manager with one live segment of one page, whose address is cached.\<close>

definition sample_addr :: mem_address where
  "sample_addr = \<lparr>segment_id = 0, page_id = 0, addr_offset = 0\<rparr>"

definition sample_manager :: memory_manager where
  "sample_manager =
     \<lparr>mm_pages = \<lparr>pages = [0 \<mapsto> \<lparr>page_data = [7, 7, 7, 7], flags = page_flags_default\<rparr>],
        free_pages = [], page_size = 4, next_page_id = 1\<rparr>,
      mm_segments = [plain_segment], mm_permissions = [sample_addr \<mapsto> perms_default],
      mm_gc = gc_new 1000,
      mm_cache = \<lparr>capacity = 2, cached = [sample_addr \<mapsto> [7, 7]], lru = [sample_addr]\<rparr>,
      mm_stats = \<lparr>total_allocations = 0, total_deallocations = 0, page_faults = 0,
                  cache_hits = 0, cache_misses = 0\<rparr>\<rparr>"

lemma sample_manager_inv: "mm_inv sample_manager"
proof -
  have "{i. i < (1 :: u32)} = {0}" by (auto simp: word_less_nat_alt word_unat_eq_iff)
  then show ?thesis
    by (auto simp: mm_inv_def pt_inv_def queue_covers_def sample_manager_def gc_new_def)
qed

definition freed_manager :: memory_manager where
  "freed_manager = snd (deallocate Release sample_addr sample_manager)"

lemma sample_deallocate: "deallocate Release sample_addr sample_manager = (Ok (), freed_manager)"
  by (simp add: freed_manager_def deallocate_def andthen_def zoom_def free_page_def count_def
      sample_manager_def sample_addr_def)

lemma freed_manager_eq:
  "freed_manager = sample_manager\<lparr>
     mm_pages := \<lparr>pages = Map.empty, free_pages = [0], page_size = 4, next_page_id = 1\<rparr>,
     mm_segments := [], mm_permissions := Map.empty,
     mm_stats := (mm_stats sample_manager)\<lparr>total_deallocations := 1\<rparr>\<rparr>"
  by (simp add: freed_manager_def deallocate_def andthen_def zoom_def free_page_def count_def
      sample_manager_def sample_addr_def remove_at_def)

lemma sample_allocate:
  "\<exists>m2. allocate_body Release 0 0 0 4 Heap freed_manager = (Ok sample_addr, m2) \<and>
     cache_hits (mm_stats m2) = 0"
  by (simp add: allocate_body_def allocate_segment_def andthen_def zoom_def count_def
      should_collect_garbage_def total_size_def segment_new_def segment_limits_def lift_outcome_def
      pages_needed_def take_page_id_def allocate_page_def index_def vec_pop_def Let_def
      freed_manager_eq sample_manager_def sample_addr_def gc_new_def)

theorem read_own_write_witness:
  "\<exists>m1 m2. mem_write Debug sample_addr [1, 2, 3] sample_manager = (Ok (), m1) \<and>
     mem_read Debug sample_addr 3 m1 = (Ok [1, 2, 3], m2) \<and>
     fst (mem_read Debug sample_addr 4 m2) = Ok [1, 2, 3]"
  using read_own_write [OF sample_manager_inv, of sample_addr _ "[1, 2, 3]" Debug]
  by (auto simp: sample_manager_def sample_addr_def permits_def perms_default_def perms_READ_WRITE_def
      has_permission_def page_flags_default_def)

theorem protect_enforcement_witness:
  "fst (mem_write Debug sample_addr [1] (snd (protect sample_addr perms_NONE sample_manager))) =
     Err (PermissionDenied 0) \<and>
   fst (mem_read Debug sample_addr 2 (snd (protect sample_addr perms_NONE sample_manager))) =
     Ok [7, 7]"
  using protect_enforcement [OF sample_manager_inv, of sample_addr perms_NONE
      "snd (protect sample_addr perms_NONE sample_manager)" Debug "[1]" 2]
  by (simp add: protect_def sample_manager_def sample_addr_def perms_NONE_def has_permission_def)

theorem stale_read_after_free_witness:
  "\<exists>m2. allocate_body Release 0 0 0 4 Heap freed_manager = (Ok sample_addr, m2) \<and>
     fst (mem_read Release sample_addr 4 m2) = Ok [7, 7]"
proof -
  obtain m2 where m2: "allocate_body Release 0 0 0 4 Heap freed_manager = (Ok sample_addr, m2)"
    "cache_hits (mm_stats m2) = 0"
    using sample_allocate by blast
  have "cached (mm_cache sample_manager) sample_addr = Some [7, 7]"
    "cache_hits (mm_stats sample_manager) \<noteq> - 1"
    by (simp_all add: sample_manager_def)
  from stale_read_after_free [OF sample_manager_inv this(1) sample_deallocate this(2) m2(1)] m2
  show ?thesis by auto
qed

lemma allocate_pages_numeral:
  "allocate_pages (numeral k) =
     andthen allocate_page (\<lambda>i. andthen (allocate_pages (pred_numeral k)) (\<lambda>is. ret (i # is)))"
  by (simp add: numeral_eq_Suc)

lemma sample_allocate_three:
  "\<exists>a m1. allocate_body Release 0 0 0 9 Heap freed_manager = (Ok a, m1) \<and> segment_id a = 0 \<and>
     length (mm_segments m1) = 1"
  by (simp add: allocate_body_def allocate_segment_def andthen_def zoom_def count_def
      should_collect_garbage_def total_size_def segment_new_def segment_limits_def lift_outcome_def
      pages_needed_def take_page_id_def allocate_page_def index_def vec_pop_def Let_def
      allocate_pages_numeral checked_add_u_def freed_manager_eq sample_manager_def gc_new_def)

theorem allocation_leaks_pages_witness:
  "\<exists>a m1 m2 i. allocate_body Release 0 0 0 9 Heap freed_manager = (Ok a, m1) \<and>
     deallocate Release a m1 = (Ok (), m2) \<and>
     pages (mm_pages freed_manager) i = None \<and> pages (mm_pages m2) i \<noteq> None"
proof -
  obtain a m1 where al: "allocate_body Release 0 0 0 9 Heap freed_manager = (Ok a, m1)"
    and seg: "segment_id a = 0" "length (mm_segments m1) = 1"
    using sample_allocate_three by blast
  obtain r m2 where de: "deallocate Release a m1 = (r, m2)" by fastforce
  have "r = Ok ()"
    using deallocate_spec [of Release a m1] de seg by (cases r) (auto simp: wp_def)
  with de have de: "deallocate Release a m1 = (Ok (), m2)" by simp
  have "mm_inv freed_manager"
    by (rule deallocate_inv [OF sample_manager_inv sample_deallocate])
  moreover have "unat (9 :: usize) + unat (page_size (mm_pages freed_manager)) < 2 ^ 64"
    by (simp add: freed_manager_eq)
  moreover note al de
  ultimately obtain ids where "length ids =
      (unat (9 :: usize) + unat (page_size (mm_pages freed_manager)) - 1) div
        unat (page_size (mm_pages freed_manager))" "distinct ids"
    "set ids \<inter> dom (pages (mm_pages freed_manager)) = {}"
    "\<forall>i. pages (mm_pages m2) i = (if i \<in> set (tl ids) then Some (zero_page (mm_pages freed_manager))
       else pages (mm_pages freed_manager) i)"
    by (rule allocation_leaks_pages [THEN exE]) auto
  moreover from this have "length ids = 3" by (simp add: freed_manager_eq)
  then obtain i j k where "ids = [i, j, k]"
    by (auto simp: numeral_3_eq_3 length_Suc_conv)
  ultimately have "pages (mm_pages freed_manager) j = None" "pages (mm_pages m2) j \<noteq> None"
    by auto
  with al de show ?thesis by blast
qed

end
