(* ===== verification/Memory_Concurrency.thy ===== *)
theory Memory_Concurrency
  imports Memory_Properties
begin

text \<open>
  The memory manager used by any number of threads (\<open>src/memory/mod.rs\<close>). A thread that is inside \<open>read\<close>
  or \<open>write\<close> is a pending task; the steps of all tasks interleave. Between its steps a reader holds no
  lock, and a writer that has changed the page keeps the page table locked until it has invalidated the
  cache: in that time nobody else gets at the page table, but the cache can be looked up. The other calls
  hold their locks to the end and are one step each. \<open>allocate_body\<close> stands in for \<open>allocate\<close>, which never
  returns: with it, more states are reached than the code can reach.
\<close>

section \<open>Steps of threads\<close>

datatype mem_call =
    CallAllocate usize segment_type
  | CallDeallocate mem_address
  | CallRead mem_address usize
  | CallWrite mem_address "u8 list"
  | CallProtect mem_address access_permissions

text \<open>Where a thread stands: its lookup missed; the miss is counted; reading is permitted; writing is
  permitted; the page is written and the cache still to be invalidated.\<close>

datatype mem_task =
    Missed mem_address usize
  | Counted mem_address usize
  | Permitted mem_address usize
  | Writing mem_address "u8 list"
  | Flushing mem_address

definition pages_unlocked :: "mem_task list \<Rightarrow> bool" where
  "pages_unlocked ts \<longleftrightarrow> (\<forall>a. Flushing a \<notin> set ts)"

text \<open>\<open>may ts c\<close> says which calls may begin while the tasks \<open>ts\<close> are pending; it describes the threads. No
  call panics.\<close>

inductive conc_step ::
  "build \<Rightarrow> (mem_task list \<Rightarrow> mem_call \<Rightarrow> bool) \<Rightarrow> memory_manager \<Rightarrow> mem_task list \<Rightarrow>
   memory_manager \<Rightarrow> mem_task list \<Rightarrow> bool" for b may where
  conc_allocate: "may ts (CallAllocate sz st) \<Longrightarrow> pages_unlocked ts \<Longrightarrow>
     allocate_body b now now' el sz st m = (r, m') \<Longrightarrow> \<forall>p. r \<noteq> Panic p \<Longrightarrow> conc_step b may m ts m' ts"
| conc_deallocate: "may ts (CallDeallocate a) \<Longrightarrow> pages_unlocked ts \<Longrightarrow>
     deallocate b a m = (Ok (), m') \<Longrightarrow> conc_step b may m ts m' ts"
| conc_protect: "may ts (CallProtect a perms) \<Longrightarrow> protect a perms m = (Ok (), m') \<Longrightarrow> conc_step b may m ts m' ts"
| conc_hit: "may ts (CallRead a sz) \<Longrightarrow> mem_lookup b a m = (Ok (Some d), m') \<Longrightarrow> conc_step b may m ts m' ts"
| conc_miss: "may ts (CallRead a sz) \<Longrightarrow> mem_lookup b a m = (Ok None, m') \<Longrightarrow>
     conc_step b may m ts m' (Missed a sz # ts)"
| conc_count: "mem_miss b m = (Ok (), m') \<Longrightarrow>
     conc_step b may m (us @ Missed a sz # vs) m' (us @ Counted a sz # vs)"
| conc_check: "check_permissions a PermRead m = (r, m') \<Longrightarrow>
     conc_step b may m (us @ Counted a sz # vs) m' (us @ (if r = Ok () then [Permitted a sz] else []) @ vs)"
| conc_fill: "pages_unlocked (us @ vs) \<Longrightarrow> mem_fill b a sz m = (r, m') \<Longrightarrow> \<forall>p. r \<noteq> Panic p \<Longrightarrow>
     conc_step b may m (us @ Permitted a sz # vs) m' (us @ vs)"
| conc_write: "may ts (CallWrite a data) \<Longrightarrow> length data < 2 ^ 63 \<Longrightarrow>
     check_permissions a PermWrite m = (r, m') \<Longrightarrow>
     conc_step b may m ts m' ((if r = Ok () then [Writing a data] else []) @ ts)"
| conc_put: "pages_unlocked (us @ vs) \<Longrightarrow> mem_put b a data m = (r, m') \<Longrightarrow> \<forall>p. r \<noteq> Panic p \<Longrightarrow>
     conc_step b may m (us @ Writing a data # vs) m' (us @ (if r = Ok () then [Flushing a] else []) @ vs)"
| conc_flush: "mem_invalidate a m = (Ok (), m') \<Longrightarrow>
     conc_step b may m (us @ Flushing a # vs) m' (us @ vs)"

inductive conc_reachable ::
  "build \<Rightarrow> (mem_task list \<Rightarrow> mem_call \<Rightarrow> bool) \<Rightarrow> memory_config \<Rightarrow> memory_manager \<Rightarrow> mem_task list \<Rightarrow> bool"
  for b may config where
  conc_new: "conc_reachable b may config (memory_manager_new config) []"
| conc_more: "conc_reachable b may config m ts \<Longrightarrow> conc_step b may m ts m' ts' \<Longrightarrow>
     conc_reachable b may config m' ts'"

text \<open>A thread that is not interrupted runs the whole of \<open>read\<close>, and of \<open>write\<close>.\<close>

lemma uninterrupted_read:
  assumes "mem_read b a sz m = (Ok d, m')" and "may ts (CallRead a sz)" and "pages_unlocked ts"
  shows "\<exists>m1 ts1 m2 ts2 m3 ts3. conc_step b may m ts m1 ts1 \<and>
    (m1 = m' \<and> ts1 = ts \<or> conc_step b may m1 ts1 m2 ts2 \<and> conc_step b may m2 ts2 m3 ts3 \<and>
       conc_step b may m3 ts3 m' ts)"
proof -
  from assms(1) obtain x m1 where look: "mem_lookup b a m = (Ok x, m1)"
    and rest: "(case x of Some data \<Rightarrow> ret data | None \<Rightarrow> andthen (mem_miss b) (\<lambda>_.
         andthen (check_permissions a PermRead) (\<lambda>_. mem_fill b a sz))) m1 = (Ok d, m')"
    by (auto simp: mem_read_def comp_Ok_iffs)
  show ?thesis
  proof (cases x)
    case (Some d')
    with rest look have "conc_step b may m ts m' ts"
      using conc_step.conc_hit [where may = may and ts = ts and d = d', OF assms(2)] by (simp add: ret_def)
    then show ?thesis by blast
  next
    case None
    with rest obtain m2 m3 where steps: "mem_miss b m1 = (Ok (), m2)"
      "check_permissions a PermRead m2 = (Ok (), m3)" "mem_fill b a sz m3 = (Ok d, m')"
      by (auto simp: comp_Ok_iffs)
    have "conc_step b may m ts m1 (Missed a sz # ts)"
      using look None conc_step.conc_miss [where may = may and ts = ts, OF assms(2)] by simp
    moreover have "conc_step b may m1 (Missed a sz # ts) m2 (Counted a sz # ts)"
      using conc_count [OF steps(1), of may "[]"] by simp
    moreover have "conc_step b may m2 (Counted a sz # ts) m3 (Permitted a sz # ts)"
      using conc_check [OF steps(2), of b may "[]"] by simp
    moreover have "conc_step b may m3 (Permitted a sz # ts) m' ts"
      using conc_fill [OF _ steps(3), of "[]" ts may] assms(3) by simp
    ultimately show ?thesis by blast
  qed
qed

lemma uninterrupted_write:
  assumes "mem_write b a data m = (Ok (), m')" and "may ts (CallWrite a data)" and "pages_unlocked ts"
    and "length data < 2 ^ 63"
  shows "\<exists>m1 m2. conc_step b may m ts m1 (Writing a data # ts) \<and>
    conc_step b may m1 (Writing a data # ts) m2 (Flushing a # ts) \<and> conc_step b may m2 (Flushing a # ts) m' ts"
proof -
  from assms(1) obtain m1 m2 where steps: "check_permissions a PermWrite m = (Ok (), m1)"
    "mem_put b a data m1 = (Ok (), m2)" "mem_invalidate a m2 = (Ok (), m')"
    by (auto simp: mem_write_def comp_Ok_iffs)
  have "conc_step b may m ts m1 (Writing a data # ts)"
    using conc_write [where may = may and ts = ts, OF assms(2,4) steps(1)] by simp
  moreover have "conc_step b may m1 (Writing a data # ts) m2 (Flushing a # ts)"
    using conc_put [OF _ steps(2), of "[]" ts may] assms(3) by simp
  moreover have "conc_step b may m2 (Flushing a # ts) m' ts"
    using conc_flush [OF steps(3), of b may "[]"] by simp
  ultimately show ?thesis by blast
qed

lemma reachable_read:
  assumes "conc_reachable b may config m ts" and "mem_read b a sz m = (Ok d, m')"
    and "may ts (CallRead a sz)" and "pages_unlocked ts"
  shows "conc_reachable b may config m' ts"
  using uninterrupted_read [where may = may, OF assms(2-4)] assms(1) by (blast intro: conc_more)

lemma reachable_write:
  assumes "conc_reachable b may config m ts" and "mem_write b a data m = (Ok (), m')"
    and "may ts (CallWrite a data)" and "pages_unlocked ts" and "length data < 2 ^ 63"
  shows "conc_reachable b may config m' ts"
  using uninterrupted_write [where may = may, OF assms(2-5)] assms(1) by (blast intro: conc_more)

section \<open>The invariant in every interleaving\<close>

lemma check_permissions_reads: "check_permissions a r m = (x, m') \<Longrightarrow> m' = m"
proof -
  assume run: "check_permissions a r m = (x, m')"
  have "wp (check_permissions a r) (\<lambda>_ m'. m' = m) (\<lambda>_ m'. m' = m) (\<lambda>_ m'. m' = m) m"
    by (simp add: wp_check_permissions)
  from wp_all [OF this run] show "m' = m" .
qed

lemma mem_miss_effect: "mem_miss b m = (Ok (), m') \<Longrightarrow> m' = note_miss m"
proof -
  assume run: "mem_miss b m = (Ok (), m')"
  have "wp (mem_miss b) (\<lambda>_ m'. m' = note_miss m) (\<lambda>_ _. True) (\<lambda>_ _. True) m"
    by (simp add: mem_miss_def wp_simps)
  from wp_Ok [OF this run] show "m' = note_miss m" .
qed

lemma mem_invalidate_effect:
  "mem_invalidate a m = (Ok (), m') \<Longrightarrow> m' = m\<lparr>mm_cache := lru_remove a (mm_cache m)\<rparr>"
  by (simp add: mem_invalidate_def zoom_def)

lemma mem_lookup_effect:
  assumes "queue_covers (mm_cache m)" and "mem_lookup b a m = (Ok x, m')"
  shows "x = cached (mm_cache m) a" and "mm_cache m' = snd (lru_get a (mm_cache m))"
    and "mm_pages m' = mm_pages m" and "mm_gc m' = mm_gc m" and "cached (mm_cache m') = cached (mm_cache m)"
proof -
  have "wp (mem_lookup b a) (\<lambda>x m'. x = cached (mm_cache m) a \<and> mm_cache m' = snd (lru_get a (mm_cache m)) \<and>
      mm_pages m' = mm_pages m \<and> mm_gc m' = mm_gc m) (\<lambda>_ _. True) (\<lambda>_ _. True) m"
    by (simp add: wp_mem_lookup [OF assms(1)] split: option.split)
  from wp_Ok [OF this assms(2)]
  show "x = cached (mm_cache m) a" "mm_cache m' = snd (lru_get a (mm_cache m))"
    "mm_pages m' = mm_pages m" "mm_gc m' = mm_gc m" by simp_all
  then show "cached (mm_cache m') = cached (mm_cache m)"
    by (simp add: lru_get_covered [OF assms(1)])
qed

lemma lookup_cache:
  assumes "mem_lookup b a m = (Ok x, m')"
  shows "mm_cache m' = snd (lru_get a (mm_cache m))"
proof -
  have "wp (mem_lookup b a) (\<lambda>_ m'. mm_cache m' = snd (lru_get a (mm_cache m))) (\<lambda>_ _. True) (\<lambda>_ _. True) m"
    by (simp add: mem_lookup_def wp_andthen wp_def [of "on_cache _"] cache_lookup)
      (auto simp: wp_simps split: option.split)
  from wp_Ok [OF this assms] show ?thesis .
qed

text \<open>A fill that returns inserted what it read, or changed nothing.\<close>

lemma mem_fill_effect:
  assumes "mem_fill b a sz m = (r, m')" and "\<forall>p. r \<noteq> Panic p"
  shows "(\<exists>d. r = Ok d \<and>
      pt_read b (page_id a) (ucast (addr_offset a)) sz (mm_pages m) = (Ok d, mm_pages m) \<and>
      m' = m\<lparr>mm_cache := lru_insert a d (mm_cache m)\<rparr>) \<or> (\<exists>e. r = Err e) \<and> m' = m"
proof (cases r)
  case (Ok d)
  with wp_Ok [OF mem_fill_spec] assms show ?thesis by fastforce
next
  case (Err e)
  with wp_Err [OF mem_fill_spec] assms show ?thesis by fastforce
qed (use assms in auto)

lemma mem_put_effect:
  assumes "mem_put b a data m = (r, m')" and "\<forall>p. r \<noteq> Panic p"
  shows "(\<exists>t. r = Ok () \<and> pt_write b (page_id a) (ucast (addr_offset a)) data (mm_pages m) = (Ok (), t) \<and>
      m' = m\<lparr>mm_pages := t\<rparr>) \<or> (\<exists>e. r = Err e) \<and> m' = m"
proof (cases r)
  case (Ok u)
  with wp_Ok [OF mem_put_spec] assms show ?thesis by fastforce
next
  case (Err e)
  with wp_Err [OF mem_put_spec] assms show ?thesis by fastforce
qed (use assms in auto)

text \<open>The tasks carry bounded data.\<close>

definition tasks_bounded :: "mem_task list \<Rightarrow> bool" where
  "tasks_bounded ts \<longleftrightarrow> (\<forall>a data. Writing a data \<in> set ts \<longrightarrow> length data < 2 ^ 63)"

lemma write_keeps_inv:
  "pt_inv t \<Longrightarrow> length data < 2 ^ 63 \<Longrightarrow> pt_write b i off data t = (Ok (), t') \<Longrightarrow> pt_inv t'"
  by (rule wp_Ok [OF pt_write_inv])

lemma tasks_bounded_simps [simp]:
  "tasks_bounded []"
  "tasks_bounded (t # ts) \<longleftrightarrow> (case t of Writing a d \<Rightarrow> length d < 2 ^ 63 | _ \<Rightarrow> True) \<and> tasks_bounded ts"
  "tasks_bounded (us @ vs) \<longleftrightarrow> tasks_bounded us \<and> tasks_bounded vs"
  by (auto simp: tasks_bounded_def split: mem_task.splits)

lemma conc_step_inv:
  "conc_step b may m ts m' ts' \<Longrightarrow> mm_inv m \<and> tasks_bounded ts \<Longrightarrow> mm_inv m' \<and> tasks_bounded ts'"
proof (induction rule: conc_step.induct)
  case (conc_allocate ts sz st now now' el m r m')
  then show ?case using allocate_inv by blast
next
  case (conc_deallocate ts a m m')
  then show ?case using deallocate_inv by blast
next
  case (conc_protect ts a perms m m')
  then show ?case by (auto simp: protect_def mm_inv_def)
next
  case (conc_hit ts a sz m d m')
  then show ?case using wp_Ok [OF mem_lookup_inv] by blast
next
  case (conc_miss ts a sz m m')
  then show ?case using wp_Ok [OF mem_lookup_inv] by (auto simp: tasks_bounded_def)
next
  case (conc_count m m' us a sz vs)
  then show ?case by (auto simp: tasks_bounded_def mm_inv_def dest!: mem_miss_effect)
next
  case (conc_check a m r m' us sz vs)
  then show ?case by (auto simp: tasks_bounded_def dest!: check_permissions_reads)
next
  case (conc_fill us vs a sz m r m')
  then show ?case using wp_all [OF mem_fill_inv] by (auto simp: tasks_bounded_def)
next
  case (conc_write ts a data m r m')
  then show ?case by (auto simp: tasks_bounded_def dest!: check_permissions_reads)
next
  case (conc_put us vs a data m r m')
  then have "length data < 2 ^ 63" by (auto simp: tasks_bounded_def)
  moreover have "pt_inv (mm_pages m)" using conc_put(4) by (simp add: mm_inv_def)
  ultimately show ?case
    using mem_put_effect [OF conc_put(2,3)] conc_put(4) write_keeps_inv
    by (auto simp: mm_inv_def)
next
  case (conc_flush a m m' us vs)
  then show ?case
    by (auto simp: tasks_bounded_def mm_inv_def lru_remove_covers dest!: mem_invalidate_effect)
qed

lemma conc_reachable_inv: "conc_reachable b may config m ts \<Longrightarrow> mm_inv m \<and> tasks_bounded ts"
  by (induction rule: conc_reachable.induct)
    (auto intro: mm_inv_new dest: conc_step_inv)

text \<open>The size of the cache never changes.\<close>

lemma capacity_kept:
  "capacity (snd (lru_get a c)) = capacity c" "capacity (lru_insert a d c) = capacity c"
  "capacity (lru_remove a c) = capacity c"
proof -
  show "capacity (snd (lru_get a c)) = capacity c"
    by (cases "position a (lru c)") (simp_all add: lru_get_def)
  have "capacity (evict c) = capacity c"
    by (cases "vec_pop (lru c)") (auto simp: evict_def)
  then show "capacity (lru_insert a d c) = capacity c" by (simp add: lru_insert_def Let_def)
  show "capacity (lru_remove a c) = capacity c" by (simp add: lru_remove_eq)
qed

lemma conc_step_capacity:
  assumes "conc_step b may m ts m' ts'"
  shows "capacity (mm_cache m') = capacity (mm_cache m)"
  using assms
proof (induction rule: conc_step.induct)
  case (conc_allocate ts sz st now now' el m r m')
  from preserves_state [OF allocate_keeps_cache refl conc_allocate(3)] show ?case by simp
next
  case (conc_hit ts a sz m d m')
  then show ?case using lookup_cache capacity_kept by metis
next
  case (conc_miss ts a sz m m')
  then show ?case using lookup_cache capacity_kept by metis
next
  case (conc_deallocate ts a m m')
  then show ?case by (auto dest!: wp_Ok [OF deallocate_spec])
next
  case (conc_protect ts a perms m m')
  then show ?case by (auto simp: protect_def)
next
  case (conc_fill us vs a sz m r m')
  from mem_fill_effect [OF conc_fill(2,3)] show ?case by (auto simp: capacity_kept)
next
  case (conc_put us vs a data m r m')
  from mem_put_effect [OF conc_put(2,3)] show ?case by auto
next
  case (conc_flush a m m' us vs)
  from mem_invalidate_effect [OF conc_flush(1)] show ?case by (simp add: capacity_kept)
qed (auto dest!: mem_miss_effect check_permissions_reads)

section \<open>Readers of different addresses\<close>

text \<open>The address that a pending reader is about to cache.\<close>

fun reads_address :: "mem_task \<Rightarrow> mem_address option" where
  "reads_address (Missed a sz) = Some a"
| "reads_address (Counted a sz) = Some a"
| "reads_address (Permitted a sz) = Some a"
| "reads_address t = None"

definition read_in_progress :: "mem_address \<Rightarrow> mem_task list \<Rightarrow> bool" where
  "read_in_progress a ts \<longleftrightarrow> (\<exists>t \<in> set ts. reads_address t = Some a)"

text \<open>Threads that never read an address that another is just reading: one thread alone, for example.\<close>

definition reads_apart :: "(mem_task list \<Rightarrow> mem_call \<Rightarrow> bool) \<Rightarrow> bool" where
  "reads_apart may \<longleftrightarrow> (\<forall>ts a sz. may ts (CallRead a sz) \<longrightarrow> \<not> read_in_progress a ts)"

definition apart_inv :: "memory_manager \<Rightarrow> mem_task list \<Rightarrow> bool" where
  "apart_inv m ts \<longleftrightarrow> lru_inv (mm_cache m) \<and> distinct (List.map_filter reads_address ts) \<and>
     set (List.map_filter reads_address ts) \<inter> dom (cached (mm_cache m)) = {}"

lemma set_reading: "set (List.map_filter reads_address ts) = {a. read_in_progress a ts}"
  by (force simp: List.map_filter_def read_in_progress_def)

lemma map_filter_append: "List.map_filter f (xs @ ys) = List.map_filter f xs @ List.map_filter f ys"
  by (simp add: List.map_filter_def)

lemmas reading_simps = map_filter_append List.map_filter_simps

lemma apart_step:
  assumes "conc_step b may m ts m' ts'" and "reads_apart may" and "mm_inv m" and "apart_inv m ts"
  shows "apart_inv m' ts'"
  using assms
proof (induction rule: conc_step.induct)
  case (conc_allocate ts sz st now now' el m r m')
  from preserves_state [OF allocate_keeps_cache refl conc_allocate(3)] conc_allocate
  show ?case by (simp add: apart_inv_def)
next
  case (conc_deallocate ts a m m')
  then show ?case by (auto simp: apart_inv_def dest!: wp_Ok [OF deallocate_spec])
next
  case (conc_protect ts a perms m m')
  then show ?case by (auto simp: apart_inv_def protect_def)
next
  case (conc_hit ts a sz m d m')
  then have q: "queue_covers (mm_cache m)" "lru_inv (mm_cache m)" by (simp_all add: mm_inv_def apart_inv_def)
  with mem_lookup_effect [OF q(1) conc_hit(2)] conc_hit show ?case
    by (simp add: apart_inv_def lru_get_inv)
next
  case (conc_miss ts a sz m m')
  then have q: "queue_covers (mm_cache m)" "lru_inv (mm_cache m)" by (simp_all add: mm_inv_def apart_inv_def)
  with mem_lookup_effect [OF q(1) conc_miss(2)] conc_miss show ?case
    by (auto simp: apart_inv_def lru_get_inv reads_apart_def reading_simps set_reading)
next
  case (conc_count m m' us a sz vs)
  then show ?case by (auto simp: apart_inv_def reading_simps dest!: mem_miss_effect)
next
  case (conc_check a m r m' us sz vs)
  then show ?case by (auto simp: apart_inv_def reading_simps dest!: check_permissions_reads)
next
  case (conc_fill us vs a sz m r m')
  from mem_fill_effect [OF conc_fill(2,3)] show ?case
  proof
    assume "\<exists>d. r = Ok d \<and>
      pt_read b (page_id a) (ucast (addr_offset a)) sz (mm_pages m) = (Ok d, mm_pages m) \<and>
      m' = m\<lparr>mm_cache := lru_insert a d (mm_cache m)\<rparr>"
    then obtain d where m': "m' = m\<lparr>mm_cache := lru_insert a d (mm_cache m)\<rparr>" by blast
    have inv: "queue_covers (mm_cache m)" "lru_inv (mm_cache m)" "a \<notin> dom (cached (mm_cache m))"
      using conc_fill by (auto simp: mm_inv_def apart_inv_def reading_simps)
    then have "dom (cached (lru_insert a d (mm_cache m))) \<subseteq> insert a (dom (cached (mm_cache m)))"
      by (auto simp: lru_insert_eq split: if_splits)
    moreover have "lru_inv (lru_insert a d (mm_cache m))" using inv by (simp add: lru_insert_inv)
    ultimately show ?thesis
      using conc_fill(6) by (auto simp: m' apart_inv_def reading_simps)
  next
    assume "(\<exists>e. r = Err e) \<and> m' = m"
    with conc_fill(6) show ?thesis by (auto simp: apart_inv_def reading_simps)
  qed
next
  case (conc_write ts a data m r m')
  then show ?case by (auto simp: apart_inv_def reading_simps dest!: check_permissions_reads)
next
  case (conc_put us vs a data m r m')
  with mem_put_effect [OF conc_put(2,3)] show ?case by (auto simp: apart_inv_def reading_simps)
next
  case (conc_flush a m m' us vs)
  from mem_invalidate_effect [OF conc_flush(1)] have "mm_cache m' = lru_remove a (mm_cache m)" by simp
  moreover have "dom (cached (lru_remove a (mm_cache m))) \<subseteq> dom (cached (mm_cache m))"
    by (auto simp: lru_remove_eq split: if_splits)
  ultimately show ?case using conc_flush(4) by (auto simp: apart_inv_def reading_simps lru_remove_inv)
qed

text \<open>C34: Whatever the calls and however the steps of the threads interleave, as long as no call panics:
  the page numbers stay partitioned into live and free ones, every cached address has its place in the
  queue of the cache, and the collector keeps no marks between calls. If moreover no thread reads an
  address while another is still reading it in, the queue holds exactly the cached addresses, each once,
  and there are never more of them than the configured size (or one, for the size 0).\<close>

theorem memory_manager_invariants:
  assumes "conc_reachable b may config m ts"
  shows "pt_inv (mm_pages m) \<and> marked (mm_gc m) = {} \<and>
    dom (cached (mm_cache m)) \<subseteq> set (lru (mm_cache m)) \<and>
    (reads_apart may \<longrightarrow> distinct (lru (mm_cache m)) \<and>
       set (lru (mm_cache m)) = dom (cached (mm_cache m)) \<and>
       map_len (cached (mm_cache m)) \<le> max 1 (unat (conf_cache_size config)))"
proof -
  have cap: "capacity (mm_cache m) = conf_cache_size config"
    using assms by (induction rule: conc_reachable.induct)
      (auto simp: memory_manager_new_def lru_new_def dest: conc_step_capacity)
  have "apart_inv m ts" if "reads_apart may"
    using assms
  proof (induction rule: conc_reachable.induct)
    case conc_new
    then show ?case
      by (simp add: apart_inv_def memory_manager_new_def lru_inv_new List.map_filter_def)
  next
    case (conc_more m ts m' ts')
    then show ?case using apart_step [OF _ that] conc_reachable_inv by blast
  qed
  then have "lru_inv (mm_cache m)" if "reads_apart may" using that by (simp add: apart_inv_def)
  with conc_reachable_inv [OF assms] cap show ?thesis
    by (auto simp: mm_inv_def queue_covers_def lru_len lru_inv_def)
qed

section \<open>Readers of the same address\<close>

lemma lookup_absent:
  assumes "lru_inv (mm_cache m)" and "cached (mm_cache m) a = None"
  shows "mem_lookup b a m = (Ok None, m)"
proof -
  have "looked a m = m" using assms by (simp add: lru_get_eq domIff)
  then show ?thesis
    unfolding wp_returns using assms by (simp add: wp_mem_lookup lru_inv_covers)
qed

lemma mem_miss_succeeds: "cache_misses (mm_stats m) \<noteq> - 1 \<Longrightarrow> mem_miss b m = (Ok (), note_miss m)"
  unfolding wp_returns by (simp add: mem_miss_def wp_simps)

lemma check_permissions_succeeds: "permits m a r \<Longrightarrow> check_permissions a r m = (Ok (), m)"
  unfolding wp_returns by (simp add: wp_simps)

lemma mem_fill_succeeds:
  assumes "pt_read b (page_id a) (ucast (addr_offset a)) sz (mm_pages m) = (Ok d, mm_pages m)"
  shows "mem_fill b a sz m = (Ok d, m\<lparr>mm_cache := lru_insert a d (mm_cache m)\<rparr>)"
  unfolding wp_returns by (rule wp_mono [OF mem_fill_spec]) (use assms in auto)

abbreviation conc_steps ::
  "build \<Rightarrow> (mem_task list \<Rightarrow> mem_call \<Rightarrow> bool) \<Rightarrow> memory_manager \<times> mem_task list \<Rightarrow>
   memory_manager \<times> mem_task list \<Rightarrow> bool" where
  "conc_steps b may \<equiv> (\<lambda>(m, ts) (m', ts'). conc_step b may m ts m' ts')\<^sup>*\<^sup>*"

lemma conc_steps_step:
  "conc_step b may m ts m' ts' \<Longrightarrow> conc_steps b may (m', ts') r \<Longrightarrow> conc_steps b may (m, ts) r"
  by (rule converse_rtranclp_into_rtranclp) auto

lemma inserted_twice:
  assumes "lru_inv c" and "cached c a = None" and "2 \<le> unat (capacity c)"
  shows "count_list (lru (lru_insert a d' (lru_insert a d c))) a = 2"
proof -
  let ?c = "lru_insert a d c"
  have inv: "lru_inv ?c" using assms by (simp add: lru_insert_inv domIff)
  obtain ks where ks: "lru ?c = a # ks" using assms(1) by (cases "length (lru c) < unat (capacity c) \<or> lru c = []") (auto simp: lru_insert_eq)
  have "length (lru ?c) < unat (capacity ?c) \<or> a \<noteq> last (lru ?c)"
  proof (cases ks)
    case Nil
    with assms(3) ks show ?thesis by (simp add: capacity_kept)
  next
    case (Cons j js)
    moreover have "a \<notin> set ks" using inv ks by (simp add: lru_inv_def)
    ultimately have "a \<noteq> last (lru ?c)" using ks last_in_set [of ks] by auto
    then show ?thesis by simp
  qed
  with insert_present [OF inv, of a d'] ks show ?thesis by simp
qed

lemma two_more:
  assumes "unat (x :: usize) + 2 < 2 ^ 64"
  shows "x \<noteq> - 1 \<and> x + 1 \<noteq> - 1"
proof -
  have "unat (x + 1) = unat x + 1" "unat (x + 2) = unat x + 2"
    using assms by (simp_all add: unat_add_no_wrap)
  then have "x + 1 \<noteq> 0" "x + 2 \<noteq> 0" by fastforce+
  moreover have "x = - 1 \<longleftrightarrow> x + 1 = 0" "x + 1 = - 1 \<longleftrightarrow> x + 2 = 0"
    by (simp_all add: eq_neg_iff_add_eq_0 add.commute)
  ultimately show ?thesis by blast
qed


section \<open>Witnesses\<close>

text \<open>One thread that allocates a page, writes to it and reads it back.\<close>

abbreviation sample_config :: memory_config where
  "sample_config \<equiv> \<lparr>conf_page_size = 4, conf_gc_threshold = 9, conf_cache_size = 2\<rparr>"

fun one_thread :: "mem_task list \<Rightarrow> mem_call \<Rightarrow> bool" where
  "one_thread ts (CallRead a sz) \<longleftrightarrow> ts = [] \<and> a = sample_addr \<and> sz = 2"
| "one_thread ts (CallWrite a data) \<longleftrightarrow> ts = [] \<and> a = sample_addr"
| "one_thread ts (CallDeallocate a) \<longleftrightarrow> False"
| "one_thread ts c \<longleftrightarrow> ts = []"

lemma sample_calls:
  "\<exists>m1 m2 m3. allocate_body Release 0 0 0 4 Heap (memory_manager_new sample_config) = (Ok sample_addr, m1) \<and>
     mem_write Release sample_addr [5, 6] m1 = (Ok (), m2) \<and>
     mem_read Release sample_addr 2 m2 = (Ok [5, 6], m3) \<and> cached (mm_cache m3) sample_addr = Some [5, 6] \<and>
     mm_stats m3 = \<lparr>total_allocations = 1, total_deallocations = 0, page_faults = 0,
       cache_hits = 0, cache_misses = 1\<rparr>"
  by (simp add: allocate_body_def allocate_segment_def andthen_def zoom_def count_def
      should_collect_garbage_def total_size_def segment_new_def segment_limits_def lift_outcome_def
      pages_needed_def take_page_id_def allocate_page_def index_def vec_pop_def Let_def
      checked_add_u_def memory_manager_new_def gc_new_def pt_new_def lru_new_def sample_addr_def
      mem_read_def mem_lookup_def mem_miss_def mem_fill_def mem_write_def mem_put_def mem_invalidate_def
      lru_get_def lru_insert_def lru_remove_def evict_def check_permissions_def
      perms_default_def perms_READ_WRITE_def has_permission_def pt_read_def pt_write_def vec_slice_def
      overwrite_def page_flags_default_def)

lemma sample_reached:
  "\<exists>m. conc_reachable Release one_thread sample_config m [] \<and> cached (mm_cache m) sample_addr = Some [5, 6] \<and>
     mm_stats m = \<lparr>total_allocations = 1, total_deallocations = 0, page_faults = 0,
       cache_hits = 0, cache_misses = 1\<rparr>"
proof -
  obtain m1 m2 m3 where
    calls: "allocate_body Release 0 0 0 4 Heap (memory_manager_new sample_config) = (Ok sample_addr, m1)"
      "mem_write Release sample_addr [5, 6] m1 = (Ok (), m2)" "mem_read Release sample_addr 2 m2 = (Ok [5, 6], m3)"
    and m3: "cached (mm_cache m3) sample_addr = Some [5, 6]"
      "mm_stats m3 = \<lparr>total_allocations = 1, total_deallocations = 0, page_faults = 0,
         cache_hits = 0, cache_misses = 1\<rparr>"
    using sample_calls by blast
  have "conc_step Release one_thread (memory_manager_new sample_config) [] m1 []"
    by (rule conc_allocate [OF _ _ calls(1)]) (simp_all add: pages_unlocked_def)
  then have "conc_reachable Release one_thread sample_config m1 []" by (rule conc_more [OF conc_new])
  from reachable_write [OF this calls(2)] have "conc_reachable Release one_thread sample_config m2 []"
    by (simp add: pages_unlocked_def)
  from reachable_read [OF this calls(3)] have "conc_reachable Release one_thread sample_config m3 []"
    by (simp add: pages_unlocked_def)
  with m3 show ?thesis by blast
qed

lemma one_thread_apart: "reads_apart one_thread"
  by (simp add: reads_apart_def read_in_progress_def)

text \<open>The sample manager with an empty cache.\<close>

definition uncached_manager :: memory_manager where
  "uncached_manager = sample_manager\<lparr>mm_cache := \<lparr>capacity = 2, cached = Map.empty, lru = []\<rparr>\<rparr>"

theorem memory_manager_invariants_witness:
  "\<exists>m. conc_reachable Release one_thread sample_config m [] \<and> cached (mm_cache m) sample_addr = Some [5, 6] \<and>
     pt_inv (mm_pages m) \<and> distinct (lru (mm_cache m)) \<and> set (lru (mm_cache m)) = dom (cached (mm_cache m)) \<and>
     map_len (cached (mm_cache m)) \<le> 2"
proof -
  obtain m where m: "conc_reachable Release one_thread sample_config m []"
    "cached (mm_cache m) sample_addr = Some [5, 6]"
    using sample_reached by blast
  from memory_manager_invariants [OF m(1)] one_thread_apart m show ?thesis by auto
qed


end
