(* ===== verification/Memory_Coherence.thy ===== *)
theory Memory_Coherence
  imports Memory_Concurrency
begin

text \<open>
  When the cache of the memory manager tells the truth. The manager invalidates only the exact
  address it writes, a hit ignores the requested size, and deallocation leaves the cache alone. This theory
  shows that threads which use at most one address per page, read each address at one size and do not
  deallocate never notice the cache, however their steps interleave: a read returns what the page table
  returns at that moment. The proof is the \<open>coherent\<close> part of the interface \<open>cache\<close>, applied to the
  manager's cache.
\<close>

text \<open>What the page table answers, the cache aside.\<close>

definition table_read :: "build \<Rightarrow> mem_address \<Rightarrow> usize \<Rightarrow> memory_manager \<Rightarrow> (mem_error, u8 list) outcome" where
  "table_read b a sz m = fst (pt_read b (page_id a) (ucast (addr_offset a)) sz (mm_pages m))"

text \<open>Threads that keep to the addresses of \<open>A\<close> and to their sizes.\<close>

fun tidy_call :: "mem_address set \<Rightarrow> (mem_address \<Rightarrow> usize) \<Rightarrow> mem_call \<Rightarrow> bool" where
  "tidy_call A size_of (CallRead a sz) \<longleftrightarrow> a \<in> A \<and> sz = size_of a"
| "tidy_call A size_of (CallWrite a data) \<longleftrightarrow> a \<in> A"
| "tidy_call A size_of (CallDeallocate a) \<longleftrightarrow> False"
| "tidy_call A size_of c \<longleftrightarrow> True"

fun tidy_task :: "mem_address set \<Rightarrow> (mem_address \<Rightarrow> usize) \<Rightarrow> mem_task \<Rightarrow> bool" where
  "tidy_task A size_of (Missed a sz) \<longleftrightarrow> a \<in> A \<and> sz = size_of a"
| "tidy_task A size_of (Counted a sz) \<longleftrightarrow> a \<in> A \<and> sz = size_of a"
| "tidy_task A size_of (Permitted a sz) \<longleftrightarrow> a \<in> A \<and> sz = size_of a"
| "tidy_task A size_of (Writing a data) \<longleftrightarrow> a \<in> A"
| "tidy_task A size_of (Flushing a) \<longleftrightarrow> True"

text \<open>No two addresses in use lie on one page.\<close>

definition tidy ::
  "mem_address set \<Rightarrow> (mem_address \<Rightarrow> usize) \<Rightarrow> (mem_task list \<Rightarrow> mem_call \<Rightarrow> bool) \<Rightarrow> bool" where
  "tidy A size_of may \<longleftrightarrow> inj_on page_id A \<and> (\<forall>ts c. may ts c \<longrightarrow> tidy_call A size_of c)"

lemma tidyD: "tidy A size_of may \<Longrightarrow> may ts c \<Longrightarrow> tidy_call A size_of c"
  by (simp add: tidy_def)

definition answers ::
  "build \<Rightarrow> mem_address set \<Rightarrow> (mem_address \<Rightarrow> usize) \<Rightarrow> memory_manager \<Rightarrow> mem_task list \<Rightarrow>
   mem_address \<Rightarrow> u8 list \<Rightarrow> bool" where
  "answers b A size_of m ts a d \<longleftrightarrow>
     a \<in> A \<and> (Flushing a \<in> set ts \<or> table_read b a (size_of a) m = Ok d)"

definition truthful ::
  "build \<Rightarrow> mem_address set \<Rightarrow> (mem_address \<Rightarrow> usize) \<Rightarrow> memory_manager \<Rightarrow> mem_task list \<Rightarrow> bool" where
  "truthful b A size_of m ts \<longleftrightarrow>
     list_all (tidy_task A size_of) ts \<and> lru.coherent (answers b A size_of m ts) (mm_cache m)"

lemmas coherent_iff = cache.coherent_def [OF lru.cache_axioms]

lemma table_read_cong:
  assumes "pages (mm_pages m') (page_id a) = pages (mm_pages m) (page_id a)"
    and "page_size (mm_pages m') = page_size (mm_pages m)"
  shows "table_read b a sz m' = table_read b a sz m"
  using assms
  by (simp add: table_read_def pt_read_def andthen_def ok_or_def guard_err_def or_panic_def
      split: option.split)

lemma table_read_live:
  assumes "table_read b a sz m = Ok d"
  shows "\<exists>pg. pages (mm_pages m) (page_id a) = Some pg"
  using assms by (cases "pages (mm_pages m) (page_id a)")
    (auto simp: table_read_def pt_read_def andthen_def)

lemma truthful_same_cache:
  assumes "truthful b A size_of m ts" and "cached (mm_cache m') = cached (mm_cache m)"
    and "queue_covers (mm_cache m')" and "list_all (tidy_task A size_of) ts'"
    and "\<And>a d. answers b A size_of m ts a d \<Longrightarrow> answers b A size_of m' ts' a d"
  shows "truthful b A size_of m' ts'"
  using assms by (auto simp: truthful_def coherent_iff)

lemma truthful_kept:
  assumes "truthful b A size_of m ts" and "cached (mm_cache m') = cached (mm_cache m)"
    and "mm_pages m' = mm_pages m" and "queue_covers (mm_cache m')" and "list_all (tidy_task A size_of) ts'"
    and "\<forall>a. Flushing a \<in> set ts \<longrightarrow> Flushing a \<in> set ts'"
  shows "truthful b A size_of m' ts'"
  by (rule truthful_same_cache [OF assms(1,2,4,5)]) (use assms(3,6) in \<open>auto simp: answers_def table_read_def\<close>)

lemma truthful_covers: "truthful b A size_of m ts \<Longrightarrow> queue_covers (mm_cache m)"
  by (simp add: truthful_def coherent_iff)

lemma truthful_tidy: "truthful b A size_of m ts \<Longrightarrow> list_all (tidy_task A size_of) ts"
  by (simp add: truthful_def)

lemma truthful_step:
  assumes "conc_step b may m ts m' ts'" and "tidy A size_of may" and "mm_inv m" "tasks_bounded ts" and "truthful b A size_of m ts"
  shows "truthful b A size_of m' ts'"
  using assms
proof (induction rule: conc_step.induct)
  case (conc_allocate ts sz st now now' el m r m')
  have "grown m m'" using allocate_grows [OF conc_allocate(6,3,4)] .
  then have g: "mm_cache m' = mm_cache m" "page_size (mm_pages m') = page_size (mm_pages m)"
    "pages (mm_pages m) \<subseteq>\<^sub>m pages (mm_pages m')" "queue_covers (mm_cache m')"
    by (auto simp: grown_def mm_inv_def)
  have "answers b A size_of m' ts a d" if "answers b A size_of m ts a d" for a d
  proof (cases "Flushing a \<in> set ts")
    case False
    with that have rd: "a \<in> A" "table_read b a (size_of a) m = Ok d" by (auto simp: answers_def)
    with table_read_live obtain pg where "pages (mm_pages m) (page_id a) = Some pg" by blast
    with g have "pages (mm_pages m') (page_id a) = pages (mm_pages m) (page_id a)"
      by (metis domI map_le_def)
    with g rd show ?thesis by (simp add: answers_def table_read_cong [of m' a m])
  qed (use that in \<open>auto simp: answers_def\<close>)
  then show ?case
    using g conc_allocate(8) by (auto simp: truthful_def coherent_iff)
next
  case (conc_deallocate ts a m m')
  from tidyD [OF conc_deallocate(4,1)] show ?case by simp
next
  case (conc_protect ts a perms m m')
  then have "mm_pages m' = mm_pages m" "mm_cache m' = mm_cache m" by (auto simp: protect_def)
  with truthful_covers [OF conc_protect(6)] truthful_tidy [OF conc_protect(6)] show ?case
    by (intro truthful_kept [OF conc_protect(6)]) simp_all
next
  case (conc_hit ts a sz m d m')
  then have q: "queue_covers (mm_cache m)" by (simp add: mm_inv_def)
  note l = mem_lookup_effect [OF q conc_hit(2)]
  with lru_get_covers [OF q, of a] truthful_tidy [OF conc_hit(6)] show ?case
    by (intro truthful_kept [OF conc_hit(6)]) simp_all
next
  case (conc_miss ts a sz m m')
  then have q: "queue_covers (mm_cache m)" by (simp add: mm_inv_def)
  note l = mem_lookup_effect [OF q conc_miss(2)]
  with lru_get_covers [OF q, of a] truthful_tidy [OF conc_miss(6)] tidyD [OF conc_miss(3,1)] show ?case
    by (intro truthful_kept [OF conc_miss(6)]) simp_all
next
  case (conc_count m m' us a sz vs)
  from mem_miss_effect [OF conc_count(1)] truthful_covers [OF conc_count(5)] truthful_tidy [OF conc_count(5)]
  show ?case by (intro truthful_kept [OF conc_count(5)]) simp_all
next
  case (conc_check a m r m' us sz vs)
  from check_permissions_reads [OF conc_check(1)] truthful_covers [OF conc_check(5)]
    truthful_tidy [OF conc_check(5)]
  show ?case by (intro truthful_kept [OF conc_check(5)]) auto
next
  case (conc_fill us vs a sz m r m')
  then have a: "a \<in> A" "sz = size_of a" by (auto simp: truthful_def)
  have old: "truthful b A size_of m (us @ vs)"
    using truthful_covers [OF conc_fill(7)] truthful_tidy [OF conc_fill(7)]
    by (intro truthful_kept [OF conc_fill(7)]) auto
  then have coh: "lru.coherent (answers b A size_of m (us @ vs)) (mm_cache m)" by (simp add: truthful_def)
  from mem_fill_effect [OF conc_fill(2,3)] show ?case
  proof
    assume "\<exists>d. r = Ok d \<and>
      pt_read b (page_id a) (ucast (addr_offset a)) sz (mm_pages m) = (Ok d, mm_pages m) \<and>
      m' = m\<lparr>mm_cache := lru_insert a d (mm_cache m)\<rparr>"
    then obtain d where d: "table_read b a (size_of a) m = Ok d"
      and m': "m' = m\<lparr>mm_cache := lru_insert a d (mm_cache m)\<rparr>"
      using a by (auto simp: table_read_def)
    have "lru.coherent (answers b A size_of m (us @ vs)) (mm_cache m')"
      using lru.coherent_store [OF coh] a d by (simp add: answers_def m')
    moreover have "answers b A size_of m' (us @ vs) = answers b A size_of m (us @ vs)"
      by (simp add: fun_eq_iff answers_def table_read_def m')
    ultimately show ?thesis using truthful_tidy [OF old] by (simp add: truthful_def)
  next
    assume "(\<exists>e. r = Err e) \<and> m' = m"
    with old show ?thesis by simp
  qed
next
  case (conc_write ts a data m r m')
  from check_permissions_reads [OF conc_write(3)] truthful_covers [OF conc_write(7)]
    truthful_tidy [OF conc_write(7)] tidyD [OF conc_write(4,1)]
  show ?case by (intro truthful_kept [OF conc_write(7)]) auto
next
  case (conc_put us vs a data m r m')
  then have a: "a \<in> A" and len: "length data < 2 ^ 63" and pt: "pt_inv (mm_pages m)"
    by (auto simp: truthful_def mm_inv_def)
  from mem_put_effect [OF conc_put(2,3)] show ?case
  proof
    assume "\<exists>t. r = Ok () \<and>
      pt_write b (page_id a) (ucast (addr_offset a)) data (mm_pages m) = (Ok (), t) \<and> m' = m\<lparr>mm_pages := t\<rparr>"
    then obtain t where r: "r = Ok ()" and m': "m' = m\<lparr>mm_pages := t\<rparr>"
      and wr: "pt_write b (page_id a) (ucast (addr_offset a)) data (mm_pages m) = (Ok (), t)" by blast
    have t: "pages t i = pages (mm_pages m) i" "page_size t = page_size (mm_pages m)" if "i \<noteq> page_id a" for i
      using wp_Ok [OF pt_write_ok [OF pt len] wr] that by auto
    have "answers b A size_of m' (us @ Flushing a # vs) x d"
      if x: "answers b A size_of m (us @ Writing a data # vs) x d" for x d
    proof (cases "x = a")
      case True
      with a show ?thesis by (simp add: answers_def)
    next
      case False
      with x a conc_put(4) have "page_id x \<noteq> page_id a" by (auto simp: tidy_def answers_def dest: inj_onD)
      with t have "table_read b x sz m' = table_read b x sz m" for sz
        by (auto simp: m' intro!: table_read_cong)
      with x show ?thesis by (auto simp: answers_def)
    qed
    with truthful_same_cache [OF conc_put(7)] conc_put(7) r show ?thesis
      by (auto simp: m' truthful_def coherent_iff)
  next
    assume "(\<exists>e. r = Err e) \<and> m' = m"
    with truthful_covers [OF conc_put(7)] truthful_tidy [OF conc_put(7)] show ?thesis
      by (intro truthful_kept [OF conc_put(7)]) auto
  qed
next
  case (conc_flush a m m' us vs)
  have m': "m' = m\<lparr>mm_cache := lru_remove a (mm_cache m)\<rparr>" using mem_invalidate_effect [OF conc_flush(1)] .
  have "answers b A size_of m' (us @ vs) x d"
    if "x \<noteq> a" "answers b A size_of m (us @ Flushing a # vs) x d" for x d
    using that by (auto simp: answers_def table_read_def m')
  moreover have "lru.coherent (answers b A size_of m (us @ Flushing a # vs)) (mm_cache m)"
    using conc_flush(5) by (simp add: truthful_def)
  ultimately have "lru.coherent (answers b A size_of m' (us @ vs)) (mm_cache m')"
    unfolding m' by (auto intro: lru.coherent_forget)
  with conc_flush(5) show ?case by (simp add: truthful_def)
qed

lemma truthful_reachable:
  assumes "conc_reachable b may config m ts" and "tidy A size_of may"
  shows "truthful b A size_of m ts"
  using assms(1)
proof (induction rule: conc_reachable.induct)
  case conc_new
  show ?case
    by (simp add: truthful_def coherent_iff queue_covers_def memory_manager_new_def lru_new_def)
next
  case (conc_more m ts m' ts')
  with conc_reachable_inv have "mm_inv m" "tasks_bounded ts" by blast+
  with truthful_step [OF conc_more(2) assms(2)] conc_more(3) show ?case by blast
qed

text \<open>A read in one go: a hit, or what the page table answers to who may read.\<close>

lemma mem_read_outcome:
  assumes "queue_covers (mm_cache m)" and "cache_hits (mm_stats m) \<noteq> - 1" "cache_misses (mm_stats m) \<noteq> - 1"
  shows "fst (mem_read b a sz m) =
    (case cached (mm_cache m) a of Some d \<Rightarrow> Ok d
     | None \<Rightarrow> if permits m a PermRead then table_read b a sz m
               else Err (PermissionDenied (ucast (segment_id a))))"
proof (cases "cached (mm_cache m) a")
  case None
  obtain r m' where run: "mem_read b a sz m = (r, m')" by fastforce
  with mem_read_miss [OF assms(1) None, of b sz] assms(3) None show ?thesis
    by (cases r) (auto simp: wp_def table_read_def)
next
  case (Some d)
  with mem_read_hit_succeeds [OF assms(1) Some assms(2)] show ?thesis by simp
qed

text \<open>C12: Let the threads use only addresses that lie on different pages, read each address at one size,
  and deallocate nothing. Then the cache is invisible in every interleaving of their steps. Unless a write to
  the address is about to invalidate it, a hit returns exactly what a read of the page table returns at
  this moment; a thread that missed returns that when it fills the cache; and a whole read in one go is a
  read of the page table, errors included, except that a hit needs no permission.\<close>

theorem cache_transparent:
  assumes "conc_reachable b may config m ts" and "tidy A size_of may"
  shows "(\<forall>d m'. mem_lookup b a m = (Ok (Some d), m') \<and> Flushing a \<notin> set ts \<longrightarrow>
      a \<in> A \<and> table_read b a (size_of a) m = Ok d) \<and>
    (\<forall>d m' us vs sz. ts = us @ Permitted a sz # vs \<and> mem_fill b a sz m = (Ok d, m') \<longrightarrow>
      table_read b a (size_of a) m = Ok d) \<and>
    (Flushing a \<notin> set ts \<and> cache_hits (mm_stats m) \<noteq> - 1 \<and> cache_misses (mm_stats m) \<noteq> - 1 \<longrightarrow>
      fst (mem_read b a (size_of a) m) =
        (if permits m a PermRead \<or> a \<in> dom (cached (mm_cache m)) then table_read b a (size_of a) m
         else Err (PermissionDenied (ucast (segment_id a)))))"
proof -
  have true: "truthful b A size_of m ts" using truthful_reachable [OF assms] .
  have q: "queue_covers (mm_cache m)" using conc_reachable_inv [OF assms(1)] by (simp add: mm_inv_def)
  have hit: "a \<in> A \<and> table_read b a (size_of a) m = Ok d"
    if "cached (mm_cache m) a = Some d" "Flushing a \<notin> set ts" for d
    using that true by (auto simp: truthful_def coherent_iff answers_def)
  have "table_read b a (size_of a) m = Ok d"
    if "ts = us @ Permitted a sz # vs" "mem_fill b a sz m = (Ok d, m')" for d m' us vs sz
    using that true wp_Ok [OF mem_fill_spec that(2)] by (auto simp: truthful_def table_read_def)
  moreover have "a \<in> A \<and> table_read b a (size_of a) m = Ok d"
    if "mem_lookup b a m = (Ok (Some d), m')" "Flushing a \<notin> set ts" for d m'
    using hit [of d] that mem_lookup_effect(1) [OF q that(1)] by simp
  moreover have "fst (mem_read b a (size_of a) m) =
      (if permits m a PermRead \<or> a \<in> dom (cached (mm_cache m)) then table_read b a (size_of a) m
       else Err (PermissionDenied (ucast (segment_id a))))"
    if "Flushing a \<notin> set ts" "cache_hits (mm_stats m) \<noteq> - 1" "cache_misses (mm_stats m) \<noteq> - 1"
    using that hit by (auto simp: mem_read_outcome [OF q] split: option.split)
  ultimately show ?thesis by blast
qed

text \<open>The address is cached, so that the read is a hit.\<close>

theorem cache_transparent_witness:
  "\<exists>m. conc_reachable Release one_thread sample_config m [] \<and> cached (mm_cache m) sample_addr = Some [5, 6] \<and>
     fst (mem_read Release sample_addr 2 m) = Ok [5, 6] \<and> table_read Release sample_addr 2 m = Ok [5, 6]"
proof -
  obtain m where m: "conc_reachable Release one_thread sample_config m []"
    "cached (mm_cache m) sample_addr = Some [5, 6]"
    "mm_stats m = \<lparr>total_allocations = 1, total_deallocations = 0, page_faults = 0,
       cache_hits = 0, cache_misses = 1\<rparr>"
    using sample_reached by blast
  have "one_thread ts c \<Longrightarrow> tidy_call {sample_addr} (\<lambda>_. 2) c" for ts c by (cases c) auto
  then have tidy: "tidy {sample_addr} (\<lambda>_. 2) one_thread" by (simp add: tidy_def)
  have "queue_covers (mm_cache m)" using conc_reachable_inv [OF m(1)] by (simp add: mm_inv_def)
  then have "fst (mem_read Release sample_addr 2 m) = Ok [5, 6]"
    using m by (simp add: mem_read_outcome)
  moreover have "fst (mem_read Release sample_addr 2 m) = table_read Release sample_addr 2 m"
    using cache_transparent [OF m(1) tidy, of sample_addr] m(2,3) by auto
  ultimately show ?thesis using m by auto
qed

end
