(* ===== verification/Memory_Locks.thy ===== *)
theory Memory_Locks
  imports Main
begin

text \<open>
  The locks of the memory manager (\<open>src/memory/mod.rs\<close>). A call is the trace of the locks it
  takes and drops, in the order of the source: a guard bound by \<open>let\<close> lives to the end of the
  function, one in an expression to the end of the statement, and one in the scrutinee of
  \<open>if let\<close> to the end of the branch. Threads run such traces concurrently; a lock is granted
  unless a holder, the asking thread included, excludes it. The arguments of the traces choose
  the path a call takes, its panics included: a panic drops the guards that are held, as a return does.
\<close>

section \<open>Model\<close>

datatype lock =
  SegmentsLock | PageTableLock | PermissionsLock | GcLock | CacheLock | StatsLock

datatype mode = Shared | Exclusive

datatype lock_event = Lock lock mode | Unlock lock

definition should_collect_locks :: "lock_event list" where
  "should_collect_locks =
     [Lock SegmentsLock Shared, Lock GcLock Exclusive, Unlock GcLock, Unlock SegmentsLock]"

definition check_permissions_locks :: "lock_event list" where
  "check_permissions_locks = [Lock PermissionsLock Shared, Unlock PermissionsLock]"

definition allocate_locks :: "bool \<Rightarrow> bool \<Rightarrow> lock_event list" where
  "allocate_locks full success =
     [Lock SegmentsLock Exclusive, Lock PageTableLock Exclusive] @ should_collect_locks @
     (if full then [Lock GcLock Exclusive, Unlock GcLock] else []) @
     (if success then [Lock PermissionsLock Exclusive, Unlock PermissionsLock,
                       Lock StatsLock Exclusive, Unlock StatsLock] else []) @
     [Unlock PageTableLock, Unlock SegmentsLock]"

text \<open>Where there is no such segment, \<open>Vec::remove\<close> panics and the guards are dropped by unwinding.\<close>

definition deallocate_locks :: "bool \<Rightarrow> lock_event list" where
  "deallocate_locks found =
     [Lock SegmentsLock Exclusive, Lock PageTableLock Exclusive, Lock PermissionsLock Exclusive] @
     (if found then [Lock StatsLock Exclusive, Unlock StatsLock] else []) @
     [Unlock PermissionsLock, Unlock PageTableLock, Unlock SegmentsLock]"

definition read_hit_locks :: "lock_event list" where
  "read_hit_locks =
     [Lock CacheLock Exclusive, Lock StatsLock Exclusive, Unlock StatsLock, Unlock CacheLock]"

text \<open>A miss that cannot be counted panics.\<close>

definition read_miss_locks :: "bool \<Rightarrow> bool \<Rightarrow> bool \<Rightarrow> lock_event list" where
  "read_miss_locks counted permitted success =
     [Lock CacheLock Exclusive, Unlock CacheLock, Lock StatsLock Exclusive, Unlock StatsLock] @
     (if counted then check_permissions_locks @
        (if permitted then
           [Lock PageTableLock Shared] @
           (if success then [Lock CacheLock Exclusive, Unlock CacheLock] else []) @
           [Unlock PageTableLock]
         else [])
      else [])"

definition write_locks :: "bool \<Rightarrow> bool \<Rightarrow> lock_event list" where
  "write_locks permitted success =
     check_permissions_locks @
     (if permitted then
        [Lock PageTableLock Exclusive] @
        (if success then [Lock CacheLock Exclusive, Unlock CacheLock] else []) @
        [Unlock PageTableLock]
      else [])"

definition protect_locks :: "lock_event list" where
  "protect_locks = [Lock PermissionsLock Exclusive, Unlock PermissionsLock]"

text \<open>The calls other than \<open>allocate\<close>.\<close>

definition other_calls :: "lock_event list set" where
  "other_calls =
     {read_hit_locks, protect_locks} \<union> {deallocate_locks f |f. True} \<union>
     {read_miss_locks c p s |c p s. True} \<union> {write_locks p s |p s. True}"

section \<open>Threads\<close>

record thread =
  held :: "(lock \<times> mode) list"
  todo :: "lock_event list"

definition conflicts :: "lock \<Rightarrow> mode \<Rightarrow> thread \<Rightarrow> bool" where
  "conflicts l md t \<longleftrightarrow>
     (\<exists>(k, md') \<in> set (held t). k = l \<and> (md = Exclusive \<or> md' = Exclusive))"

inductive thread_step :: "thread list \<Rightarrow> thread list \<Rightarrow> bool" where
  step_lock: "i < length ts \<Longrightarrow> todo (ts ! i) = Lock l md # es \<Longrightarrow>
     \<forall>t \<in> set ts. \<not> conflicts l md t \<Longrightarrow>
     thread_step ts (ts[i := \<lparr>held = (l, md) # held (ts ! i), todo = es\<rparr>])"
| step_unlock: "i < length ts \<Longrightarrow> todo (ts ! i) = Unlock l # es \<Longrightarrow>
     thread_step ts
       (ts[i := \<lparr>held = filter (\<lambda>(k, _). k \<noteq> l) (held (ts ! i)), todo = es\<rparr>])"

inductive threads_reach :: "thread list \<Rightarrow> thread list \<Rightarrow> bool" for ts where
  threads_refl: "threads_reach ts ts"
| threads_step: "threads_reach ts us \<Longrightarrow> thread_step us vs \<Longrightarrow> threads_reach ts vs"

definition starts :: "lock_event list \<Rightarrow> thread" where
  "starts es = \<lparr>held = [], todo = es\<rparr>"

section \<open>Locks taken in order\<close>

fun rank :: "lock \<Rightarrow> nat" where
  "rank SegmentsLock = 0"
| "rank PageTableLock = 1"
| "rank PermissionsLock = 2"
| "rank GcLock = 3"
| "rank CacheLock = 4"
| "rank StatsLock = 5"

text \<open>Every lock ranks above those held when it is taken, and nothing is held at the end.\<close>

fun ordered :: "(lock \<times> mode) list \<Rightarrow> lock_event list \<Rightarrow> bool" where
  "ordered h [] \<longleftrightarrow> h = []"
| "ordered h (Lock l md # es) \<longleftrightarrow> (\<forall>(k, _) \<in> set h. rank k < rank l) \<and> ordered ((l, md) # h) es"
| "ordered h (Unlock l # es) \<longleftrightarrow> ordered (filter (\<lambda>(k, _). k \<noteq> l) h) es"

lemmas lock_traces =
  should_collect_locks_def check_permissions_locks_def allocate_locks_def deallocate_locks_def
  read_hit_locks_def read_miss_locks_def write_locks_def protect_locks_def

lemma other_calls_ordered: "es \<in> other_calls \<Longrightarrow> ordered [] es"
  by (auto simp: other_calls_def lock_traces)

lemma ordered_append: "ordered h es \<Longrightarrow> ordered [] fs \<Longrightarrow> ordered h (es @ fs)"
  by (induction h es rule: ordered.induct) auto

lemma ordered_concat: "(\<And>es. es \<in> set ess \<Longrightarrow> ordered [] es) \<Longrightarrow> ordered [] (concat ess)"
  by (induction ess) (auto intro: ordered_append)

definition well_ordered :: "thread list \<Rightarrow> bool" where
  "well_ordered ts \<longleftrightarrow> (\<forall>t \<in> set ts. ordered (held t) (todo t))"

lemma thread_step_ordered: "thread_step ts us \<Longrightarrow> well_ordered ts \<Longrightarrow> well_ordered us"
proof (induction rule: thread_step.induct)
  case (step_lock i ts l md es)
  then have "ordered (held (ts ! i)) (Lock l md # es)"
    unfolding well_ordered_def by (metis nth_mem)
  with step_lock(4) show ?case
    by (auto simp: well_ordered_def dest!: set_update_subset_insert [THEN subsetD])
next
  case (step_unlock i ts l es)
  then have "ordered (held (ts ! i)) (Unlock l # es)"
    unfolding well_ordered_def by (metis nth_mem)
  with step_unlock(3) show ?case
    by (auto simp: well_ordered_def dest!: set_update_subset_insert [THEN subsetD])
qed

lemma threads_reach_ordered: "threads_reach ts us \<Longrightarrow> well_ordered ts \<Longrightarrow> well_ordered us"
  by (induction rule: threads_reach.induct) (auto intro: thread_step_ordered)

text \<open>
  The thread that waits for the lock of the highest rank waits for nobody: a holder of this
  lock is not finished, and what it waits for ranks higher still.
\<close>

lemma waiting_thread:
  assumes "well_ordered ts" and "\<nexists>us. thread_step ts us" and "t \<in> set ts" and "todo t \<noteq> []"
  obtains l md u where "hd (todo t) = Lock l md" "u \<in> set ts" "conflicts l md u" "todo u \<noteq> []"
    "\<And>l' md'. hd (todo u) = Lock l' md' \<Longrightarrow> rank l < rank l'"
proof -
  obtain i where i: "i < length ts" "t = ts ! i" using assms(3) by (metis in_set_conv_nth)
  obtain e es where todo: "todo t = e # es" using assms(4) by (cases "todo t") auto
  obtain l md where e: "e = Lock l md"
  proof (cases e)
    case (Unlock l)
    with step_unlock [OF i(1)] i(2) todo assms(2) show ?thesis by metis
  qed
  obtain u where u: "u \<in> set ts" "conflicts l md u"
    using step_lock [OF i(1)] i(2) todo e assms(2) by metis
  then obtain md' where h: "(l, md') \<in> set (held u)" by (auto simp: conflicts_def)
  have ord: "ordered (held u) (todo u)" using assms(1) u(1) by (simp add: well_ordered_def)
  with h have "todo u \<noteq> []" by auto
  moreover have "rank l < rank l'" if "hd (todo u) = Lock l' md''" for l' md''
    using ord h that \<open>todo u \<noteq> []\<close> by (cases "todo u") auto
  ultimately show ?thesis using that [of l md u] todo e u by simp
qed

lemma rank_bound: "rank l < 6"
  by (cases l) auto

lemma some_thread_steps:
  assumes "well_ordered ts" and "t \<in> set ts" and "todo t \<noteq> []"
  shows "\<exists>us. thread_step ts us"
proof (rule ccontr)
  assume stuck: "\<nexists>us. thread_step ts us"
  have "False" if "u \<in> set ts" "todo u \<noteq> []" "hd (todo u) = Lock l md" "6 - rank l = n" for u l md n
    using that
  proof (induction n arbitrary: u l md rule: less_induct)
    case (less n)
    obtain l2 md2 v where "hd (todo u) = Lock l2 md2" and v: "v \<in> set ts" "todo v \<noteq> []"
      and up: "\<And>l' md'. hd (todo v) = Lock l' md' \<Longrightarrow> rank l2 < rank l'"
      using waiting_thread [OF assms(1) stuck less.prems(1,2)] by metis
    with less.prems have "l2 = l" by simp
    obtain l3 md3 where l3: "hd (todo v) = Lock l3 md3"
      using waiting_thread [OF assms(1) stuck v] by metis
    with up \<open>l2 = l\<close> have "rank l < rank l3" by simp
    with less.prems(4) rank_bound [of l3] have "6 - rank l3 < n" by simp
    with less.IH [OF _ v l3] show ?case by simp
  qed
  moreover obtain l md where "hd (todo t) = Lock l md"
    using waiting_thread [OF assms(1) stuck assms(2,3)] by metis
  ultimately show False using assms(2,3) by blast
qed

section \<open>Progress measure\<close>

definition work :: "thread list \<Rightarrow> nat" where
  "work ts = sum_list (map (length \<circ> todo) ts)"

lemma work_update:
  "i < length ts \<Longrightarrow> todo (ts ! i) = e # todo t \<Longrightarrow> work ts = Suc (work (ts[i := t]))"
  by (induction ts arbitrary: i) (auto simp: work_def nth_Cons split: nat.splits)

lemma thread_step_work: "thread_step ts us \<Longrightarrow> work ts = Suc (work us)"
  by (induction rule: thread_step.induct) (auto intro: work_update)

lemma threads_reach_work: "threads_reach ts us \<Longrightarrow> work us \<le> work ts"
  by (induction rule: threads_reach.induct) (auto dest: thread_step_work)

lemma threads_complete:
  assumes "well_ordered ts"
  shows "\<exists>us. threads_reach ts us \<and> (\<forall>t \<in> set us. todo t = [])"
  using assms
proof (induction "work ts" arbitrary: ts rule: less_induct)
  case less
  show ?case
  proof (cases "\<forall>t \<in> set ts. todo t = []")
    case True
    then show ?thesis by (blast intro: threads_refl)
  next
    case False
    then obtain t where "t \<in> set ts" "todo t \<noteq> []" by blast
    then obtain us where us: "thread_step ts us"
      using some_thread_steps [OF less.prems] by blast
    then obtain vs where "threads_reach us vs" "\<forall>t \<in> set vs. todo t = []"
      using less.hyps [of us] thread_step_work [OF us] thread_step_ordered [OF us less.prems] by auto
    moreover have "threads_reach ts vs" using calculation(1)
    proof (induction rule: threads_reach.induct)
      case threads_refl
      show ?case by (rule threads_step [OF threads_reach.threads_refl us])
    next
      case (threads_step vs ws)
      then show ?case by (blast intro: threads_reach.threads_step)
    qed
    ultimately show ?thesis by blast
  qed
qed

section \<open>Properties\<close>

text \<open>C13: Any number of threads, each making any sequence of calls other than \<open>allocate\<close>, never
  deadlock: as long as one of them has something left to do, some thread can take its next
  step, and each step leaves less to do, so that all of them finish.\<close>

theorem no_deadlock_without_allocate:
  assumes "\<forall>calls \<in> set callss. set calls \<subseteq> other_calls"
    and "threads_reach (map (\<lambda>calls. starts (concat calls)) callss) ts"
  shows "((\<exists>t \<in> set ts. todo t \<noteq> []) \<longrightarrow> (\<exists>us. thread_step ts us)) \<and>
    (\<forall>us. thread_step ts us \<longrightarrow> work us < work ts) \<and>
    (\<exists>us. threads_reach ts us \<and> (\<forall>t \<in> set us. todo t = []))"
proof -
  have "well_ordered (map (\<lambda>calls. starts (concat calls)) callss)"
    using assms(1) by (auto simp: well_ordered_def starts_def intro!: ordered_concat
        dest!: bspec subsetD intro: other_calls_ordered)
  with threads_reach_ordered [OF assms(2)] have "well_ordered ts" .
  then show ?thesis
    using some_thread_steps threads_complete by (auto dest: thread_step_work)
qed

theorem no_deadlock_without_allocate_witness:
  "\<exists>us. threads_reach (map (\<lambda>calls. starts (concat calls))
      [[write_locks True True, read_miss_locks True True True], [deallocate_locks True, deallocate_locks False, read_hit_locks]]) us \<and>
     (\<forall>t \<in> set us. todo t = [])"
proof -
  have "\<forall>calls \<in> set [[write_locks True True, read_miss_locks True True True],
      [deallocate_locks True, deallocate_locks False, read_hit_locks]]. set calls \<subseteq> other_calls"
    by (auto simp: other_calls_def)
  from no_deadlock_without_allocate [OF this threads_refl] show ?thesis by blast
qed

text \<open>C39: A call of \<open>allocate\<close> never returns. It holds the lock of the segments for writing when
  \<open>should_collect_garbage\<close> asks for the same lock for reading, so whatever the other threads do,
  the thread never gets past this request.\<close>

theorem allocate_self_deadlock:
  assumes "threads_reach ts us" and "i < length ts"
    and "ts ! i = starts (allocate_locks full success @ rest)"
  shows "i < length us \<and> todo (us ! i) \<noteq> [] \<and>
    length (todo (us ! i)) + 2 \<ge> length (allocate_locks full success @ rest)"
proof -
  let ?T = "allocate_locks full success @ rest"
  have "i < length us \<and>
      (us ! i = starts ?T \<or>
       us ! i = \<lparr>held = [(SegmentsLock, Exclusive)], todo = drop 1 ?T\<rparr> \<or>
       us ! i = \<lparr>held = [(PageTableLock, Exclusive), (SegmentsLock, Exclusive)], todo = drop 2 ?T\<rparr>)"
    using assms(1)
  proof (induction rule: threads_reach.induct)
    case threads_refl
    with assms(2,3) show ?case by simp
  next
    case (threads_step us vs)
    from threads_step(2,3) show ?case
    proof (induction rule: thread_step.induct)
      case (step_lock j us l md es)
      show ?case
      proof (cases "i = j")
        case True
        have "us ! j \<in> set us" using step_lock by simp
        with step_lock(3) have "\<not> conflicts l md (us ! j)" by blast
        with True step_lock show ?thesis
          by (auto simp: starts_def lock_traces conflicts_def)
      qed (use step_lock in simp)
    next
      case (step_unlock j us l es)
      then show ?case
        by (cases "i = j") (auto simp: starts_def lock_traces)
    qed
  qed
  then show ?thesis by (auto simp: starts_def lock_traces)
qed

theorem allocate_self_deadlock_witness:
  "\<exists>us. threads_reach [starts (allocate_locks False True), starts protect_locks] us \<and>
     held (us ! 0) = [(PageTableLock, Exclusive), (SegmentsLock, Exclusive)] \<and>
     todo (us ! 0) \<noteq> []"
proof -
  let ?ts = "[starts (allocate_locks False True), starts protect_locks]"
  obtain es where es: "allocate_locks False True =
      Lock SegmentsLock Exclusive # Lock PageTableLock Exclusive # es"
    by (simp add: allocate_locks_def)
  let ?us = "?ts[0 := \<lparr>held = [(SegmentsLock, Exclusive)], todo = Lock PageTableLock Exclusive # es\<rparr>]"
  let ?vs = "?us[0 := \<lparr>held = [(PageTableLock, Exclusive), (SegmentsLock, Exclusive)], todo = es\<rparr>]"
  have "thread_step ?ts ?us"
    using step_lock [of 0 ?ts SegmentsLock Exclusive "Lock PageTableLock Exclusive # es"]
    by (simp add: starts_def es conflicts_def)
  moreover have "thread_step ?us ?vs"
    using step_lock [of 0 ?us PageTableLock Exclusive es]
    by (simp add: starts_def es conflicts_def)
  ultimately have reach: "threads_reach ?ts ?vs" by (blast intro: threads_refl threads_step)
  have "todo (?vs ! 0) \<noteq> []"
    using allocate_self_deadlock [OF reach, of 0 False True "[]"] by simp
  with reach show ?thesis by fastforce
qed

end
