(* ===== verification/VM_State.thy ===== *)
theory VM_State
  imports Rust_Prelude "HOL-Library.List_Lexorder" "HOL-Library.Multiset"
begin

text \<open>
  Data of the virtual machine (\<open>src/vm.rs\<close>): errors, values, the gas schedule, the execution
  context with its stack, memory, storage and call frames, and the three context operations
  \<open>new\<close>, \<open>use_gas\<close> and \<open>compute_state_root\<close>. The hash function \<open>Blake2b512\<close> is a library the
  code calls; it is the parameter \<open>H\<close>, from the bytes fed to the hasher to its 64-byte digest
  (successive \<open>update\<close> calls hash the concatenation of their arguments).
\<close>

section \<open>Errors and values\<close>

datatype vm_error =
    StackUnderflow
  | StackOverflow
  | InvalidOpcode u8
  | MemoryError string
  | ExecutionError string
  | GasLimitExceeded
  | InvalidJumpDestination
  | ContractCreationError string
  | InvalidStateTransition string

text \<open>A \<open>[u8; 32]\<close> is a byte list.\<close>

type_synonym addr32 = "u8 list"

datatype val =
    VInt i64
  | VBool bool
  | VBytes "u8 list"
  | VAddress addr32
  | VContract contract_data
and contract_data =
    ContractData (contract_code: "u8 list") (contract_storage: "addr32 \<Rightarrow> val option")
      (contract_balance: u64)

section \<open>Gas schedule\<close>

record gas_config =
  gas_base :: u64
  op_cost :: "u8 \<rightharpoonup> u64"
  memory_expansion :: u64
  contract_creation :: u64

definition default_op_cost :: "u8 \<rightharpoonup> u64" where
  "default_op_cost =
     [0x01 \<mapsto> 3, 0x02 \<mapsto> 5, 0x03 \<mapsto> 5, 0x04 \<mapsto> 20, 0x05 \<mapsto> 20, 0x06 \<mapsto> 8, 0x07 \<mapsto> 10,
      0x08 \<mapsto> 3, 0x09 \<mapsto> 3, 0x0A \<mapsto> 3, 0x0B \<mapsto> 400, 0x0C \<mapsto> 40, 0x0D \<mapsto> 5, 0x0E \<mapsto> 50,
      0x0F \<mapsto> 20]"

definition gas_config_default :: gas_config where
  "gas_config_default =
     \<lparr>gas_base = 2, op_cost = default_op_cost, memory_expansion = 3, contract_creation = 32000\<rparr>"

section \<open>Execution context\<close>

record call_frame =
  frame_caller :: addr32
  frame_address :: addr32
  frame_value :: u64
  frame_gas_limit :: u64
  frame_code :: "u8 list"
  return_data :: "u8 list"

record log_entry =
  log_address :: addr32
  log_topics :: "addr32 list"
  log_data :: "u8 list"

record vm_context =
  stack :: "val list"
  memory :: "usize \<rightharpoonup> val"
  storage :: "addr32 \<rightharpoonup> val"
  program_counter :: usize
  gas_remaining :: u64
  gas_config :: gas_config
  call_stack :: "call_frame list"
  state_root :: addr32
  logs :: "log_entry list"

definition context_new :: "u64 \<Rightarrow> vm_context" where
  "context_new gas_limit =
     \<lparr>stack = [], memory = Map.empty, storage = Map.empty, program_counter = 0,
      gas_remaining = gas_limit, gas_config = gas_config_default, call_stack = [],
      state_root = replicate 32 0, logs = []\<rparr>"

definition use_gas :: "u64 \<Rightarrow> (vm_context, vm_error, unit) comp" where
  "use_gas amount =
     andthen (reads gas_remaining) (\<lambda>g.
     andthen (guard_err (g < amount) GasLimitExceeded) (\<lambda>_.
     updates (\<lambda>c. c\<lparr>gas_remaining := gas_remaining c - amount\<rparr>)))"

text \<open>The getters of the machine.\<close>

definition get_stack :: "vm_context \<Rightarrow> val list" where
  "get_stack c = stack c"

definition get_memory :: "vm_context \<Rightarrow> (usize \<rightharpoonup> val)" where
  "get_memory c = memory c"

definition get_vm_storage :: "vm_context \<Rightarrow> (addr32 \<rightharpoonup> val)" where
  "get_vm_storage c = storage c"

definition get_state_root :: "vm_context \<Rightarrow> addr32" where
  "get_state_root c = state_root c"

definition get_logs :: "vm_context \<Rightarrow> log_entry list" where
  "get_logs c = logs c"

definition get_gas_remaining :: "vm_context \<Rightarrow> u64" where
  "get_gas_remaining c = gas_remaining c"

lemmas getters [simp] = get_stack_def get_memory_def get_vm_storage_def get_state_root_def get_logs_def
  get_gas_remaining_def

section \<open>State root\<close>

text \<open>\<open>to_le_bytes\<close> of a 64-bit integer.\<close>

definition le_bytes :: "64 word \<Rightarrow> u8 list" where
  "le_bytes w = map (\<lambda>i. ucast (drop_bit (8 * i) w)) [0..<8]"

fun value_bytes :: "val \<Rightarrow> u8 list" where
  "value_bytes (VInt i) = le_bytes i"
| "value_bytes (VBool b) = [if b then 1 else 0]"
| "value_bytes (VBytes b) = b"
| "value_bytes (VAddress a) = a"
| "value_bytes (VContract c) = contract_code c @ le_bytes (contract_balance c)"

definition storage_bytes :: "(addr32 \<rightharpoonup> val) \<Rightarrow> addr32 list \<Rightarrow> u8 list" where
  "storage_bytes st ks =
     concat (map (\<lambda>k. k @ (case st k of None \<Rightarrow> [] | Some v \<Rightarrow> value_bytes v)) ks)"

definition log_bytes :: "log_entry \<Rightarrow> u8 list" where
  "log_bytes l = log_address l @ concat (log_topics l) @ log_data l"

text \<open>
  \<open>compute_state_root\<close> collects the storage entries in the map's iteration order \<open>ks\<close>, sorts
  them by key (lexicographically, as \<open>[u8; 32]\<close> compares), feeds keys and values to the hasher,
  then the logs, and keeps the first 32 bytes of the digest.
\<close>

definition root_preimage :: "addr32 list \<Rightarrow> vm_context \<Rightarrow> u8 list" where
  "root_preimage ks c =
     storage_bytes (storage c) (sort ks) @ concat (map log_bytes (logs c))"

definition compute_state_root ::
  "(u8 list \<Rightarrow> u8 list) \<Rightarrow> addr32 list \<Rightarrow> vm_context \<Rightarrow> vm_context" where
  "compute_state_root H ks c = c\<lparr>state_root := take 32 (H (root_preimage ks c))\<rparr>"

text \<open>Sorting makes the root independent of the order in which the hash map is iterated.\<close>

lemma root_preimage_order:
  assumes "iterates (storage c) ks" and "iterates (storage c) ks'"
  shows "root_preimage ks c = root_preimage ks' c"
proof -
  from assms have "distinct ks" "distinct ks'" "set ks = set ks'" by (auto simp: iterates_def)
  then have "mset ks = mset ks'" by (simp add: set_eq_iff_mset_eq_distinct)
  then have "sort ks = sort ks'" by (metis sorted_list_of_multiset_mset)
  then show ?thesis by (simp add: root_preimage_def)
qed

lemma length_le_bytes [simp]: "length (le_bytes w) = 8"
  by (simp add: le_bytes_def)

lemma wp_use_gas [wp_simps]:
  "wp (use_gas n) Q E F c =
     (if gas_remaining c < n then E GasLimitExceeded c
      else Q () (c\<lparr>gas_remaining := gas_remaining c - n\<rparr>))"
  by (simp add: use_gas_def wp_simps)

end
