(* ===== verification/VM_Ops.thy ===== *)
theory VM_Ops
  imports VM_State
begin

text \<open>
  The instructions of \<open>VM::execute\<close> (\<open>src/vm.rs\<close>), one definition per match arm, and the step
  that charges gas and dispatches on the opcode. Every definition keeps the order of the code:
  which value is popped first, what has already been popped when an error is returned, and
  whether an index or a slice is evaluated before or after a check.
\<close>

section \<open>Stack and program counter\<close>

text \<open>\<open>match stack.pop() { Some(Value::Int(v)) => v, _ => return Err(StackUnderflow) }\<close>: a value of
  another kind is popped before the error.\<close>

definition pop_int :: "(vm_context, vm_error, i64) comp" where
  "pop_int c =
     (case vec_pop (stack c) of
        None \<Rightarrow> (Err StackUnderflow, c)
      | Some (v, st) \<Rightarrow>
          (case v of
             VInt i \<Rightarrow> (Ok i, c\<lparr>stack := st\<rparr>)
           | _ \<Rightarrow> (Err StackUnderflow, c\<lparr>stack := st\<rparr>)))"

definition pop_address :: "(vm_context, vm_error, addr32) comp" where
  "pop_address c =
     (case vec_pop (stack c) of
        None \<Rightarrow> (Err StackUnderflow, c)
      | Some (v, st) \<Rightarrow>
          (case v of
             VAddress a \<Rightarrow> (Ok a, c\<lparr>stack := st\<rparr>)
           | _ \<Rightarrow> (Err StackUnderflow, c\<lparr>stack := st\<rparr>)))"

definition pop_value :: "(vm_context, vm_error, val) comp" where
  "pop_value c =
     (case vec_pop (stack c) of
        None \<Rightarrow> (Err StackUnderflow, c)
      | Some (v, st) \<Rightarrow> (Ok v, c\<lparr>stack := st\<rparr>))"

definition push :: "val \<Rightarrow> (vm_context, vm_error, unit) comp" where
  "push v = updates (\<lambda>c. c\<lparr>stack := stack c @ [v]\<rparr>)"

definition advance :: "build \<Rightarrow> usize \<Rightarrow> (vm_context, vm_error, unit) comp" where
  "advance b n =
     andthen (reads program_counter) (\<lambda>pc.
     andthen (or_panic ArithmeticOverflow (add_u b pc n)) (\<lambda>pc'.
     updates (\<lambda>c. c\<lparr>program_counter := pc'\<rparr>)))"

section \<open>Instructions\<close>

definition op_push :: "build \<Rightarrow> u8 list \<Rightarrow> (vm_context, vm_error, unit) comp" where
  "op_push b prog =
     andthen (reads program_counter) (\<lambda>pc.
     andthen (or_panic ArithmeticOverflow (add_u b pc 1)) (\<lambda>i.
     andthen (or_panic IndexOutOfBounds (index prog (unat i))) (\<lambda>v.
     andthen (reads (\<lambda>c. length (stack c))) (\<lambda>n.
     andthen (guard_err (1024 \<le> n) StackOverflow) (\<lambda>_.
     andthen (push (VInt (ucast v))) (\<lambda>_.
     advance b 2))))))"

definition op_add :: "build \<Rightarrow> (vm_context, vm_error, unit) comp" where
  "op_add b =
     andthen pop_int (\<lambda>y.
     andthen pop_int (\<lambda>x.
     andthen (or_panic ArithmeticOverflow (add_s b x y)) (\<lambda>r.
     andthen (push (VInt r)) (\<lambda>_.
     advance b 1))))"

definition op_mul :: "build \<Rightarrow> (vm_context, vm_error, unit) comp" where
  "op_mul b =
     andthen pop_int (\<lambda>y.
     andthen pop_int (\<lambda>x.
     andthen (or_panic ArithmeticOverflow (mul_s b x y)) (\<lambda>r.
     andthen (push (VInt r)) (\<lambda>_.
     advance b 1))))"

definition op_store :: "build \<Rightarrow> (vm_context, vm_error, unit) comp" where
  "op_store b =
     andthen pop_int (\<lambda>addr.
     andthen pop_value (\<lambda>v.
     andthen (updates (\<lambda>c. c\<lparr>memory := (memory c)(addr \<mapsto> v)\<rparr>)) (\<lambda>_.
     advance b 1)))"

definition op_load :: "build \<Rightarrow> (vm_context, vm_error, unit) comp" where
  "op_load b =
     andthen pop_int (\<lambda>addr.
     andthen (reads memory) (\<lambda>m.
     andthen (ok_or (MemoryError (''Address not found: '' @ decimal (unat addr))) (m addr)) (\<lambda>v.
     andthen (push v) (\<lambda>_.
     advance b 1))))"

text \<open>\<open>CREATE\<close>: the bytes after the opcode are the code of the contract, and its address is the
  hash of that code. The contract itself is pushed last.\<close>

definition op_create ::
  "build \<Rightarrow> (u8 list \<Rightarrow> u8 list) \<Rightarrow> u8 list \<Rightarrow> (vm_context, vm_error, unit) comp" where
  "op_create b H prog =
     andthen pop_int (\<lambda>value.
     andthen pop_int (\<lambda>code_size.
     andthen (reads gas_config) (\<lambda>cfg.
     andthen (use_gas (contract_creation cfg)) (\<lambda>_.
     andthen (reads program_counter) (\<lambda>pc.
     andthen (or_panic ArithmeticOverflow (add_u b pc 1)) (\<lambda>lo.
     andthen (or_panic ArithmeticOverflow (add_u b lo code_size)) (\<lambda>hi.
     andthen (or_panic IndexOutOfBounds (vec_slice prog lo hi)) (\<lambda>code.
     andthen (push (VAddress (take 32 (H code)))) (\<lambda>_.
     andthen (push (VContract (ContractData code Map.empty value))) (\<lambda>_.
     andthen (or_panic ArithmeticOverflow (add_u b 1 code_size)) (\<lambda>n.
     advance b n)))))))))))"

text \<open>\<open>address[0] as usize\<close>, the memory address at which \<open>CALL\<close> and \<open>BALANCE\<close> look for the
  contract.\<close>

definition address_slot :: "addr32 \<Rightarrow> usize" where
  "address_slot a = (case a of [] \<Rightarrow> 0 | x # _ \<Rightarrow> ucast x)"

definition contract_at :: "addr32 \<Rightarrow> (vm_context, vm_error, contract_data) comp" where
  "contract_at a =
     andthen (reads memory) (\<lambda>m.
       case m (address_slot a) of
         Some (VContract k) \<Rightarrow> ret k
       | _ \<Rightarrow> fail (ExecutionError ''Contract not found''))"

definition op_call :: "build \<Rightarrow> (vm_context, vm_error, unit) comp" where
  "op_call b =
     andthen pop_address (\<lambda>address.
     andthen pop_int (\<lambda>value.
     andthen pop_int (\<lambda>gas_limit.
     andthen (contract_at address) (\<lambda>k.
     andthen (updates (\<lambda>c. c\<lparr>call_stack := call_stack c @
        [\<lparr>frame_caller = replicate 32 0, frame_address = address, frame_value = value,
          frame_gas_limit = gas_limit, frame_code = contract_code k, return_data = []\<rparr>]\<rparr>)) (\<lambda>_.
     advance b 1)))))"

text \<open>\<open>RETURN\<close> slices the program, and only when there is a frame to store the bytes in.\<close>

definition op_return :: "build \<Rightarrow> u8 list \<Rightarrow> (vm_context, vm_error, unit) comp" where
  "op_return b prog =
     andthen pop_int (\<lambda>size.
     andthen pop_int (\<lambda>offset.
     andthen (reads call_stack) (\<lambda>frames.
     andthen
       (case vec_pop frames of
          None \<Rightarrow> ret ()
        | Some (frame, rest) \<Rightarrow>
            andthen (or_panic ArithmeticOverflow (add_u b offset size)) (\<lambda>hi.
            andthen (or_panic IndexOutOfBounds (vec_slice prog offset hi)) (\<lambda>bytes.
            updates (\<lambda>c. c\<lparr>call_stack := rest @ [frame\<lparr>return_data := bytes\<rparr>]\<rparr>)))) (\<lambda>_.
     advance b 1))))"

definition op_sha3 ::
  "build \<Rightarrow> (u8 list \<Rightarrow> u8 list) \<Rightarrow> u8 list \<Rightarrow> (vm_context, vm_error, unit) comp" where
  "op_sha3 b H prog =
     andthen pop_int (\<lambda>size.
     andthen pop_int (\<lambda>offset.
     andthen (or_panic ArithmeticOverflow (add_u b offset size)) (\<lambda>hi.
     andthen (or_panic IndexOutOfBounds (vec_slice prog offset hi)) (\<lambda>bytes.
     andthen (push (VBytes (take 32 (H bytes)))) (\<lambda>_.
     advance b 1)))))"

definition op_balance :: "build \<Rightarrow> (vm_context, vm_error, unit) comp" where
  "op_balance b =
     andthen pop_address (\<lambda>address.
     andthen (contract_at address) (\<lambda>k.
     andthen (push (VInt (contract_balance k))) (\<lambda>_.
     advance b 1)))"

section \<open>One step\<close>

text \<open>The opcodes that \<open>execute\<close> implements. The gas schedule prices five more (\<open>0x06\<close> to \<open>0x0A\<close>:
  jumps and comparisons), which fall through to \<open>InvalidOpcode\<close>.\<close>

definition exec_opcode ::
  "build \<Rightarrow> (u8 list \<Rightarrow> u8 list) \<Rightarrow> u8 list \<Rightarrow> u8 \<Rightarrow> (vm_context, vm_error, bool) comp" where
  "exec_opcode b H prog opcode =
     (if opcode = 0x01 then andthen (op_push b prog) (\<lambda>_. ret False)
      else if opcode = 0x02 then andthen (op_add b) (\<lambda>_. ret False)
      else if opcode = 0x03 then andthen (op_mul b) (\<lambda>_. ret False)
      else if opcode = 0x04 then andthen (op_store b) (\<lambda>_. ret False)
      else if opcode = 0x05 then andthen (op_load b) (\<lambda>_. ret False)
      else if opcode = 0x0B then andthen (op_create b H prog) (\<lambda>_. ret False)
      else if opcode = 0x0C then andthen (op_call b) (\<lambda>_. ret False)
      else if opcode = 0x0D then andthen (op_return b prog) (\<lambda>_. ret False)
      else if opcode = 0x0E then andthen (op_sha3 b H prog) (\<lambda>_. ret False)
      else if opcode = 0x0F then andthen (op_balance b) (\<lambda>_. ret False)
      else if opcode = 0xFF then ret True
      else fail (InvalidOpcode opcode))"

definition op_price :: "gas_config \<Rightarrow> u8 \<Rightarrow> u64" where
  "op_price cfg opcode = (case op_cost cfg opcode of None \<Rightarrow> gas_base cfg | Some g \<Rightarrow> g)"

definition vm_step ::
  "build \<Rightarrow> (u8 list \<Rightarrow> u8 list) \<Rightarrow> u8 list \<Rightarrow> (vm_context, vm_error, bool) comp" where
  "vm_step b H prog =
     andthen (reads program_counter) (\<lambda>pc.
     andthen (or_panic IndexOutOfBounds (index prog (unat pc))) (\<lambda>opcode.
     andthen (reads gas_config) (\<lambda>cfg.
     andthen (use_gas (op_price cfg opcode)) (\<lambda>_.
     exec_opcode b H prog opcode))))"

definition vm_running :: "u8 list \<Rightarrow> vm_context \<Rightarrow> bool" where
  "vm_running prog c \<longleftrightarrow> unat (program_counter c) < length prog"

section \<open>Weakest preconditions of the primitives\<close>

lemma wp_pop_int [wp_simps]:
  "wp pop_int Q E F c =
     (case vec_pop (stack c) of
        None \<Rightarrow> E StackUnderflow c
      | Some (v, st) \<Rightarrow>
          (case v of VInt i \<Rightarrow> Q i (c\<lparr>stack := st\<rparr>) | _ \<Rightarrow> E StackUnderflow (c\<lparr>stack := st\<rparr>)))"
  by (simp add: wp_def pop_int_def split: option.split prod.split val.split)

lemma wp_pop_address [wp_simps]:
  "wp pop_address Q E F c =
     (case vec_pop (stack c) of
        None \<Rightarrow> E StackUnderflow c
      | Some (v, st) \<Rightarrow>
          (case v of VAddress a \<Rightarrow> Q a (c\<lparr>stack := st\<rparr>) | _ \<Rightarrow> E StackUnderflow (c\<lparr>stack := st\<rparr>)))"
  by (simp add: wp_def pop_address_def split: option.split prod.split val.split)

lemma wp_pop_value [wp_simps]:
  "wp pop_value Q E F c =
     (case vec_pop (stack c) of
        None \<Rightarrow> E StackUnderflow c
      | Some (v, st) \<Rightarrow> Q v (c\<lparr>stack := st\<rparr>))"
  by (simp add: wp_def pop_value_def split: option.split prod.split)

lemma wp_push [wp_simps]: "wp (push v) Q E F c = Q () (c\<lparr>stack := stack c @ [v]\<rparr>)"
  by (simp add: push_def wp_simps)

lemma wp_advance [wp_simps]:
  "wp (advance b n) Q E F c =
     (case add_u b (program_counter c) n of
        None \<Rightarrow> F ArithmeticOverflow c
      | Some pc' \<Rightarrow> Q () (c\<lparr>program_counter := pc'\<rparr>))"
  by (simp add: advance_def wp_simps split: option.split)

lemma wp_contract_at [wp_simps]:
  "wp (contract_at a) Q E F c =
     (case memory c (address_slot a) of
        Some (VContract k) \<Rightarrow> Q k c
      | _ \<Rightarrow> E (ExecutionError ''Contract not found'') c)"
  by (simp add: contract_at_def wp_simps split: option.split val.split)

lemmas op_defs =
  op_push_def op_add_def op_mul_def op_store_def op_load_def op_create_def op_call_def
  op_return_def op_sha3_def op_balance_def

lemmas val_splits = option.splits prod.splits val.splits

end
