(* ===== verification/VM_Exec.thy ===== *)
theory VM_Exec
  imports VM_Ops
begin

text \<open>
  The loop of \<open>VM::execute\<close> (\<open>src/vm.rs\<close>) over the instructions of \<open>VM_Ops\<close>, and the contract
  that every instruction keeps: what it may touch, how far it moves the program counter, what
  it costs. From the contract follow termination and the invariants of whole runs.
\<close>

section \<open>The loop\<close>

definition vm_loop ::
  "nat \<Rightarrow> build \<Rightarrow> (u8 list \<Rightarrow> u8 list) \<Rightarrow> u8 list \<Rightarrow> vm_context \<Rightarrow>
   ((vm_error, unit) outcome \<times> vm_context) option" where
  "vm_loop n b H prog c = run_loop n (vm_running prog) (vm_step b H prog) c"

text \<open>
  \<open>execute\<close> runs the loop and, when it ends without an error, recomputes the state root; \<open>ks\<close> is
  the iteration order of the storage map there. No instruction moves the program counter back,
  so one unit of fuel per byte of the program, and one more for the last test of the loop, is
  enough (\<open>vm_loop_returns\<close>).
\<close>

definition vm_execute ::
  "build \<Rightarrow> (u8 list \<Rightarrow> u8 list) \<Rightarrow> addr32 list \<Rightarrow> u8 list \<Rightarrow> vm_context \<Rightarrow>
   ((vm_error, unit) outcome \<times> vm_context) option" where
  "vm_execute b H ks prog c =
     (case vm_loop (Suc (length prog)) b H prog c of
        None \<Rightarrow> None
      | Some (Ok u, c') \<Rightarrow> Some (Ok u, compute_state_root H ks c')
      | Some (Err e, c') \<Rightarrow> Some (Err e, c')
      | Some (Panic p, c') \<Rightarrow> Some (Panic p, c'))"

section \<open>What an instruction may touch\<close>

definition same_env :: "vm_context \<Rightarrow> vm_context \<Rightarrow> bool" where
  "same_env c c' \<longleftrightarrow>
     storage c' = storage c \<and> logs c' = logs c \<and> state_root c' = state_root c \<and>
     gas_config c' = gas_config c"

definition settles :: "vm_context \<Rightarrow> vm_context \<Rightarrow> bool" where
  "settles c c' \<longleftrightarrow>
     same_env c c' \<and> (length (stack c) \<le> 1024 \<longrightarrow> length (stack c') \<le> 1024) \<and>
     gas_remaining c' \<le> gas_remaining c"

definition moves :: "u8 list \<Rightarrow> vm_context \<Rightarrow> vm_context \<Rightarrow> bool" where
  "moves prog c c' \<longleftrightarrow>
     unat (program_counter c) < unat (program_counter c') \<and>
     unat (program_counter c') \<le> length prog"

text \<open>A program in memory is a \<open>Vec<u8>\<close>: it has fewer than \<open>2 ^ 63\<close> bytes.\<close>

definition vec_bounded :: "'a list \<Rightarrow> bool" where
  "vec_bounded xs \<longleftrightarrow> length xs < 2 ^ 63"

lemma unat_pc_plus:
  fixes pc :: usize
  assumes "unat pc < length prog" and "vec_bounded prog" and "unat n \<le> 2"
  shows "unat (pc + n) = unat pc + unat n"
  using assms by (intro unat_add_no_wrap) (simp add: vec_bounded_def)

lemma slice_no_wrap:
  fixes lo n :: usize
  assumes "vec_slice prog lo (lo + n) = Some xs"
  shows "unat (lo + n) = unat lo + unat n" and "unat lo + unat n \<le> length prog"
proof -
  from assms have le: "lo \<le> lo + n" "unat (lo + n) \<le> length prog"
    by (simp_all add: vec_slice_def split: if_splits)
  from le(1) show eq: "unat (lo + n) = unat lo + unat n"
    by (simp add: unat_plus_simple)
  with le(2) show "unat lo + unat n \<le> length prog" by simp
qed

lemma sub_le_self: "n \<le> g \<Longrightarrow> g - n \<le> (g :: 'w::len word)"
  by (simp add: word_sub_le)

named_theorems op_contract \<open>the contract of each instruction\<close>

definition keeps_contract :: "u8 list \<Rightarrow> (vm_context, vm_error, 'a) comp \<Rightarrow> bool" where
  "keeps_contract prog m \<longleftrightarrow>
     (\<forall>c. vm_running prog c \<and> vec_bounded prog \<longrightarrow>
        wp m (\<lambda>_ c'. settles c c' \<and> moves prog c c') (\<lambda>_. settles c) (\<lambda>_. settles c) c)"

lemma keeps_contractI:
  assumes "\<And>c. vm_running prog c \<Longrightarrow> vec_bounded prog \<Longrightarrow>
    wp m (\<lambda>_ c'. settles c c' \<and> moves prog c c') (\<lambda>_. settles c) (\<lambda>_. settles c) c"
  shows "keeps_contract prog m"
  using assms by (simp add: keeps_contract_def)

lemmas contract_simps =
  settles_def moves_def same_env_def vm_running_def vec_pop_Some vec_pop_None

lemma advance_one:
  fixes pc :: usize
  assumes "add_u b pc 1 = Some pc'" and "unat pc < length prog" and "vec_bounded prog"
  shows "unat pc < unat pc'" and "unat pc' \<le> length prog"
proof -
  have "pc' = pc + 1" by (rule add_u_Some_eq [OF assms(1)])
  then have "unat pc' = Suc (unat pc)"
    using unat_pc_plus [of pc prog 1] assms(2,3) by simp
  with assms(2) show "unat pc < unat pc'" and "unat pc' \<le> length prog" by simp_all
qed

lemma op_push_contract [op_contract]: "keeps_contract prog (op_push b prog)"
proof (rule keeps_contractI)
  fix c assume run: "vm_running prog c" and len: "vec_bounded prog"
  let ?pc = "program_counter c"
  have plus: "unat (?pc + 1) = Suc (unat ?pc)" "unat (?pc + 2) = Suc (Suc (unat ?pc))"
    using unat_pc_plus [of ?pc prog 1] unat_pc_plus [of ?pc prog 2] run len
    by (simp_all add: vm_running_def)
  show "wp (op_push b prog) (\<lambda>_ c'. settles c c' \<and> moves prog c c') (\<lambda>_. settles c)
      (\<lambda>_. settles c) c"
    using run plus
    by (auto simp: op_push_def wp_simps contract_simps index_def dest!: add_u_Some_eq
        split: option.splits if_splits)
qed

lemma op_add_contract [op_contract]: "keeps_contract prog (op_add b)"
  by (rule keeps_contractI)
    (auto simp: op_add_def wp_simps contract_simps intro: advance_one split: val_splits)

lemma op_mul_contract [op_contract]: "keeps_contract prog (op_mul b)"
  by (rule keeps_contractI)
    (auto simp: op_mul_def wp_simps contract_simps intro: advance_one split: val_splits)

lemma op_store_contract [op_contract]: "keeps_contract prog (op_store b)"
  by (rule keeps_contractI)
    (auto simp: op_store_def wp_simps contract_simps intro: advance_one split: val_splits)

lemma op_load_contract [op_contract]: "keeps_contract prog (op_load b)"
  by (rule keeps_contractI)
    (auto simp: op_load_def wp_simps contract_simps intro: advance_one split: val_splits)

lemma op_call_contract [op_contract]: "keeps_contract prog (op_call b)"
  by (rule keeps_contractI)
    (auto simp: op_call_def wp_simps contract_simps intro: advance_one split: val_splits)

lemma op_return_contract [op_contract]: "keeps_contract prog (op_return b prog)"
  by (rule keeps_contractI)
    (auto simp: op_return_def wp_simps contract_simps intro: advance_one split: val_splits)

lemma op_sha3_contract [op_contract]: "keeps_contract prog (op_sha3 b H prog)"
  by (rule keeps_contractI)
    (auto simp: op_sha3_def wp_simps contract_simps intro: advance_one split: val_splits)

lemma op_balance_contract [op_contract]: "keeps_contract prog (op_balance b)"
  by (rule keeps_contractI)
    (auto simp: op_balance_def wp_simps contract_simps intro: advance_one split: val_splits)

lemma op_create_contract [op_contract]: "keeps_contract prog (op_create b H prog)"
proof (rule keeps_contractI)
  fix c assume run: "vm_running prog c" and len: "vec_bounded prog"
  let ?pc = "program_counter c"
  have moved: "unat ?pc < unat pc' \<and> unat pc' \<le> length prog"
    if "vec_slice prog (?pc + 1) (?pc + 1 + n) = Some xs" and "pc' = ?pc + (1 + n)" for n xs pc'
  proof -
    have "unat (?pc + 1) = Suc (unat ?pc)"
      using unat_pc_plus [of ?pc prog 1] run len by (simp add: vm_running_def)
    with slice_no_wrap [OF that(1)] that(2) show ?thesis by (simp add: add.assoc)
  qed
  show "wp (op_create b H prog) (\<lambda>_ c'. settles c c' \<and> moves prog c c') (\<lambda>_. settles c)
      (\<lambda>_. settles c) c"
    by (auto simp: op_create_def wp_simps contract_simps dest!: add_u_Some_eq dest: moved
        intro: sub_le_self split: val_splits)
qed

section \<open>One pass of the loop\<close>

lemma exec_opcode_contract:
  assumes "vm_running prog c" and "vec_bounded prog"
  shows "wp (exec_opcode b H prog opcode)
    (\<lambda>stop c'. settles c c' \<and> (if stop then c' = c else moves prog c c'))
    (\<lambda>_. settles c) (\<lambda>_. settles c) c"
proof -
  have ops: "wp m (\<lambda>_ c'. settles c c' \<and> moves prog c c') (\<lambda>_. settles c) (\<lambda>_. settles c) c"
    if "keeps_contract prog m" for m :: "(vm_context, vm_error, unit) comp"
    using that assms by (simp add: keeps_contract_def)
  have "settles c c" by (simp add: settles_def same_env_def)
  then show ?thesis
    by (simp add: exec_opcode_def wp_simps ops op_contract)
qed

lemma op_gas_same:
  "wp (op_push b prog) (\<lambda>_ c'. gas_remaining c' = gas_remaining c) (\<lambda>_ _. True) (\<lambda>_ _. True) c"
  "wp (op_add b) (\<lambda>_ c'. gas_remaining c' = gas_remaining c) (\<lambda>_ _. True) (\<lambda>_ _. True) c"
  "wp (op_mul b) (\<lambda>_ c'. gas_remaining c' = gas_remaining c) (\<lambda>_ _. True) (\<lambda>_ _. True) c"
  "wp (op_store b) (\<lambda>_ c'. gas_remaining c' = gas_remaining c) (\<lambda>_ _. True) (\<lambda>_ _. True) c"
  "wp (op_load b) (\<lambda>_ c'. gas_remaining c' = gas_remaining c) (\<lambda>_ _. True) (\<lambda>_ _. True) c"
  "wp (op_call b) (\<lambda>_ c'. gas_remaining c' = gas_remaining c) (\<lambda>_ _. True) (\<lambda>_ _. True) c"
  "wp (op_return b prog) (\<lambda>_ c'. gas_remaining c' = gas_remaining c) (\<lambda>_ _. True) (\<lambda>_ _. True) c"
  "wp (op_sha3 b H prog) (\<lambda>_ c'. gas_remaining c' = gas_remaining c) (\<lambda>_ _. True) (\<lambda>_ _. True) c"
  "wp (op_balance b) (\<lambda>_ c'. gas_remaining c' = gas_remaining c) (\<lambda>_ _. True) (\<lambda>_ _. True) c"
  by (simp_all add: op_defs wp_simps split: option.split prod.split val.split)

lemma op_create_gas:
  "wp (op_create b H prog)
     (\<lambda>_ c'. unat (gas_remaining c) = unat (gas_remaining c') + unat (contract_creation (gas_config c)))
     (\<lambda>_ _. True) (\<lambda>_ _. True) c"
  by (auto simp: op_create_def wp_simps unat_sub_le not_less word_le_nat_alt split: val_splits)

text \<open>The gas that an instruction which completes has taken: the price of its opcode, and for
  \<open>CREATE\<close> the price of a contract on top.\<close>

definition opcode_cost :: "gas_config \<Rightarrow> u8 \<Rightarrow> nat" where
  "opcode_cost cfg opcode =
     unat (op_price cfg opcode) + (if opcode = 0x0B then unat (contract_creation cfg) else 0)"

lemma exec_opcode_gas:
  "wp (exec_opcode b H prog opcode)
     (\<lambda>_ c'. unat (gas_remaining c) = unat (gas_remaining c') +
        (if opcode = 0x0B then unat (contract_creation (gas_config c)) else 0))
     (\<lambda>_ _. True) (\<lambda>_ _. True) c"
proof -
  have same: "wp m (\<lambda>_ c'. unat (gas_remaining c) = unat (gas_remaining c')) (\<lambda>_ _. True)
      (\<lambda>_ _. True) c"
    if "wp m (\<lambda>_ c'. gas_remaining c' = gas_remaining c) (\<lambda>_ _. True) (\<lambda>_ _. True) c"
    for m :: "(vm_context, vm_error, unit) comp"
    by (rule wp_mono [OF that]) auto
  show ?thesis
    by (simp add: exec_opcode_def wp_simps same op_gas_same op_create_gas)
qed

text \<open>
  The contract of one pass. On a normal end the opcode's cost has been paid exactly; \<open>STOP\<close>
  changes nothing but the gas, any other instruction moves the program counter forward.
\<close>

definition pays :: "u8 list \<Rightarrow> vm_context \<Rightarrow> vm_context \<Rightarrow> bool" where
  "pays prog c c' \<longleftrightarrow>
     unat (gas_remaining c) =
       unat (gas_remaining c') + opcode_cost (gas_config c) (prog ! unat (program_counter c))"

lemma settles_refl [simp]: "settles c c"
  by (simp add: settles_def same_env_def)

lemma settles_trans: "settles c d \<Longrightarrow> settles d e \<Longrightarrow> settles c e"
  by (auto simp: settles_def same_env_def)

lemma settles_charged: "n \<le> gas_remaining c \<Longrightarrow>
    settles (c\<lparr>gas_remaining := gas_remaining c - n\<rparr>) c' \<Longrightarrow> settles c c'"
  by (auto simp: settles_def same_env_def intro: order.trans [OF _ sub_le_self])

lemma vm_step_contract:
  assumes run: "vm_running prog c" and len: "vec_bounded prog"
  shows "wp (vm_step b H prog)
    (\<lambda>stop c'. settles c c' \<and> pays prog c c' \<and>
       (if stop then c' = c\<lparr>gas_remaining := gas_remaining c'\<rparr> else moves prog c c'))
    (\<lambda>_. settles c) (\<lambda>_. settles c) c"
proof -
  let ?op = "prog ! unat (program_counter c)" and ?price = "op_price (gas_config c)"
  have idx: "index prog (unat (program_counter c)) = Some ?op"
    using run by (simp add: index_def vm_running_def)
  show ?thesis
  proof (cases "gas_remaining c < ?price ?op")
    case True
    then show ?thesis by (simp add: vm_step_def wp_simps idx)
  next
    case False
    define d where "d = c\<lparr>gas_remaining := gas_remaining c - ?price ?op\<rparr>"
    have le: "?price ?op \<le> gas_remaining c" using False by simp
    have run_d: "vm_running prog d" using run by (simp add: d_def vm_running_def)
    have gas_d: "unat (gas_remaining c) = unat (gas_remaining d) + unat (?price ?op)"
      using le by (simp add: d_def unat_sub_le word_le_nat_alt)
    have settles_d: "settles d t \<Longrightarrow> settles c t" for t
      unfolding d_def by (rule settles_charged [OF le])
    have moves_d: "moves prog d t = moves prog c t" for t
      by (simp add: d_def moves_def)
    have "wp (exec_opcode b H prog ?op)
      (\<lambda>stop c'. settles c c' \<and> pays prog c c' \<and>
         (if stop then c' = c\<lparr>gas_remaining := gas_remaining c'\<rparr> else moves prog c c'))
      (\<lambda>_. settles c) (\<lambda>_. settles c) d"
    proof (cases "exec_opcode b H prog ?op d")
      case (Pair r t)
      have *: "case r of
          Ok stop \<Rightarrow> settles d t \<and> (if stop then t = d else moves prog d t)
        | _ \<Rightarrow> settles d t"
        using exec_opcode_contract [OF run_d len, of b H ?op] Pair
        by (auto simp: wp_def split: outcome.splits)
      have "r = Ok stop \<Longrightarrow> pays prog c t" for stop
        using wp_Ok [OF exec_opcode_gas [of b H prog ?op d]] Pair gas_d
        by (auto simp: pays_def opcode_cost_def d_def)
      with * Pair show ?thesis
        by (auto simp: wp_def moves_d d_def [symmetric] intro: settles_d split: outcome.splits
            if_splits) (simp_all add: d_def)
    qed
    with False show ?thesis by (simp add: vm_step_def wp_simps idx d_def)
  qed
qed

end
