(* ===== verification/VM_Runs.thy ===== *)
theory VM_Runs
  imports VM_Exec
begin

text \<open>
  Whole runs of the virtual machine: the loop contract of \<open>vm_step\<close>, the opcodes a run executes
  and the gas they take, the invariants every run keeps, and what running the same machine again
  does.
\<close>

section \<open>The loop contract\<close>

interpretation vm_run: metered_loop
  "vm_running prog" "vm_step b H prog" "\<lambda>c. length prog - unat (program_counter c)"
  "\<lambda>c. vec_bounded prog \<and> settles c0 c"
  for b H prog c0
proof
  fix c r c'
  assume inv: "vec_bounded prog \<and> settles c0 c" and run: "vm_running prog c"
    and st: "vm_step b H prog c = (r, c')"
  have "wp (vm_step b H prog) (\<lambda>_. settles c) (\<lambda>_. settles c) (\<lambda>_. settles c) c"
    by (rule wp_mono [OF vm_step_contract]) (use run inv in auto)
  from wp_all [OF this st] inv show "vec_bounded prog \<and> settles c0 c'"
    by (auto intro: settles_trans)
next
  fix c c'
  assume inv: "vec_bounded prog \<and> settles c0 c" and run: "vm_running prog c"
    and st: "vm_step b H prog c = (Ok False, c')"
  have "moves prog c c'"
    using wp_Ok [OF vm_step_contract [OF run] st] inv by simp
  with run show "length prog - unat (program_counter c') < length prog - unat (program_counter c)"
    by (auto simp: moves_def vm_running_def)
qed

lemma vm_loop_returns:
  assumes "vec_bounded prog"
  shows "\<exists>r c'. vm_loop (Suc (length prog)) b H prog c = Some (r, c') \<and> settles c c'"
  unfolding vm_loop_def
  using vm_run.enough_fuel [where prog = prog and s = c and ?c0.0 = c and b = b and H = H
      and n = "Suc (length prog)"] assms
  by (auto simp del: run_loop.simps)

lemma vm_execute_cases:
  assumes "vm_execute b H ks prog c = Some (r, c')"
  obtains d where "vm_loop (Suc (length prog)) b H prog c = Some (r, d)"
    and "c' = (case r of Ok _ \<Rightarrow> compute_state_root H ks d | _ \<Rightarrow> d)"
  using assms by (auto simp: vm_execute_def split: option.splits prod.splits outcome.splits)

lemma vm_execute_from_loop:
  assumes "run_loop n (vm_running prog) (vm_step b H prog) c = Some (r, d)" and "vec_bounded prog"
  shows "vm_execute b H ks prog c =
    Some (r, case r of Ok _ \<Rightarrow> compute_state_root H ks d | _ \<Rightarrow> d)"
proof -
  obtain q t where "vm_loop (Suc (length prog)) b H prog c = Some (q, t)"
    using vm_loop_returns [OF assms(2)] by blast
  moreover from run_loop_unique [OF this [unfolded vm_loop_def] assms(1)] have "(q, t) = (r, d)" .
  ultimately show ?thesis by (cases r) (simp_all add: vm_execute_def)
qed

lemma root_preimage_cong:
  "same_env c d \<Longrightarrow> root_preimage ks d = root_preimage ks c"
  by (simp add: same_env_def root_preimage_def)

lemma compute_state_root_simps [simp]:
  "stack (compute_state_root H ks c) = stack c"
  "memory (compute_state_root H ks c) = memory c"
  "storage (compute_state_root H ks c) = storage c"
  "program_counter (compute_state_root H ks c) = program_counter c"
  "gas_remaining (compute_state_root H ks c) = gas_remaining c"
  "gas_config (compute_state_root H ks c) = gas_config c"
  "call_stack (compute_state_root H ks c) = call_stack c"
  "logs (compute_state_root H ks c) = logs c"
  "state_root (compute_state_root H ks c) = take 32 (H (root_preimage ks c))"
  by (simp_all add: compute_state_root_def)

section \<open>The opcodes of a run\<close>

text \<open>\<open>vm_trace prog c ops d\<close>: the loop goes from \<open>c\<close> to \<open>d\<close> through the instructions \<open>ops\<close>,
  none of which leaves it. \<open>completes\<close>: a run of the loop that ends without an error, at \<open>STOP\<close> or
  at the end of the program.\<close>

inductive vm_trace ::
  "build \<Rightarrow> (u8 list \<Rightarrow> u8 list) \<Rightarrow> u8 list \<Rightarrow> vm_context \<Rightarrow> u8 list \<Rightarrow> vm_context \<Rightarrow> bool"
  for b H prog where
  trace_nil: "vm_trace b H prog c [] c"
| trace_step: "vm_running prog c \<Longrightarrow> vm_step b H prog c = (Ok False, d) \<Longrightarrow>
     vm_trace b H prog d ops e \<Longrightarrow>
     vm_trace b H prog c (prog ! unat (program_counter c) # ops) e"

inductive completes ::
  "build \<Rightarrow> (u8 list \<Rightarrow> u8 list) \<Rightarrow> u8 list \<Rightarrow> vm_context \<Rightarrow> u8 list \<Rightarrow> vm_context \<Rightarrow> bool"
  for b H prog where
  at_end: "\<not> vm_running prog c \<Longrightarrow> completes b H prog c [] c"
| at_stop: "vm_running prog c \<Longrightarrow> vm_step b H prog c = (Ok True, d) \<Longrightarrow>
     completes b H prog c [prog ! unat (program_counter c)] d"
| one_more: "vm_running prog c \<Longrightarrow> vm_step b H prog c = (Ok False, d) \<Longrightarrow>
     completes b H prog d ops e \<Longrightarrow>
     completes b H prog c (prog ! unat (program_counter c) # ops) e"

inductive_cases trace_nilE: "vm_trace b H prog c [] d"
inductive_cases trace_consE: "vm_trace b H prog c (x # ops) d"

lemma trace_append:
  "vm_trace b H prog c ops d \<Longrightarrow> vm_trace b H prog d ops' e \<Longrightarrow>
   vm_trace b H prog c (ops @ ops') e"
  by (induction rule: vm_trace.induct) (auto intro: trace_step)

lemma trace_run_loop:
  "vm_trace b H prog c ops d \<Longrightarrow>
   run_loop (length ops + n) (vm_running prog) (vm_step b H prog) c =
   run_loop n (vm_running prog) (vm_step b H prog) d"
  by (induction rule: vm_trace.induct) auto

lemma loop_completes:
  assumes "run_loop n (vm_running prog) (vm_step b H prog) c = Some (Ok (), d)"
  shows "\<exists>ops. completes b H prog c ops d"
  using assms
proof (induction n arbitrary: c)
  case 0
  then show ?case by simp
next
  case (Suc n)
  show ?case
  proof (cases "vm_running prog c")
    case False
    with Suc.prems show ?thesis by (auto intro: at_end)
  next
    case True
    with Suc.prems obtain stop e where st: "vm_step b H prog c = (Ok stop, e)"
      by (auto split: prod.splits outcome.splits)
    show ?thesis
    proof (cases stop)
      case True
      with Suc.prems st \<open>vm_running prog c\<close> show ?thesis by (auto intro: at_stop)
    next
      case False
      with Suc.prems st True have "run_loop n (vm_running prog) (vm_step b H prog) e = Some (Ok (), d)"
        by simp
      with Suc.IH obtain ops where "completes b H prog e ops d" by blast
      with st False True show ?thesis by (auto intro: one_more)
    qed
  qed
qed

lemma step_pays:
  assumes "vm_running prog c" "vec_bounded prog" "vm_step b H prog c = (Ok stop, d)"
  shows "unat (gas_remaining c) =
      unat (gas_remaining d) + opcode_cost (gas_config c) (prog ! unat (program_counter c))"
    and "gas_config d = gas_config c"
  using wp_Ok [OF vm_step_contract [OF assms(1,2)] assms(3)]
  by (simp_all add: pays_def settles_def same_env_def)

lemma completes_gas:
  assumes "completes b H prog c ops d" and "vec_bounded prog"
  shows "unat (gas_remaining c) =
    unat (gas_remaining d) + sum_list (map (opcode_cost (gas_config c)) ops)"
  using assms
proof (induction rule: completes.induct)
  case (at_end c)
  then show ?case by simp
next
  case (at_stop c d)
  then show ?case using step_pays(1) [OF at_stop(1) at_stop(3) at_stop(2)] by simp
next
  case (one_more c d ops e)
  then show ?case using step_pays [OF one_more(1) one_more.prems one_more(2)] by simp
qed

lemma trace_gas:
  assumes "vm_trace b H prog c ops d" and "vec_bounded prog"
  shows "unat (gas_remaining c) =
    unat (gas_remaining d) + sum_list (map (opcode_cost (gas_config c)) ops)"
  using assms
proof (induction rule: vm_trace.induct)
  case (trace_nil c)
  then show ?case by simp
next
  case (trace_step c d ops e)
  then show ?case using step_pays [OF trace_step(1) trace_step.prems trace_step(2)] by simp
qed

lemma default_cost_at_least_2: "2 \<le> opcode_cost gas_config_default opcode"
  by (simp add: opcode_cost_def op_price_def gas_config_default_def default_op_cost_def)

end
