(* ===== verification/VM_Provenance.thy ===== *)
theory VM_Provenance
  imports VM_Runs "HOL-Library.Sublist"
begin

text \<open>
  Where the values of the machine come from. A run makes values only from its program: the code of a
  contract, the input of a hash and what \<open>RETURN\<close> hands back are contiguous parts of the program, and an
  address is the hash of such a part. Every instruction keeps this, in the stack, the memory and the
  call frames.
\<close>

definition hash_of_code :: "(u8 list \<Rightarrow> u8 list) \<Rightarrow> u8 list \<Rightarrow> u8 list \<Rightarrow> bool" where
  "hash_of_code H prog d \<longleftrightarrow> (\<exists>code. sublist code prog \<and> d = take 32 (H code))"

fun val_from :: "(u8 list \<Rightarrow> u8 list) \<Rightarrow> u8 list \<Rightarrow> val \<Rightarrow> bool" where
  "val_from H prog (VInt i) = True"
| "val_from H prog (VBool x) = False"
| "val_from H prog (VBytes d) = hash_of_code H prog d"
| "val_from H prog (VAddress a) = hash_of_code H prog a"
| "val_from H prog (VContract (ContractData code st bal)) = (sublist code prog \<and> st = Map.empty)"

definition frame_from :: "(u8 list \<Rightarrow> u8 list) \<Rightarrow> u8 list \<Rightarrow> call_frame \<Rightarrow> bool" where
  "frame_from H prog f \<longleftrightarrow> frame_caller f = replicate 32 0 \<and> hash_of_code H prog (frame_address f) \<and>
     sublist (frame_code f) prog \<and> sublist (return_data f) prog"

definition context_from :: "(u8 list \<Rightarrow> u8 list) \<Rightarrow> u8 list \<Rightarrow> vm_context \<Rightarrow> bool" where
  "context_from H prog c \<longleftrightarrow>
     (\<forall>v \<in> set (stack c). val_from H prog v) \<and>
     (\<forall>a v. memory c a = Some v \<longrightarrow> val_from H prog v) \<and>
     (\<forall>f \<in> set (call_stack c). frame_from H prog f)"

lemma context_from_new: "context_from H prog (context_new g)"
  by (simp add: context_from_def context_new_def)

lemma slice_sublist: "vec_slice prog lo hi = Some xs \<Longrightarrow> sublist xs prog"
  by (auto simp: vec_slice_def split: if_splits) (metis append_take_drop_id sublist_appendI)

lemma hash_of_slice: "vec_slice prog lo hi = Some xs \<Longrightarrow> hash_of_code H prog (take 32 (H xs))"
  by (auto simp: hash_of_code_def intro: slice_sublist)

lemma contract_from: "val_from H prog (VContract k) \<longleftrightarrow> sublist (contract_code k) prog \<and> contract_storage k = Map.empty"
  by (cases k) simp

definition keeps_origin :: "(u8 list \<Rightarrow> u8 list) \<Rightarrow> u8 list \<Rightarrow> (vm_context, vm_error, 'a) comp \<Rightarrow> bool" where
  "keeps_origin H prog m \<longleftrightarrow>
     (\<forall>c. context_from H prog c \<longrightarrow>
        wp m (\<lambda>_. context_from H prog) (\<lambda>_. context_from H prog) (\<lambda>_. context_from H prog) c)"

lemma keeps_originI:
  "(\<And>c. context_from H prog c \<Longrightarrow>
      wp m (\<lambda>_. context_from H prog) (\<lambda>_. context_from H prog) (\<lambda>_. context_from H prog) c) \<Longrightarrow>
   keeps_origin H prog m"
  by (simp add: keeps_origin_def)

lemmas origin_simps = context_from_def vec_pop_Some vec_pop_None

lemma op_arith_origin:
  "keeps_origin H prog (op_push b prog)" "keeps_origin H prog (op_add b)" "keeps_origin H prog (op_mul b)"
  by (rule keeps_originI,
      auto simp: op_push_def op_add_def op_mul_def wp_simps origin_simps split: val_splits)+

lemma op_memory_origin: "keeps_origin H prog (op_store b)" "keeps_origin H prog (op_load b)"
  by (rule keeps_originI,
      auto simp: op_store_def op_load_def wp_simps origin_simps split: val_splits)+

lemma op_create_origin: "keeps_origin H prog (op_create b H prog)"
  by (rule keeps_originI)
    (auto simp: op_create_def wp_simps origin_simps slice_sublist hash_of_slice split: val_splits)

lemma op_call_origin: "keeps_origin H prog (op_call b)"
proof (rule keeps_originI)
  fix c assume c: "context_from H prog c"
  have k: "sublist (contract_code k) prog" if "memory c a = Some (VContract k)" for a k
    using c that contract_from [of H prog k] by (auto simp: context_from_def)
  show "wp (op_call b) (\<lambda>_. context_from H prog) (\<lambda>_. context_from H prog) (\<lambda>_. context_from H prog) c"
    using c by (auto simp: op_call_def wp_simps origin_simps frame_from_def k split: val_splits)
qed

lemma op_balance_origin: "keeps_origin H prog (op_balance b)"
  by (rule keeps_originI) (auto simp: op_balance_def wp_simps origin_simps split: val_splits)

lemma op_return_origin: "keeps_origin H prog (op_return b prog)"
  by (rule keeps_originI)
    (auto simp: op_return_def wp_simps origin_simps frame_from_def slice_sublist split: val_splits)

lemma op_sha3_origin: "keeps_origin H prog (op_sha3 b H prog)"
  by (rule keeps_originI)
    (auto simp: op_sha3_def wp_simps origin_simps hash_of_slice split: val_splits)

lemmas ops_origin =
  op_arith_origin op_memory_origin op_create_origin op_call_origin op_balance_origin op_return_origin
  op_sha3_origin

lemma vm_step_origin: "keeps_origin H prog (vm_step b H prog)"
proof (rule keeps_originI)
  have op: "wp m (\<lambda>_. context_from H prog) (\<lambda>_. context_from H prog) (\<lambda>_. context_from H prog) c"
    if "keeps_origin H prog m" "context_from H prog c" for m :: "(vm_context, vm_error, unit) comp" and c
    using that by (simp add: keeps_origin_def)
  fix c assume c: "context_from H prog c"
  define d where "d n = c\<lparr>gas_remaining := gas_remaining c - n\<rparr>" for n
  have d: "context_from H prog (d n)" for n using c by (simp add: d_def context_from_def)
  show "wp (vm_step b H prog) (\<lambda>_. context_from H prog) (\<lambda>_. context_from H prog) (\<lambda>_. context_from H prog) c"
    by (simp add: vm_step_def wp_simps exec_opcode_def c op [OF ops_origin(1) d] d_def [symmetric]
        op ops_origin d split: option.split)
qed

interpretation vm_origin: metered_loop
  "vm_running prog" "vm_step b H prog" "\<lambda>c. length prog - unat (program_counter c)"
  "\<lambda>c. vec_bounded prog \<and> context_from H prog c"
  for b H prog
proof
  fix c r c'
  assume inv: "vec_bounded prog \<and> context_from H prog c" and st: "vm_step b H prog c = (r, c')"
  from inv have "wp (vm_step b H prog) (\<lambda>_. context_from H prog) (\<lambda>_. context_from H prog)
      (\<lambda>_. context_from H prog) c"
    using vm_step_origin [of H prog b] by (simp add: keeps_origin_def)
  from wp_all [OF this st] inv show "vec_bounded prog \<and> context_from H prog c'" by simp
next
  fix c c'
  assume "vec_bounded prog \<and> context_from H prog c" and "vm_running prog c"
    and "vm_step b H prog c = (Ok False, c')"
  then show "length prog - unat (program_counter c') < length prog - unat (program_counter c)"
    by (intro vm_run.step_meter [where ?c0.0 = c]) auto
qed

end
