(* ===== verification/VM_Interpreter.thy ===== *)
theory VM_Interpreter
  imports VM_Runs
begin

text \<open>
  A reference semantics of the bytecode and the proof that \<open>VM::execute\<close> (\<open>src/vm.rs\<close>) implements
  it. The interpreter \<open>interp\<close> is a structural recursion over the bytes that are left: it has no
  program counter, no fetch and no fuel, counts gas in natural numbers, and keeps the stack and
  the call frames with the top first. \<open>vm_execute_refines\<close> relates it to the machine for every
  program, in every outcome, errors and panics included.
\<close>

section \<open>The interpreter\<close>

record machine =
  mc_stack :: "val list"
  mc_memory :: "usize \<rightharpoonup> val"
  mc_frames :: "call_frame list"
  mc_gas :: nat

type_synonym 'a interpreted = "(machine, vm_error, 'a) comp"

definition i_int :: "i64 interpreted" where
  "i_int m =
     (case mc_stack m of
        [] \<Rightarrow> (Err StackUnderflow, m)
      | VInt i # st \<Rightarrow> (Ok i, m\<lparr>mc_stack := st\<rparr>)
      | _ # st \<Rightarrow> (Err StackUnderflow, m\<lparr>mc_stack := st\<rparr>))"

definition i_address :: "addr32 interpreted" where
  "i_address m =
     (case mc_stack m of
        [] \<Rightarrow> (Err StackUnderflow, m)
      | VAddress a # st \<Rightarrow> (Ok a, m\<lparr>mc_stack := st\<rparr>)
      | _ # st \<Rightarrow> (Err StackUnderflow, m\<lparr>mc_stack := st\<rparr>))"

definition i_value :: "val interpreted" where
  "i_value m =
     (case mc_stack m of
        [] \<Rightarrow> (Err StackUnderflow, m)
      | v # st \<Rightarrow> (Ok v, m\<lparr>mc_stack := st\<rparr>))"

definition i_put :: "val \<Rightarrow> unit interpreted" where
  "i_put v = updates (\<lambda>m. m\<lparr>mc_stack := v # mc_stack m\<rparr>)"

definition i_pay :: "nat \<Rightarrow> unit interpreted" where
  "i_pay n m = (if mc_gas m < n then (Err GasLimitExceeded, m) else (Ok (), m\<lparr>mc_gas := mc_gas m - n\<rparr>))"

text \<open>Bytes of the program from an offset: in range, or a panic, on the addition when the end of the
  range does not fit 64 bits in a debug build, and on the slice otherwise.\<close>

definition program_bytes :: "build \<Rightarrow> u8 list \<Rightarrow> nat \<Rightarrow> nat \<Rightarrow> (vm_error, u8 list) outcome" where
  "program_bytes b prog off n =
     (if off + n \<le> length prog then Ok (take n (drop off prog))
      else if b = Debug \<and> 2 ^ 64 \<le> off + n then Panic ArithmeticOverflow
      else Panic IndexOutOfBounds)"

text \<open>The instructions return the bytes the run goes on with; \<open>rest\<close> are the bytes after the opcode.\<close>

definition i_push :: "u8 list \<Rightarrow> u8 list interpreted" where
  "i_push rest m =
     (case rest of
        [] \<Rightarrow> (Panic IndexOutOfBounds, m)
      | v # rest' \<Rightarrow>
          if 1024 \<le> length (mc_stack m) then (Err StackOverflow, m)
          else (Ok rest', m\<lparr>mc_stack := VInt (ucast v) # mc_stack m\<rparr>))"

definition i_arith :: "(i64 \<Rightarrow> i64 \<Rightarrow> i64 option) \<Rightarrow> u8 list \<Rightarrow> u8 list interpreted" where
  "i_arith f rest =
     andthen i_int (\<lambda>y. andthen i_int (\<lambda>x.
     andthen (or_panic ArithmeticOverflow (f x y)) (\<lambda>r.
     andthen (i_put (VInt r)) (\<lambda>_. ret rest))))"

definition i_store :: "u8 list \<Rightarrow> u8 list interpreted" where
  "i_store rest =
     andthen i_int (\<lambda>addr. andthen i_value (\<lambda>v.
     andthen (updates (\<lambda>m. m\<lparr>mc_memory := (mc_memory m)(addr \<mapsto> v)\<rparr>)) (\<lambda>_. ret rest)))"

definition i_load :: "u8 list \<Rightarrow> u8 list interpreted" where
  "i_load rest =
     andthen i_int (\<lambda>addr. andthen (reads mc_memory) (\<lambda>mem.
     case mem addr of
       None \<Rightarrow> fail (MemoryError (''Address not found: '' @ decimal (unat addr)))
     | Some v \<Rightarrow> andthen (i_put v) (\<lambda>_. ret rest)))"

text \<open>\<open>CREATE\<close> takes the bytes that follow it as the contract's code, and the run goes on after them.\<close>

definition i_create ::
  "build \<Rightarrow> (u8 list \<Rightarrow> u8 list) \<Rightarrow> gas_config \<Rightarrow> u8 list \<Rightarrow> u8 list \<Rightarrow> u8 list interpreted" where
  "i_create b H cfg prog rest =
     andthen i_int (\<lambda>value. andthen i_int (\<lambda>size.
     andthen (i_pay (unat (contract_creation cfg))) (\<lambda>_.
     andthen (lift_outcome (program_bytes b prog (length prog - length rest) (unat size))) (\<lambda>code.
     andthen (i_put (VAddress (take 32 (H code)))) (\<lambda>_.
     andthen (i_put (VContract (ContractData code Map.empty value))) (\<lambda>_.
     ret (drop (unat size) rest)))))))"

definition i_contract :: "addr32 \<Rightarrow> contract_data interpreted" where
  "i_contract a =
     andthen (reads mc_memory) (\<lambda>mem.
     case mem (address_slot a) of
       Some (VContract k) \<Rightarrow> ret k
     | _ \<Rightarrow> fail (ExecutionError ''Contract not found''))"

definition i_call :: "u8 list \<Rightarrow> u8 list interpreted" where
  "i_call rest =
     andthen i_address (\<lambda>a. andthen i_int (\<lambda>value. andthen i_int (\<lambda>limit.
     andthen (i_contract a) (\<lambda>k.
     andthen (updates (\<lambda>m. m\<lparr>mc_frames :=
        \<lparr>frame_caller = replicate 32 0, frame_address = a, frame_value = value,
         frame_gas_limit = limit, frame_code = contract_code k, return_data = []\<rparr> # mc_frames m\<rparr>)) (\<lambda>_.
     ret rest)))))"

definition i_return :: "build \<Rightarrow> u8 list \<Rightarrow> u8 list \<Rightarrow> u8 list interpreted" where
  "i_return b prog rest =
     andthen i_int (\<lambda>size. andthen i_int (\<lambda>offset. andthen (reads mc_frames) (\<lambda>frames.
     case frames of
       [] \<Rightarrow> ret rest
     | frame # callers \<Rightarrow>
         andthen (lift_outcome (program_bytes b prog (unat offset) (unat size))) (\<lambda>bytes.
         andthen (updates (\<lambda>m. m\<lparr>mc_frames := frame\<lparr>return_data := bytes\<rparr> # callers\<rparr>)) (\<lambda>_.
         ret rest)))))"

definition i_sha3 :: "build \<Rightarrow> (u8 list \<Rightarrow> u8 list) \<Rightarrow> u8 list \<Rightarrow> u8 list \<Rightarrow> u8 list interpreted" where
  "i_sha3 b H prog rest =
     andthen i_int (\<lambda>size. andthen i_int (\<lambda>offset.
     andthen (lift_outcome (program_bytes b prog (unat offset) (unat size))) (\<lambda>bytes.
     andthen (i_put (VBytes (take 32 (H bytes)))) (\<lambda>_. ret rest))))"

definition i_balance :: "u8 list \<Rightarrow> u8 list interpreted" where
  "i_balance rest =
     andthen i_address (\<lambda>a. andthen (i_contract a) (\<lambda>k.
     andthen (i_put (VInt (contract_balance k))) (\<lambda>_. ret rest)))"

definition i_exec ::
  "build \<Rightarrow> (u8 list \<Rightarrow> u8 list) \<Rightarrow> gas_config \<Rightarrow> u8 list \<Rightarrow> u8 \<Rightarrow> u8 list \<Rightarrow> u8 list interpreted" where
  "i_exec b H cfg prog opcode rest =
     (if opcode = 0x01 then i_push rest
      else if opcode = 0x02 then i_arith (add_s b) rest
      else if opcode = 0x03 then i_arith (mul_s b) rest
      else if opcode = 0x04 then i_store rest
      else if opcode = 0x05 then i_load rest
      else if opcode = 0x0B then i_create b H cfg prog rest
      else if opcode = 0x0C then i_call rest
      else if opcode = 0x0D then i_return b prog rest
      else if opcode = 0x0E then i_sha3 b H prog rest
      else if opcode = 0x0F then i_balance rest
      else if opcode = 0xFF then ret []
      else fail (InvalidOpcode opcode))"

lemmas i_defs =
  i_push_def i_arith_def i_store_def i_load_def i_create_def i_call_def i_return_def i_sha3_def
  i_balance_def

definition i_step ::
  "build \<Rightarrow> (u8 list \<Rightarrow> u8 list) \<Rightarrow> gas_config \<Rightarrow> u8 list \<Rightarrow> u8 \<Rightarrow> u8 list \<Rightarrow> u8 list interpreted" where
  "i_step b H cfg prog opcode rest =
     andthen (i_pay (unat (op_price cfg opcode))) (\<lambda>_. i_exec b H cfg prog opcode rest)"

lemma wp_i_simps [wp_simps]:
  "wp i_int Q1 E F m =
     (case mc_stack m of
        [] \<Rightarrow> E StackUnderflow m
      | v # st \<Rightarrow> (case v of VInt i \<Rightarrow> Q1 i (m\<lparr>mc_stack := st\<rparr>) | _ \<Rightarrow> E StackUnderflow (m\<lparr>mc_stack := st\<rparr>)))"
  "wp i_address Q2 E F m =
     (case mc_stack m of
        [] \<Rightarrow> E StackUnderflow m
      | v # st \<Rightarrow> (case v of VAddress i \<Rightarrow> Q2 i (m\<lparr>mc_stack := st\<rparr>) | _ \<Rightarrow> E StackUnderflow (m\<lparr>mc_stack := st\<rparr>)))"
  "wp i_value Q3 E F m =
     (case mc_stack m of [] \<Rightarrow> E StackUnderflow m | v # st \<Rightarrow> Q3 v (m\<lparr>mc_stack := st\<rparr>))"
  "wp (i_put v) Q4 E F m = Q4 () (m\<lparr>mc_stack := v # mc_stack m\<rparr>)"
  "wp (i_pay n) Q5 E F m =
     (if mc_gas m < n then E GasLimitExceeded m else Q5 () (m\<lparr>mc_gas := mc_gas m - n\<rparr>))"
  "wp (i_contract a) Q6 E F m =
     (case mc_memory m (address_slot a) of
        Some (VContract k) \<Rightarrow> Q6 k m
      | _ \<Rightarrow> E (ExecutionError ''Contract not found'') m)"
  "wp (i_push rest) Q7 E F m =
     (case rest of
        [] \<Rightarrow> F IndexOutOfBounds m
      | v # rest' \<Rightarrow>
          if 1024 \<le> length (mc_stack m) then E StackOverflow m
          else Q7 rest' (m\<lparr>mc_stack := VInt (ucast v) # mc_stack m\<rparr>))"
  by (simp_all add: wp_def i_int_def i_address_def i_value_def i_put_def i_pay_def i_contract_def
      i_push_def andthen_def split: list.split val.split option.split)

lemma i_step_shrinks:
  "wp (i_step b H cfg prog opcode rest) (\<lambda>rest' _. length rest' \<le> length rest)
     (\<lambda>_ _. True) (\<lambda>_ _. True) m"
  by (simp add: i_step_def i_exec_def i_arith_def i_store_def i_load_def i_create_def i_call_def
      i_return_def i_sha3_def i_balance_def wp_simps
      split: list.split val.split option.split outcome.split)

function interp ::
  "build \<Rightarrow> (u8 list \<Rightarrow> u8 list) \<Rightarrow> gas_config \<Rightarrow> u8 list \<Rightarrow> u8 list \<Rightarrow> unit interpreted" where
  "interp b H cfg prog [] m = (Ok (), m)"
| "interp b H cfg prog (opcode # rest) m =
     (case i_step b H cfg prog opcode rest m of
        (Ok rest', m') \<Rightarrow> interp b H cfg prog rest' m'
      | (Err e, m') \<Rightarrow> (Err e, m')
      | (Panic p, m') \<Rightarrow> (Panic p, m'))"
  by pat_completeness auto
termination
  by (relation "measure (\<lambda>(_, _, _, _, rest, _). length rest)")
    (auto dest!: sym [of "(_, _)"] wp_Ok [OF i_step_shrinks])

section \<open>The machine implements the interpreter\<close>

definition machine_of :: "vm_context \<Rightarrow> machine" where
  "machine_of c =
     \<lparr>mc_stack = rev (stack c), mc_memory = memory c, mc_frames = rev (call_stack c),
      mc_gas = unat (gas_remaining c)\<rparr>"

lemma machine_of_sel [simp]:
  "mc_stack (machine_of c) = rev (stack c)" "mc_memory (machine_of c) = memory c"
  "mc_frames (machine_of c) = rev (call_stack c)" "mc_gas (machine_of c) = unat (gas_remaining c)"
  by (simp_all add: machine_of_def)

text \<open>The bytes the machine has still to run.\<close>

definition bytes_left :: "u8 list \<Rightarrow> vm_context \<Rightarrow> u8 list" where
  "bytes_left prog c = drop (unat (program_counter c)) prog"

definition agrees :: "('e, 'a) outcome \<times> machine \<Rightarrow> ('e, 'a) outcome \<Rightarrow> vm_context \<Rightarrow> bool" where
  "agrees p r c \<longleftrightarrow> p = (r, machine_of c)"

definition implements :: "u8 list \<Rightarrow> (vm_context, vm_error, unit) comp \<Rightarrow>
    (gas_config \<Rightarrow> u8 list \<Rightarrow> u8 list interpreted) \<Rightarrow> bool" where
  "implements prog m a \<longleftrightarrow>
     (\<forall>c. vm_running prog c \<longrightarrow> vec_bounded prog \<longrightarrow>
        (let ref = a (gas_config c) (tl (bytes_left prog c)) (machine_of c)
         in wp m (\<lambda>_ c'. agrees ref (Ok (bytes_left prog c')) c')
              (\<lambda>e. agrees ref (Err e)) (\<lambda>p. agrees ref (Panic p)) c))"

lemma slice_wraps:
  fixes lo n :: usize
  assumes "2 ^ 64 \<le> unat lo + unat n"
  shows "vec_slice prog lo (lo + n) = None"
proof -
  have "unat (lo + n) \<noteq> unat lo + unat n"
    using assms unat_lt_2p64 [of "lo + n"] by simp
  then show ?thesis by (auto simp: vec_slice_def unat_plus_simple)
qed

lemma program_bytes_simps:
  assumes "vec_bounded prog"
  shows "add_u b lo n = None \<Longrightarrow> program_bytes b prog (unat lo) (unat n) = Panic ArithmeticOverflow"
    and "add_u b lo n = Some hi \<Longrightarrow> vec_slice prog lo hi = None \<Longrightarrow>
      program_bytes b prog (unat lo) (unat n) = Panic IndexOutOfBounds"
    and "add_u b lo n = Some hi \<Longrightarrow> vec_slice prog lo hi = Some xs \<Longrightarrow>
      program_bytes b prog (unat lo) (unat n) = Ok xs"
proof -
  have long: "\<not> unat lo + unat n \<le> length prog" if "2 ^ 64 \<le> unat lo + unat n"
    using that assms by (simp add: vec_bounded_def)
  show "program_bytes b prog (unat lo) (unat n) = Panic ArithmeticOverflow" if "add_u b lo n = None"
    using that long by (auto simp: program_bytes_def add_u_def split: if_splits)
  assume hi: "add_u b lo n = Some hi"
  note eq = add_u_Some_eq [OF hi]
  show "program_bytes b prog (unat lo) (unat n) = Panic IndexOutOfBounds" if "vec_slice prog lo hi = None"
  proof (cases "2 ^ 64 \<le> unat lo + unat n")
    case True
    with long hi show ?thesis by (auto simp: program_bytes_def add_u_def split: if_splits)
  next
    case False
    then have "unat hi = unat lo + unat n" unfolding eq by (intro unat_add_no_wrap) simp
    with that False show ?thesis
      by (auto simp: program_bytes_def vec_slice_def word_le_nat_alt split: if_splits)
  qed
  show "program_bytes b prog (unat lo) (unat n) = Ok xs" if "vec_slice prog lo hi = Some xs"
  proof -
    have "\<not> 2 ^ 64 \<le> unat lo + unat n" using that slice_wraps [of lo n prog] eq by auto
    then have "unat hi = unat lo + unat n" unfolding eq by (intro unat_add_no_wrap) simp
    with that show ?thesis
      by (auto simp: program_bytes_def vec_slice_def split: if_splits)
  qed
qed

named_theorems implementing \<open>which instruction implements which\<close>

lemma implementsI:
  assumes "\<And>c op rest. vec_bounded prog \<Longrightarrow>
    drop (unat (program_counter c)) prog = op # rest \<Longrightarrow>
    drop (Suc (unat (program_counter c))) prog = rest \<Longrightarrow>
    add_u b (program_counter c) 1 = Some (program_counter c + 1) \<Longrightarrow>
    add_u b (program_counter c) 2 = Some (program_counter c + 2) \<Longrightarrow>
    unat (program_counter c + 1) = Suc (unat (program_counter c)) \<Longrightarrow>
    unat (program_counter c + 2) = Suc (Suc (unat (program_counter c))) \<Longrightarrow>
    wp m (\<lambda>_ c'. agrees (a (gas_config c) rest (machine_of c)) (Ok (bytes_left prog c')) c')
      (\<lambda>e. agrees (a (gas_config c) rest (machine_of c)) (Err e))
      (\<lambda>p. agrees (a (gas_config c) rest (machine_of c)) (Panic p)) c"
  shows "implements prog m a"
  unfolding implements_def Let_def
proof (intro allI impI)
  fix c assume c: "vm_running prog c" "vec_bounded prog"
  let ?pc = "program_counter c"
  have left: "bytes_left prog c = prog ! unat ?pc # drop (Suc (unat ?pc)) prog"
    using c(1) by (simp add: bytes_left_def vm_running_def Cons_nth_drop_Suc)
  have plus: "unat (?pc + 1) = Suc (unat ?pc)" "unat (?pc + 2) = Suc (Suc (unat ?pc))"
    using unat_pc_plus [of ?pc prog 1] unat_pc_plus [of ?pc prog 2] c by (simp_all add: vm_running_def)
  have adds: "add_u b ?pc 1 = Some (?pc + 1)" "add_u b ?pc 2 = Some (?pc + 2)"
    using c by (auto intro!: add_u_exact simp: vm_running_def vec_bounded_def)
  show "wp m (\<lambda>_ c'. agrees (a (gas_config c) (tl (bytes_left prog c)) (machine_of c))
        (Ok (bytes_left prog c')) c')
      (\<lambda>e. agrees (a (gas_config c) (tl (bytes_left prog c)) (machine_of c)) (Err e))
      (\<lambda>p. agrees (a (gas_config c) (tl (bytes_left prog c)) (machine_of c)) (Panic p)) c"
    using assms [OF c(2) left [unfolded bytes_left_def] refl adds plus] left by simp
qed

lemmas implement_simps =
  agrees_def wp_returns wp_fails wp_panics wp_simps machine_of_def bytes_left_def vec_pop_Some vec_pop_None

lemma op_add_implements [implementing]: "implements prog (op_add b) (\<lambda>_. i_arith (add_s b))"
  by (rule implementsI [where b = b])
    (auto simp: op_add_def i_arith_def implement_simps split: val_splits)

lemma op_mul_implements [implementing]: "implements prog (op_mul b) (\<lambda>_. i_arith (mul_s b))"
  by (rule implementsI [where b = b])
    (auto simp: op_mul_def i_arith_def implement_simps split: val_splits)

lemma op_store_implements [implementing]: "implements prog (op_store b) (\<lambda>_. i_store)"
  by (rule implementsI [where b = b])
    (auto simp: op_store_def i_store_def implement_simps split: val_splits)

lemma op_load_implements [implementing]: "implements prog (op_load b) (\<lambda>_. i_load)"
  by (rule implementsI [where b = b])
    (auto simp: op_load_def i_load_def implement_simps split: val_splits)

lemma op_call_implements [implementing]: "implements prog (op_call b) (\<lambda>_. i_call)"
  by (rule implementsI [where b = b])
    (auto simp: op_call_def i_call_def implement_simps split: val_splits)

lemma op_balance_implements [implementing]: "implements prog (op_balance b) (\<lambda>_. i_balance)"
  by (rule implementsI [where b = b])
    (auto simp: op_balance_def i_balance_def implement_simps split: val_splits)

lemma op_push_implements [implementing]: "implements prog (op_push b prog) (\<lambda>_. i_push)"
proof (rule implementsI [where b = b])
  fix c :: vm_context and op rest
  let ?pc = "program_counter c"
  assume a: "drop (Suc (unat ?pc)) prog = rest"
    "add_u b ?pc 1 = Some (?pc + 1)" "add_u b ?pc 2 = Some (?pc + 2)"
    "unat (?pc + 1) = Suc (unat ?pc)" "unat (?pc + 2) = Suc (Suc (unat ?pc))"
  have operand: "index prog (Suc (unat ?pc)) = (case rest of [] \<Rightarrow> None | v # _ \<Rightarrow> Some v)"
    unfolding a(1) [symmetric] by (auto simp: index_def Cons_nth_drop_Suc [symmetric] split: list.split)
  moreover have "drop (Suc (Suc (unat ?pc))) prog = tl rest"
    unfolding a(1) [symmetric] by (simp add: drop_Suc tl_drop)
  ultimately show "wp (op_push b prog) (\<lambda>_ c'. agrees (i_push rest (machine_of c)) (Ok (bytes_left prog c')) c')
      (\<lambda>e. agrees (i_push rest (machine_of c)) (Err e))
      (\<lambda>p. agrees (i_push rest (machine_of c)) (Panic p)) c"
    using a(2-5) by (cases rest) (auto simp: op_push_def implement_simps)
qed

lemma op_return_implements [implementing]: "implements prog (op_return b prog) (\<lambda>_. i_return b prog)"
  by (rule implementsI [where b = b])
    (auto simp: op_return_def i_return_def implement_simps program_bytes_simps split: val_splits)

lemma op_sha3_implements [implementing]: "implements prog (op_sha3 b H prog) (\<lambda>_. i_sha3 b H prog)"
  by (rule implementsI [where b = b])
    (auto simp: op_sha3_def i_sha3_def implement_simps program_bytes_simps split: val_splits)

lemma op_create_implements [implementing]:
  "implements prog (op_create b H prog) (\<lambda>cfg. i_create b H cfg prog)"
proof (rule implementsI [where b = b])
  fix c :: vm_context and op rest
  let ?pc = "program_counter c"
  assume a: "vec_bounded prog" "drop (unat ?pc) prog = op # rest" "drop (Suc (unat ?pc)) prog = rest"
    "add_u b ?pc 1 = Some (?pc + 1)" "unat (?pc + 1) = Suc (unat ?pc)"
  have pos: "length prog - length rest = unat (?pc + 1)"
    using arg_cong [OF a(2), of length] a(3,5) by auto
  have moves: "add_u b 1 n = Some (1 + n) \<and> add_u b ?pc (1 + n) = Some (?pc + (1 + n)) \<and>
      drop (unat (?pc + (1 + n))) prog = drop (unat n) rest"
    if "vec_slice prog (?pc + 1) hi = Some xs" "add_u b (?pc + 1) n = Some hi" for n hi xs
  proof -
    note fits = slice_no_wrap [OF that(1) [unfolded add_u_Some_eq [OF that(2)]]]
    then have le: "Suc (unat ?pc) + unat n < 2 ^ 63" using a(1,5) by (simp add: vec_bounded_def)
    then have "unat (1 + n) = 1 + unat n" by (subst unat_add_no_wrap) simp_all
    then have "unat (?pc + (1 + n)) = unat ?pc + (1 + unat n)"
      using le by (subst unat_add_no_wrap) simp_all
    moreover have "drop (unat ?pc + (1 + unat n)) prog = drop (unat n) rest"
      unfolding a(3) [symmetric] by (simp add: add.commute)
    ultimately show ?thesis
      using le \<open>unat (1 + n) = 1 + unat n\<close> by (auto intro!: add_u_exact)
  qed
  show "wp (op_create b H prog)
      (\<lambda>_ c'. agrees (i_create b H (gas_config c) prog rest (machine_of c)) (Ok (bytes_left prog c')) c')
      (\<lambda>e. agrees (i_create b H (gas_config c) prog rest (machine_of c)) (Err e))
      (\<lambda>p. agrees (i_create b H (gas_config c) prog rest (machine_of c)) (Panic p)) c"
    using a(4) pos
    by (auto simp: op_create_def i_create_def implement_simps program_bytes_simps [OF a(1)] word_less_nat_alt
        unat_sub_le not_less word_le_nat_alt dest: moves split: val_splits)
qed

text \<open>One step of the loop is one step of the interpreter, which goes on with the bytes the machine has
  left, or with none after \<open>STOP\<close>.\<close>

lemma exec_implements:
  assumes "vm_running prog c" and "vec_bounded prog" and "bytes_left prog c = opcode # rest"
    and "ref = i_exec b H (gas_config c) prog opcode rest (machine_of c)"
  shows "wp (exec_opcode b H prog opcode)
    (\<lambda>stop c'. agrees ref (Ok (if stop then [] else bytes_left prog c')) c')
    (\<lambda>e. agrees ref (Err e)) (\<lambda>p. agrees ref (Panic p)) c"
proof -
  have op: "wp m (\<lambda>_ c'. agrees (a (gas_config c) rest (machine_of c)) (Ok (bytes_left prog c')) c')
      (\<lambda>e. agrees (a (gas_config c) rest (machine_of c)) (Err e))
      (\<lambda>p. agrees (a (gas_config c) rest (machine_of c)) (Panic p)) c"
    if "implements prog m a" for m :: "(vm_context, vm_error, unit) comp" and a
    using that [unfolded implements_def Let_def, rule_format, OF assms(1,2)] assms(3) by simp
  show ?thesis
    unfolding assms(4) using implementing [THEN op]
    by (simp add: exec_opcode_def i_exec_def wp_simps agrees_def)
qed

lemma step_implements:
  assumes "vm_running prog c" and "vec_bounded prog"
    and "vm_step b H prog c = (r, c')" and "bytes_left prog c = opcode # rest"
  shows "i_step b H (gas_config c) prog opcode rest (machine_of c) =
    (case r of Ok stop \<Rightarrow> Ok (if stop then [] else bytes_left prog c') | Err e \<Rightarrow> Err e | Panic p \<Rightarrow> Panic p,
     machine_of c')"
proof -
  let ?ref = "i_step b H (gas_config c) prog opcode rest (machine_of c)"
  let ?price = "op_price (gas_config c) opcode"
  have opc: "index prog (unat (program_counter c)) = Some opcode"
    using assms(1,4) by (auto simp: bytes_left_def index_def vm_running_def Cons_nth_drop_Suc [symmetric])
  have "wp (vm_step b H prog) (\<lambda>stop c'. agrees ?ref (Ok (if stop then [] else bytes_left prog c')) c')
      (\<lambda>e. agrees ?ref (Err e)) (\<lambda>p. agrees ?ref (Panic p)) c"
  proof (cases "gas_remaining c < ?price")
    case True
    then show ?thesis
      using opc by (simp add: vm_step_def wp_simps i_step_def agrees_def wp_fails word_less_nat_alt)
  next
    case False
    let ?c = "c\<lparr>gas_remaining := gas_remaining c - ?price\<rparr>"
    have "?ref = i_exec b H (gas_config ?c) prog opcode rest (machine_of ?c)"
      using False by (simp add: i_step_def i_pay_def andthen_def machine_of_def word_less_nat_alt
          unat_sub_le word_le_nat_alt not_less)
    from exec_implements [OF _ assms(2) _ this] assms(1,4) False opc show ?thesis
      by (simp add: vm_step_def wp_simps vm_running_def bytes_left_def)
  qed
  with assms(3) show ?thesis by (cases r) (simp_all add: wp_def agrees_def)
qed

lemma loop_implements:
  assumes "run_loop n (vm_running prog) (vm_step b H prog) c = Some (r, d)" and "vec_bounded prog"
  shows "interp b H (gas_config c) prog (bytes_left prog c) (machine_of c) = (r, machine_of d)"
  using assms(1)
proof (induction n arbitrary: c)
  case (Suc n)
  show ?case
  proof (cases "vm_running prog c")
    case False
    with Suc.prems show ?thesis by (simp add: bytes_left_def vm_running_def)
  next
    case True
    then obtain opcode rest where left: "bytes_left prog c = opcode # rest"
      by (auto simp: bytes_left_def vm_running_def Cons_nth_drop_Suc [symmetric])
    obtain q c' where st: "vm_step b H prog c = (q, c')" by fastforce
    note ref = step_implements [OF True assms(2) st left]
    have cfg: "gas_config c' = gas_config c" if "q = Ok stop" for stop
      using step_pays(2) [OF True assms(2)] st that by blast
    show ?thesis
      using Suc.prems Suc.IH [of c'] True st ref cfg left
      by (cases q) (auto split: if_splits)
  qed
qed simp

section \<open>Properties\<close>

lemma execute_interp:
  assumes "vec_bounded prog"
  shows "\<exists>r c'. vm_execute b H ks prog c = Some (r, c') \<and>
    interp b H (gas_config c) prog (bytes_left prog c) (machine_of c) = (r, machine_of c')"
proof -
  obtain r d where loop: "vm_loop (Suc (length prog)) b H prog c = Some (r, d)"
    using vm_loop_returns [OF assms] by blast
  from vm_execute_from_loop [OF loop [unfolded vm_loop_def] assms]
  have "vm_execute b H ks prog c = Some (r, case r of Ok _ \<Rightarrow> compute_state_root H ks d | _ \<Rightarrow> d)" .
  moreover have "machine_of (case r of Ok _ \<Rightarrow> compute_state_root H ks d | _ \<Rightarrow> d) = machine_of d"
    by (cases r) (simp_all add: machine_of_def)
  ultimately show ?thesis
    using loop_implements [OF loop [unfolded vm_loop_def] assms] by metis
qed

text \<open>C1: \<open>VM::execute\<close> implements the reference interpreter, on every program and from every context:
  the run always returns, its result is the interpreter's, error and panic included, and the
  stack, memory, call frames and gas it leaves, popped values and charged gas before an error
  included, are those of the interpreter on the bytes from the program counter on.\<close>

theorem vm_execute_refines:
  assumes "vec_bounded prog"
  shows "\<exists>r c'. vm_execute b H ks prog c = Some (r, c') \<and>
    interp b H (gas_config c) prog (bytes_left prog c) (machine_of c) = (r, machine_of c')"
  using assms by (rule execute_interp)

text \<open>The concrete hash function at which the witnesses are evaluated.\<close>

definition zero_digest :: "u8 list \<Rightarrow> u8 list" where
  "zero_digest xs = replicate 64 0"

text \<open>A contract whose code is one byte is created and the run stops after it; a \<open>STORE\<close> with one
  value on the stack fails with that value popped.\<close>

theorem vm_execute_refines_witness:
  "(\<exists>c'. vm_execute Debug zero_digest [] [0x01, 1, 0x01, 7, 0x0B, 0xAA, 0xFF] (context_new 40000) =
       Some (Ok (), c') \<and>
     stack c' = [VAddress (replicate 32 0), VContract (ContractData [0xAA] Map.empty 7)] \<and>
     unat (gas_remaining c') = 40000 - 32408) \<and>
   (\<exists>c'. vm_execute Debug zero_digest [] [0x01, 1, 0x04] (context_new 40000) =
       Some (Err StackUnderflow, c') \<and> stack c' = [] \<and> unat (gas_remaining c') = 40000 - 23)"
proof -
  note run = i_step_def i_exec_def i_push_def i_create_def i_store_def i_int_def i_value_def i_pay_def
    i_put_def andthen_def lift_outcome_def program_bytes_def op_price_def default_op_cost_def
    gas_config_default_def machine_of_def bytes_left_def context_new_def zero_digest_def
  have flip: "[x, y] = rev zs \<longleftrightarrow> zs = [y, x]" for x y :: val and zs by (metis rev.simps rev_rev_ident append.simps)
  have "vec_bounded [0x01 :: u8, 1, 0x01, 7, 0x0B, 0xAA, 0xFF]" by (simp add: vec_bounded_def)
  from vm_execute_refines [OF this, of Debug zero_digest "[]" "context_new 40000"]
  have "\<exists>c'. vm_execute Debug zero_digest [] [0x01, 1, 0x01, 7, 0x0B, 0xAA, 0xFF] (context_new 40000) =
       Some (Ok (), c') \<and>
     stack c' = [VAddress (replicate 32 0), VContract (ContractData [0xAA] Map.empty 7)] \<and>
     unat (gas_remaining c') = 40000 - 32408"
    by (auto simp: run flip)
  moreover
  have "vec_bounded [0x01 :: u8, 1, 0x04]" by (simp add: vec_bounded_def)
  from vm_execute_refines [OF this, of Debug zero_digest "[]" "context_new 40000"]
  have "\<exists>c'. vm_execute Debug zero_digest [] [0x01, 1, 0x04] (context_new 40000) =
       Some (Err StackUnderflow, c') \<and> stack c' = [] \<and> unat (gas_remaining c') = 40000 - 23"
    by (auto simp: run)
  ultimately show ?thesis by blast
qed

end
