(* ===== verification/VM_Compile.thy ===== *)
theory VM_Compile
  imports VM_Interpreter
begin

text \<open>
  What the arithmetic core of the machine computes: the bytecode that \<open>PUSH\<close>, \<open>ADD\<close> and \<open>MUL\<close>
  make of an arithmetic expression evaluates it. \<open>aexp\<close>, \<open>compile\<close> and \<open>aeval\<close> are a reference
  semantics of this development (the repository has no compiler); the programs it covers are
  the ones of \<open>src/main.rs\<close> and of the arithmetic tests. The reference interpreter carries the
  proof: it needs no program counter.
\<close>

datatype aexp = Num u8 | Plus aexp aexp | Times aexp aexp

fun compile :: "aexp \<Rightarrow> u8 list" where
  "compile (Num n) = [0x01, n]"
| "compile (Plus x y) = compile x @ compile y @ [0x02]"
| "compile (Times x y) = compile x @ compile y @ [0x03]"

text \<open>The value of an expression over \<open>i64\<close>: \<open>None\<close> when an operation overflows in a debug
  build, and the wrapped value in a release build.\<close>

fun aeval :: "build \<Rightarrow> aexp \<Rightarrow> i64 option" where
  "aeval b (Num n) = Some (ucast n)"
| "aeval b (Plus x y) =
     (case aeval b x of None \<Rightarrow> None | Some u \<Rightarrow>
       (case aeval b y of None \<Rightarrow> None | Some v \<Rightarrow> add_s b u v))"
| "aeval b (Times x y) =
     (case aeval b x of None \<Rightarrow> None | Some u \<Rightarrow>
       (case aeval b y of None \<Rightarrow> None | Some v \<Rightarrow> mul_s b u v))"

text \<open>The stack an expression needs, and its price in the default gas schedule.\<close>

fun depth :: "aexp \<Rightarrow> nat" where
  "depth (Num n) = 1"
| "depth (Plus x y) = max (depth x) (Suc (depth y))"
| "depth (Times x y) = max (depth x) (Suc (depth y))"

fun gas_of :: "aexp \<Rightarrow> nat" where
  "gas_of (Num n) = 3"
| "gas_of (Plus x y) = gas_of x + gas_of y + 5"
| "gas_of (Times x y) = gas_of x + gas_of y + 5"

lemma default_prices [simp]:
  "op_price gas_config_default 0x01 = 3" "op_price gas_config_default 0x02 = 5"
  "op_price gas_config_default 0x03 = 5" "op_price gas_config_default 0xFF = 2"
  by (simp_all add: op_price_def gas_config_default_def default_op_cost_def)

section \<open>Compiled expressions\<close>

text \<open>The interpreter runs through the code of an expression and pushes its value, or ends with the
  panic of the first operation that overflows.\<close>

definition pushed :: "i64 \<Rightarrow> nat \<Rightarrow> machine \<Rightarrow> machine" where
  "pushed v g m = m\<lparr>mc_stack := VInt v # mc_stack m, mc_gas := mc_gas m - g\<rparr>"

lemma pushed_sel [simp]:
  "mc_stack (pushed v g m) = VInt v # mc_stack m" "mc_gas (pushed v g m) = mc_gas m - g"
  by (simp_all add: pushed_def)

lemma machine_update_order:
  "m\<lparr>mc_gas := g, mc_stack := st\<rparr> = m\<lparr>mc_stack := st, mc_gas := g\<rparr>"
  by simp

definition evaluates ::
  "build \<Rightarrow> (u8 list \<Rightarrow> u8 list) \<Rightarrow> u8 list \<Rightarrow> u8 list \<Rightarrow> nat \<Rightarrow> nat \<Rightarrow> i64 option \<Rightarrow> bool" where
  "evaluates b H prog code g d r \<longleftrightarrow>
     (\<forall>m rest. g \<le> mc_gas m \<longrightarrow> length (mc_stack m) + d \<le> 1024 \<longrightarrow>
        (case r of
           Some v \<Rightarrow> interp b H gas_config_default prog (code @ rest) m =
             interp b H gas_config_default prog rest (pushed v g m)
         | None \<Rightarrow> \<exists>m'. interp b H gas_config_default prog (code @ rest) m =
             (Panic ArithmeticOverflow, m')))"

lemma evaluates_operator:
  assumes x: "evaluates b H prog cx gx dx rx" and y: "evaluates b H prog cy gy dy ry"
    and "opcode = 0x02 \<and> f = add_s b \<or> opcode = 0x03 \<and> f = mul_s b"
    and "r = (case rx of None \<Rightarrow> None | Some u \<Rightarrow> (case ry of None \<Rightarrow> None | Some v \<Rightarrow> f u v))"
  shows "evaluates b H prog (cx @ cy @ [opcode]) (gx + gy + 5) (max dx (Suc dy)) r"
  unfolding evaluates_def
proof (intro allI impI)
  fix m :: machine and rest
  assume res: "gx + gy + 5 \<le> mc_gas m" "length (mc_stack m) + max dx (Suc dy) \<le> 1024"
  let ?run = "interp b H gas_config_default prog"
  from x [unfolded evaluates_def, rule_format, of m "cy @ opcode # rest"] res
  have run_x: "case rx of Some u \<Rightarrow> ?run (cx @ cy @ opcode # rest) m = ?run (cy @ opcode # rest) (pushed u gx m)
      | None \<Rightarrow> \<exists>m'. ?run (cx @ cy @ opcode # rest) m = (Panic ArithmeticOverflow, m')" by simp
  have run_y: "case ry of Some v \<Rightarrow> ?run (cy @ opcode # rest) (pushed u gx m) =
        ?run (opcode # rest) (pushed v gy (pushed u gx m))
      | None \<Rightarrow> \<exists>m'. ?run (cy @ opcode # rest) (pushed u gx m) = (Panic ArithmeticOverflow, m')" for u
    using y [unfolded evaluates_def, rule_format, of "pushed u gx m" "opcode # rest"] res by simp
  have run_f: "case f u v of
      Some w \<Rightarrow> ?run (opcode # rest) (pushed v gy (pushed u gx m)) = ?run rest (pushed w (gx + gy + 5) m)
    | None \<Rightarrow> \<exists>m'. ?run (opcode # rest) (pushed v gy (pushed u gx m)) = (Panic ArithmeticOverflow, m')" for u v
  proof -
    have gas: "gx \<le> mc_gas m" "gy \<le> mc_gas m - gx" "5 \<le> mc_gas m - gx - gy" using res(1) by auto
    have exec: "i_exec b H gas_config_default prog opcode rest = i_arith f rest"
      using assms(3) by (auto simp: i_exec_def)
    have "op_price gas_config_default opcode = 5" using assms(3) by auto
    then have step: "i_step b H gas_config_default prog opcode rest (pushed v gy (pushed u gx m)) =
        i_arith f rest (m\<lparr>mc_stack := VInt v # VInt u # mc_stack m, mc_gas := mc_gas m - gx - gy - 5\<rparr>)"
      using gas by (simp add: i_step_def i_pay_def andthen_def exec pushed_def)
    show ?thesis
      by (cases "f u v") (simp_all add: step i_arith_def i_int_def i_put_def andthen_def,
          simp add: pushed_def add.assoc machine_update_order)
  qed
  show "case r of Some v \<Rightarrow> ?run ((cx @ cy @ [opcode]) @ rest) m = ?run rest (pushed v (gx + gy + 5) m)
    | None \<Rightarrow> \<exists>m'. ?run ((cx @ cy @ [opcode]) @ rest) m = (Panic ArithmeticOverflow, m')"
    using run_x run_y run_f [where u = "the rx" and v = "the ry"]
    unfolding assms(4) append.simps append_assoc
    by (cases rx; cases ry; cases "f (the rx) (the ry)") (simp_all del: interp.simps)
qed

lemma compile_evaluates: "evaluates b H prog (compile e) (gas_of e) (depth e) (aeval b e)"
proof (induction e)
  case (Num n)
  show ?case
    by (auto simp: evaluates_def i_step_def i_pay_def i_exec_def i_push_def andthen_def pushed_def
        machine_update_order)
next
  case (Plus x y)
  then show ?case
    by (simp only: compile.simps gas_of.simps depth.simps)
      (rule evaluates_operator [where f = "add_s b"], simp_all)
next
  case (Times x y)
  then show ?case
    by (simp only: compile.simps gas_of.simps depth.simps)
      (rule evaluates_operator [where f = "mul_s b"], simp_all)
qed

lemma interp_stop:
  "2 \<le> mc_gas m \<Longrightarrow> interp b H gas_config_default prog (0xFF # rest) m =
     (Ok (), m\<lparr>mc_gas := mc_gas m - 2\<rparr>)"
  by (simp add: i_step_def i_pay_def i_exec_def andthen_def)

end
