(* ===== verification/VM_Properties.thy ===== *)
theory VM_Properties
  imports VM_Provenance VM_Compile
begin

text \<open>
  The properties of the virtual machine (\<open>src/vm.rs\<close>).
\<close>

text \<open>The definitions that evaluate a concrete run.\<close>

lemmas vm_eval =
  vm_execute_def vm_loop_def vm_step_def vm_running_def exec_opcode_def op_defs andthen_def
  pop_int_def pop_address_def pop_value_def push_def advance_def contract_at_def address_slot_def
  use_gas_def op_price_def index_def vec_pop_def vec_slice_def add_u_def add_s_def mul_s_def
  ret_def fail_def abort_def reads_def updates_def or_panic_def ok_or_def guard_err_def
  context_new_def gas_config_default_def default_op_cost_def compute_state_root_def
  root_preimage_def storage_bytes_def zero_digest_def

lemma vm_execute_total:
  assumes "vec_bounded prog"
  shows "\<exists>r c'. vm_execute b H ks prog c = Some (r, c')"
  using vm_loop_returns [OF assms, of b H c] by (auto simp: vm_execute_def split: outcome.splits)

lemma vm_execute_settles:
  assumes "vm_execute b H ks prog c = Some (r, c')" and "vec_bounded prog"
  obtains d where "vm_loop (Suc (length prog)) b H prog c = Some (r, d)" and "settles c d"
    and "c' = (case r of Ok _ \<Rightarrow> compute_state_root H ks d | _ \<Rightarrow> d)"
proof -
  obtain d where "vm_loop (Suc (length prog)) b H prog c = Some (r, d)" and
    "c' = (case r of Ok _ \<Rightarrow> compute_state_root H ks d | _ \<Rightarrow> d)"
    using vm_execute_cases [OF assms(1)] by blast
  with that vm_loop_returns [OF assms(2), of b H c] show ?thesis by auto
qed

section \<open>Termination, invariants, gas\<close>

lemma trace_subseq:
  "vm_trace b H prog c ops d \<Longrightarrow> vec_bounded prog \<Longrightarrow> subseq ops (drop (unat (program_counter c)) prog)"
proof (induction rule: vm_trace.induct)
  case (trace_step c d ops e)
  let ?pc = "unat (program_counter c)"
  have "moves prog c d"
    using wp_Ok [OF vm_step_contract [OF trace_step(1,5)] trace_step(2)] by simp
  then obtain k where k: "unat (program_counter d) = Suc ?pc + k"
    by (auto simp: moves_def dest: less_imp_Suc_add)
  have "drop ?pc prog = prog ! ?pc # drop (Suc ?pc) prog"
    using trace_step(1) by (simp add: vm_running_def Cons_nth_drop_Suc)
  moreover have "drop (Suc ?pc) prog = take k (drop (Suc ?pc) prog) @ drop (unat (program_counter d)) prog"
    by (metis append_take_drop_id drop_drop add.commute k)
  moreover have "subseq ops (drop (unat (program_counter d)) prog)" using trace_step by simp
  ultimately show ?case by (metis subseq_Cons2 list_emb_append2)
qed simp

text \<open>C5: The loop of \<open>execute\<close> runs each instruction at most once and in the order of the program: the
  instructions that a run executes are a subsequence of the bytes from the program counter on, so
  there are at most as many as bytes left. Any fuel that exceeds the number of bytes left is enough for
  the loop to return, and gives the result that \<open>execute\<close> has.\<close>

theorem no_instruction_twice:
  assumes "vec_bounded prog"
  shows "(\<forall>ops d. vm_trace b H prog c ops d \<longrightarrow>
      subseq ops (drop (unat (program_counter c)) prog) \<and>
      length ops \<le> length prog - unat (program_counter c)) \<and>
    (\<forall>n > length prog - unat (program_counter c).
      vm_loop n b H prog c \<noteq> None \<and> vm_loop n b H prog c = vm_loop (Suc (length prog)) b H prog c)"
proof (intro conjI allI impI)
  fix ops d assume "vm_trace b H prog c ops d"
  from trace_subseq [OF this assms] show "subseq ops (drop (unat (program_counter c)) prog)" .
  from list_emb_length [OF this] show "length ops \<le> length prog - unat (program_counter c)" by simp
next
  fix n assume n: "length prog - unat (program_counter c) < n"
  then obtain r d where loop: "vm_loop n b H prog c = Some (r, d)"
    using vm_run.enough_fuel [where prog = prog and s = c and ?c0.0 = c and b = b and H = H and n = n] assms
    by (auto simp: vm_loop_def)
  then show "vm_loop n b H prog c \<noteq> None" by simp
  obtain q e where full: "vm_loop (Suc (length prog)) b H prog c = Some (q, e)"
    using vm_loop_returns [OF assms] by blast
  from run_loop_unique [OF full [unfolded vm_loop_def] loop [unfolded vm_loop_def]]
  show "vm_loop n b H prog c = vm_loop (Suc (length prog)) b H prog c" by (simp add: loop full)
qed

text \<open>From address 2 of a program of three instructions at most two are left.\<close>

theorem no_instruction_twice_witness:
  "\<exists>r c'. vm_loop 3 Debug zero_digest [0x01, 5, 0x01, 3] (context_new 100\<lparr>program_counter := 2\<rparr>) = Some (r, c') \<and>
     vm_loop 5 Debug zero_digest [0x01, 5, 0x01, 3] (context_new 100\<lparr>program_counter := 2\<rparr>) = Some (r, c')"
proof -
  let ?prog = "[0x01, 5, 0x01, 3] :: u8 list" and ?c = "context_new 100\<lparr>program_counter := 2\<rparr>"
  have bounded: "vec_bounded ?prog" by (simp add: vec_bounded_def)
  have fuel: "length ?prog - unat (program_counter ?c) < 3" and size: "Suc (length ?prog) = 5" by simp_all
  obtain r c' where run: "vm_loop 3 Debug zero_digest ?prog ?c = Some (r, c')"
    using no_instruction_twice [OF bounded, THEN conjunct2, rule_format, OF fuel, of Debug zero_digest]
    by (metis not_Some_eq surj_pair)
  moreover from this have "vm_loop 5 Debug zero_digest ?prog ?c = Some (r, c')"
    using no_instruction_twice [OF bounded, THEN conjunct2, rule_format, OF fuel, of Debug zero_digest]
    unfolding size by metis
  ultimately show ?thesis by blast
qed

text \<open>C3: Whatever the outcome, a run keeps the stack within 1024 values, never adds gas, and
  leaves storage, logs and gas schedule as they were. Only \<open>PUSH\<close> checks the limit of the stack;
  the bound holds because no other instruction pushes more than it pops.\<close>

theorem vm_execute_invariants:
  assumes "vec_bounded prog" and "vm_execute b H ks prog c = Some (r, c')"
  shows "(length (stack c) \<le> 1024 \<longrightarrow> length (stack c') \<le> 1024) \<and>
    gas_remaining c' \<le> gas_remaining c \<and> storage c' = storage c \<and> logs c' = logs c \<and>
    gas_config c' = gas_config c"
proof -
  obtain d where "settles c d" and
    c': "c' = (case r of Ok _ \<Rightarrow> compute_state_root H ks d | _ \<Rightarrow> d)"
    using vm_execute_settles [OF assms(2,1)] .
  then show ?thesis by (cases r) (simp_all add: settles_def same_env_def)
qed

theorem vm_execute_invariants_witness:
  "\<exists>r c'. vm_execute Debug zero_digest [] [0x01, 7, 0x02] (context_new 100) = Some (r, c') \<and>
     length (stack c') \<le> 1024 \<and> gas_remaining c' \<le> 100"
proof -
  have bounded: "vec_bounded [0x01 :: u8, 7, 0x02]" by (simp add: vec_bounded_def)
  obtain r c' where run:
    "vm_execute Debug zero_digest [] [0x01, 7, 0x02] (context_new 100) = Some (r, c')"
    using vm_execute_total [OF bounded] by blast
  from vm_execute_invariants [OF bounded run] run show ?thesis by (auto simp: context_new_def)
qed

lemma run_gas:
  assumes "vec_bounded prog" and "vm_execute b H ks prog c = Some (Ok (), c')"
  shows "\<exists>ops d. completes b H prog c ops d \<and> c' = compute_state_root H ks d \<and>
    unat (gas_remaining c) =
      unat (gas_remaining c') + sum_list (map (opcode_cost (gas_config c)) ops)"
proof -
  obtain d where "vm_loop (Suc (length prog)) b H prog c = Some (Ok (), d)" and
    c': "c' = compute_state_root H ks d"
    using vm_execute_settles [OF assms(2,1)] by auto
  then obtain ops where "completes b H prog c ops d"
    unfolding vm_loop_def by (blast dest: loop_completes)
  with c' completes_gas [OF this assms(1)] show ?thesis by auto
qed

text \<open>C4: Gas is accounted for exactly. A run that ends normally executed some sequence of opcodes,
  and the gas it took is the sum of their costs: the scheduled price of each (the base price for an
  unpriced one, \<open>STOP\<close> included), and 32000 more for each \<open>CREATE\<close>. No subtraction of it wraps.\<close>

theorem gas_accounting:
  assumes "vec_bounded prog" and "vm_execute b H ks prog c = Some (Ok (), c')"
  shows "\<exists>ops d. completes b H prog c ops d \<and> c' = compute_state_root H ks d \<and>
    unat (gas_remaining c) =
      unat (gas_remaining c') + sum_list (map (opcode_cost (gas_config c)) ops)"
  by (rule run_gas [OF assms])

lemma push_stop_run:
  "\<exists>c'. vm_execute Release zero_digest [] [0x01, 5, 0xFF] (context_new 1000) = Some (Ok (), c') \<and>
     gas_remaining c' = 995"
  by (simp add: vm_eval)

theorem gas_accounting_witness:
  "\<exists>c' ops. vm_execute Release zero_digest [] [0x01, 5, 0xFF] (context_new 1000) = Some (Ok (), c') \<and>
     1000 = unat (gas_remaining c') + sum_list (map (opcode_cost gas_config_default) ops)"
proof -
  have bounded: "vec_bounded [0x01 :: u8, 5, 0xFF]" by (simp add: vec_bounded_def)
  obtain c' where
    run: "vm_execute Release zero_digest [] [0x01, 5, 0xFF] (context_new 1000) = Some (Ok (), c')"
    using push_stop_run by blast
  from gas_accounting [OF bounded run] run show ?thesis by (auto simp: context_new_def)
qed

section \<open>What arithmetic programs compute\<close>

text \<open>C2: The program that evaluates an arithmetic expression with \<open>PUSH\<close>, \<open>ADD\<close> and \<open>MUL\<close> and
  stops leaves exactly the expression's value on the stack, for \<open>gas_of e + 2\<close> gas. The value is
  the exact one in a debug build and the wrapped one in a release build; where a debug build has no
  value, because an operation overflows, the run panics.\<close>

theorem compiled_program:
  assumes "vec_bounded (compile e @ [0xFF])" and "depth e \<le> 1024" and "gas_of e + 2 \<le> unat g"
  shows "case aeval b e of
      Some v \<Rightarrow> \<exists>c'. vm_execute b H ks (compile e @ [0xFF]) (context_new g) = Some (Ok (), c') \<and>
        stack c' = [VInt v] \<and> unat (gas_remaining c') = unat g - (gas_of e + 2)
    | None \<Rightarrow> \<exists>c'. vm_execute b H ks (compile e @ [0xFF]) (context_new g) =
        Some (Panic ArithmeticOverflow, c')"
proof -
  let ?prog = "compile e @ [0xFF]" and ?c = "context_new g"
  obtain r c' where run: "vm_execute b H ks ?prog ?c = Some (r, c')"
    and ref: "interp b H gas_config_default ?prog ?prog (machine_of ?c) = (r, machine_of c')"
    using execute_interp [OF assms(1), of b H ks ?c] by (auto simp: bytes_left_def context_new_def)
  have res: "gas_of e \<le> mc_gas (machine_of ?c)" "length (mc_stack (machine_of ?c)) + depth e \<le> 1024"
    using assms(2,3) by (simp_all add: context_new_def)
  note code = compile_evaluates [unfolded evaluates_def, rule_format, OF res, of b H ?prog "[0xFF]"]
  show ?thesis
  proof (cases "aeval b e")
    case None
    with code ref run show ?thesis by auto
  next
    case (Some v)
    have gas: "mc_gas (pushed v (gas_of e) (machine_of ?c)) = unat g - gas_of e"
      by (simp add: context_new_def)
    then have "interp b H gas_config_default ?prog [0xFF] (pushed v (gas_of e) (machine_of ?c)) =
        (Ok (), (pushed v (gas_of e) (machine_of ?c))\<lparr>mc_gas := unat g - gas_of e - 2\<rparr>)"
      using assms(3) interp_stop [of "pushed v (gas_of e) (machine_of ?c)"] by simp
    with code ref Some have "r = Ok ()"
      "machine_of c' = (pushed v (gas_of e) (machine_of ?c))\<lparr>mc_gas := unat g - gas_of e - 2\<rparr>"
      by (simp_all del: interp.simps)
    moreover from arg_cong [OF this(2), of mc_stack] arg_cong [OF this(2), of mc_gas]
    have "rev (stack c') = [VInt v]" "unat (gas_remaining c') = unat g - (gas_of e + 2)"
      by (simp_all add: context_new_def)
    ultimately show ?thesis using run Some by (simp add: rev_swap)
  qed
qed

text \<open>The program of \<open>src/main.rs\<close> up to its store: \<open>(5 + 3) * 2\<close>.\<close>

theorem compiled_program_witness:
  "\<exists>c'. vm_execute Debug zero_digest [] [0x01, 5, 0x01, 3, 0x02, 0x01, 2, 0x03, 0xFF]
       (context_new 1000000) = Some (Ok (), c') \<and>
     stack c' = [VInt 16] \<and> unat (gas_remaining c') = 1000000 - 21"
proof -
  have val16: "aeval Debug (Times (Plus (Num 5) (Num 3)) (Num 2)) = Some 16"
    by (simp add: add_s_def mul_s_def)
  show ?thesis
    using compiled_program [where e = "Times (Plus (Num 5) (Num 3)) (Num 2)" and b = Debug
        and H = zero_digest and ks = "[]" and g = 1000000] val16
    by (simp add: vec_bounded_def)
qed

section \<open>State root and repeated execution\<close>

text \<open>The state root after a run. A normal end sets it to the hash of the storage and logs that
  the run started with; an error or a panic leaves it alone. So it depends on nothing the program
  did: every program that ends normally on a fresh machine gets the same root.\<close>

theorem state_root_result:
  assumes "vec_bounded prog" and "vm_execute b H ks prog c = Some (r, c')"
  shows "state_root c' =
    (case r of Ok _ \<Rightarrow> take 32 (H (root_preimage ks c)) | _ \<Rightarrow> state_root c)"
proof -
  obtain d where d: "settles c d" and
    "c' = (case r of Ok _ \<Rightarrow> compute_state_root H ks d | _ \<Rightarrow> d)"
    using vm_execute_settles [OF assms(2,1)] .
  moreover from d have "same_env c d" by (simp add: settles_def)
  ultimately show ?thesis
    by (cases r) (simp_all add: root_preimage_cong, simp_all add: same_env_def)
qed

theorem state_root_result_witness:
  "\<exists>c'. vm_execute Release zero_digest [] [0x01, 5, 0xFF] (context_new 1000) = Some (Ok (), c') \<and>
     state_root c' = take 32 (zero_digest [])"
proof -
  have bounded: "vec_bounded [0x01 :: u8, 5, 0xFF]" by (simp add: vec_bounded_def)
  obtain c' where
    run: "vm_execute Release zero_digest [] [0x01, 5, 0xFF] (context_new 1000) = Some (Ok (), c')"
    using push_stop_run by blast
  from state_root_result [OF bounded run] run show ?thesis
    by (simp add: context_new_def root_preimage_def storage_bytes_def)
qed

text \<open>The state root does not depend on the order in which the storage hash map is iterated.\<close>

theorem state_root_order_independent:
  assumes "iterates (storage c) ks" and "iterates (storage c) ks'"
  shows "compute_state_root H ks c = compute_state_root H ks' c"
  by (simp add: compute_state_root_def root_preimage_order [OF assms])

theorem state_root_order_independent_witness:
  "compute_state_root zero_digest [replicate 32 1, replicate 32 2]
     ((context_new 10)\<lparr>storage := [replicate 32 1 \<mapsto> VInt 7, replicate 32 2 \<mapsto> VBool True]\<rparr>) =
   compute_state_root zero_digest [replicate 32 2, replicate 32 1]
     ((context_new 10)\<lparr>storage := [replicate 32 1 \<mapsto> VInt 7, replicate 32 2 \<mapsto> VBool True]\<rparr>)"
  by (rule state_root_order_independent) (auto simp: iterates_def replicate_eq_replicate)

lemma exec_opcode_stop:
  "wp (exec_opcode b H prog opcode) (\<lambda>stop _. stop \<longrightarrow> opcode = 0xFF) (\<lambda>_ _. True) (\<lambda>_ _. True) c"
  by (simp add: exec_opcode_def wp_simps)

lemma vm_step_stop:
  assumes "vm_running prog c" and "vec_bounded prog" and "vm_step b H prog c = (Ok True, d)"
  shows "prog ! unat (program_counter c) = 0xFF" and "d = c\<lparr>gas_remaining := gas_remaining d\<rparr>"
proof -
  have "wp (vm_step b H prog) (\<lambda>stop _. stop \<longrightarrow> prog ! unat (program_counter c) = 0xFF)
      (\<lambda>_ _. True) (\<lambda>_ _. True) c"
    using assms(1) exec_opcode_stop
    by (simp add: vm_step_def wp_simps index_def vm_running_def)
  from wp_Ok [OF this assms(3)] show "prog ! unat (program_counter c) = 0xFF" by simp
  from wp_Ok [OF vm_step_contract [OF assms(1,2)] assms(3)]
  show "d = c\<lparr>gas_remaining := gas_remaining d\<rparr>" by simp
qed

lemma completes_at_stop:
  assumes "completes b H prog c ops d" and "vec_bounded prog" and "vm_running prog d"
  shows "prog ! unat (program_counter d) = 0xFF"
  using assms
proof (induction rule: completes.induct)
  case (at_stop c d)
  note stop = vm_step_stop [OF at_stop(1,3,2)]
  have "program_counter d = program_counter c" by (subst stop(2)) simp
  with stop(1) show ?case by simp
qed auto

text \<open>Running a machine again after it stopped at \<open>STOP\<close> changes nothing but the gas: the program
  counter still points at \<open>STOP\<close>, which is charged once more.\<close>

theorem rerun_after_stop:
  assumes "vec_bounded prog" and "gas_config c = gas_config_default"
    and "vm_execute b H ks prog c = Some (Ok (), c')"
    and "vm_running prog c'" and "2 \<le> unat (gas_remaining c')"
  shows "vm_execute b H ks prog c' = Some (Ok (), c'\<lparr>gas_remaining := gas_remaining c' - 2\<rparr>)"
proof -
  obtain d where loop: "vm_loop (Suc (length prog)) b H prog c = Some (Ok (), d)" and
    d: "settles c d" and c': "c' = compute_state_root H ks d"
    using vm_execute_settles [OF assms(3,1)] by auto
  from loop obtain ops where "completes b H prog c ops d"
    unfolding vm_loop_def by (blast dest: loop_completes)
  then have "prog ! unat (program_counter c') = 0xFF"
    using completes_at_stop assms(1,4) c' by (auto simp: vm_running_def)
  moreover have "gas_config c' = gas_config_default"
    using d c' assms(2) by (simp add: settles_def same_env_def)
  ultimately have "vm_step b H prog c' = (Ok True, c'\<lparr>gas_remaining := gas_remaining c' - 2\<rparr>)"
    unfolding wp_returns using assms(4,5)
    by (simp add: vm_step_def wp_simps exec_opcode_def index_def vm_running_def word_less_nat_alt)
  then have "run_loop (Suc 0) (vm_running prog) (vm_step b H prog) c' =
      Some (Ok (), c'\<lparr>gas_remaining := gas_remaining c' - 2\<rparr>)"
    using assms(4) by simp
  from vm_execute_from_loop [OF this assms(1)] show ?thesis
    by (simp add: c' compute_state_root_def root_preimage_def)
qed

theorem rerun_after_stop_witness:
  "\<exists>c'. vm_execute Release zero_digest [] [0x01, 5, 0xFF] (context_new 1000) = Some (Ok (), c') \<and>
     vm_execute Release zero_digest [] [0x01, 5, 0xFF] c' =
       Some (Ok (), c'\<lparr>gas_remaining := gas_remaining c' - 2\<rparr>)"
proof -
  have bounded: "vec_bounded [0x01 :: u8, 5, 0xFF]" by (simp add: vec_bounded_def)
  obtain c' where
    run: "vm_execute Release zero_digest [] [0x01, 5, 0xFF] (context_new 1000) = Some (Ok (), c')"
    and "program_counter c' = 2" and "gas_remaining c' = 995"
    by (simp add: vm_eval)
  then have "vm_running [0x01, 5, 0xFF] c'" and "2 \<le> unat (gas_remaining c')"
    by (simp_all add: vm_running_def)
  from rerun_after_stop [OF bounded _ run this] run show ?thesis by (simp add: context_new_def)
qed

section \<open>Types and instructions\<close>

text \<open>C31: A run forges no value. Whatever the outcome of a run of a new machine, its stack and memory hold
  no boolean, every byte string and every address there is the hash of a contiguous part of the program,
  and every contract has such a part as its code and empty storage; every call frame has the zero
  address as its caller, such a hash as its address, and parts of the program as code and returned
  bytes. The same holds from every context that starts out so.\<close>

theorem values_have_origin:
  assumes "vec_bounded prog" and "context_from H prog c"
    and "vm_execute b H ks prog c = Some (r, c')"
  shows "context_from H prog (context_new g) \<and>
    (\<forall>v \<in> set (stack c') \<union> ran (memory c'). case v of
        VInt i \<Rightarrow> True
      | VBool x \<Rightarrow> False
      | VBytes d \<Rightarrow> \<exists>code. sublist code prog \<and> d = take 32 (H code)
      | VAddress a \<Rightarrow> \<exists>code. sublist code prog \<and> a = take 32 (H code)
      | VContract k \<Rightarrow> sublist (contract_code k) prog \<and> contract_storage k = Map.empty) \<and>
    (\<forall>f \<in> set (call_stack c'). frame_caller f = replicate 32 0 \<and>
      (\<exists>code. sublist code prog \<and> frame_address f = take 32 (H code)) \<and>
      sublist (frame_code f) prog \<and> sublist (return_data f) prog)"
proof -
  obtain d where "vm_loop (Suc (length prog)) b H prog c = Some (r, d)" and
    c': "c' = (case r of Ok _ \<Rightarrow> compute_state_root H ks d | _ \<Rightarrow> d)"
    using vm_execute_settles [OF assms(3,1)] .
  then have d: "context_from H prog d"
    unfolding vm_loop_def using vm_origin.run_invar assms by blast
  have same: "stack c' = stack d" "memory c' = memory d" "call_stack c' = call_stack d"
    using c' by (cases r; simp)+
  have val: "(case v of VInt i \<Rightarrow> True | VBool x \<Rightarrow> False
      | VBytes d \<Rightarrow> \<exists>code. sublist code prog \<and> d = take 32 (H code)
      | VAddress a \<Rightarrow> \<exists>code. sublist code prog \<and> a = take 32 (H code)
      | VContract k \<Rightarrow> sublist (contract_code k) prog \<and> contract_storage k = Map.empty)"
    if "val_from H prog v" for v
    using that by (cases v) (auto simp: hash_of_code_def contract_from simp del: val_from.simps(5))
  have "val_from H prog v" if "v \<in> set (stack c') \<union> ran (memory c')" for v
    using d that by (auto simp: context_from_def same ran_def)
  moreover have "\<forall>f \<in> set (call_stack c'). frame_from H prog f"
    using d by (simp add: context_from_def same)
  ultimately show ?thesis
    using context_from_new val by (auto simp: frame_from_def hash_of_code_def simp del: Un_iff)
qed

text \<open>A contract of one byte is created from the program.\<close>

theorem values_have_origin_witness:
  "\<exists>r c' k. vm_execute Debug zero_digest [] [0x01, 1, 0x01, 9, 0x0B, 7] (context_new 100000) = Some (r, c') \<and>
     VContract k \<in> set (stack c') \<and> sublist (contract_code k) [0x01, 1, 0x01, 9, 0x0B, 7]"
proof -
  have bounded: "vec_bounded [0x01 :: u8, 1, 0x01, 9, 0x0B, 7]" by (simp add: vec_bounded_def)
  obtain r c' k where
    run: "vm_execute Debug zero_digest [] [0x01, 1, 0x01, 9, 0x0B, 7] (context_new 100000) = Some (r, c')"
    and k: "VContract k \<in> set (stack c')"
    by (simp add: vm_eval)
  have "sublist (contract_code k) [0x01, 1, 0x01, 9, 0x0B, 7]"
    using values_have_origin [OF bounded context_from_new run, THEN conjunct2, THEN conjunct1, rule_format,
        OF UnI1 [OF k]] by simp
  with run k show ?thesis by blast
qed

text \<open>\<open>CREATE\<close> takes the \<open>code_size\<close> bytes after it as the contract's code, pushes the first 32
  bytes of their hash as the address and then the contract with the popped balance, jumps over the
  code, and costs 32400 gas.\<close>

theorem create_instruction:
  assumes "vec_bounded prog" and "vm_running prog c" and "prog ! unat (program_counter c) = 0x0B"
    and "gas_config c = gas_config_default" and "32400 \<le> unat (gas_remaining c)"
    and "stack c = st @ [VInt n, VInt balance]"
    and "unat (program_counter c) + 1 + unat n \<le> length prog"
    and "code = take (unat n) (drop (unat (program_counter c) + 1) prog)"
  shows "vm_step b H prog c = (Ok False, c\<lparr>
      stack := st @ [VAddress (take 32 (H code)), VContract (ContractData code Map.empty balance)],
      program_counter := program_counter c + 1 + n,
      gas_remaining := gas_remaining c - 32400\<rparr>)"
proof -
  let ?pc = "program_counter c"
  have len: "length prog < 2 ^ 63" using assms(1) by (simp add: vec_bounded_def)
  then have pc1: "unat (?pc + 1) = unat ?pc + 1" and add1: "add_u b ?pc 1 = Some (?pc + 1)"
    using assms(7) by (auto simp: unat_add_no_wrap intro!: add_u_exact)
  have pcn: "unat (?pc + 1 + n) = unat ?pc + 1 + unat n"
    and addn: "add_u b (?pc + 1) n = Some (?pc + 1 + n)"
    using pc1 len assms(7) by (auto simp: unat_add_no_wrap intro!: add_u_exact)
  have one: "add_u b 1 n = Some (1 + n)" and "unat (1 + n) = 1 + unat n"
    using len assms(7) by (auto simp: unat_add_no_wrap intro!: add_u_exact)
  then have jump: "add_u b ?pc (1 + n) = Some (?pc + 1 + n)"
    using len assms(7) by (subst add_u_exact) (auto simp: add.assoc)
  have slice: "vec_slice prog (?pc + 1) (?pc + 1 + n) = Some code"
    using pc1 pcn assms(7,8) by (simp add: vec_slice_def word_le_nat_alt)
  have pop: "vec_pop (stack c) = Some (VInt balance, st @ [VInt n])"
    using assms(6) by (simp add: vec_pop_Some)
  have gas: "400 \<le> gas_remaining c" "32000 \<le> gas_remaining c - 400"
    using assms(5) by (simp_all add: word_le_nat_alt unat_sub)
  have idx: "index prog (unat ?pc) = Some 0x0B"
    using assms(2,3) by (simp add: index_def vm_running_def)
  have price: "op_price gas_config_default 0x0B = 400" "contract_creation gas_config_default = 32000"
    by (simp_all add: op_price_def gas_config_default_def default_op_cost_def)
  show ?thesis
    unfolding wp_returns using assms(4) gas
    by (simp add: vm_step_def wp_simps exec_opcode_def op_create_def idx price pop add1 addn one
        jump slice not_less)
qed

theorem create_instruction_witness:
  "vm_step Debug zero_digest [0x0B, 0xAA, 0xBB, 0xFF]
     ((context_new 50000)\<lparr>stack := [VInt 2, VInt 100]\<rparr>) =
   (Ok False, (context_new 50000)\<lparr>
      stack := [VAddress (replicate 32 0),
                VContract (ContractData [0xAA, 0xBB] Map.empty 100)],
      program_counter := 3, gas_remaining := 17600\<rparr>)"
  using create_instruction [where prog = "[0x0B, 0xAA, 0xBB, 0xFF]" and b = Debug and
      H = zero_digest and c = "(context_new 50000)\<lparr>stack := [VInt 2, VInt 100]\<rparr>" and
      st = "[]" and n = 2 and balance = 100 and code = "[0xAA, 0xBB]"]
  by (simp add: vec_bounded_def vm_running_def context_new_def zero_digest_def)

text \<open>\<open>CALL\<close> looks the contract up in memory under the first byte of the popped address. When
  it is there, a frame with its code, the value and the gas limit is pushed on the call stack, and
  nothing else happens: the code is not run, no gas is set aside, no balance moves. When it is not
  there, the call fails with the three operands popped.\<close>

theorem call_instruction:
  assumes "vec_bounded prog" and "vm_running prog c" and "prog ! unat (program_counter c) = 0x0C"
    and "gas_config c = gas_config_default" and "40 \<le> unat (gas_remaining c)"
    and "stack c = st @ [VInt gas_limit, VInt amount, VAddress a]"
  shows "vm_step b H prog c =
    (case memory c (address_slot a) of
       Some (VContract k) \<Rightarrow>
         (Ok False, c\<lparr>stack := st, program_counter := program_counter c + 1,
            gas_remaining := gas_remaining c - 40,
            call_stack := call_stack c @
              [\<lparr>frame_caller = replicate 32 0, frame_address = a, frame_value = amount,
                frame_gas_limit = gas_limit, frame_code = contract_code k, return_data = []\<rparr>]\<rparr>)
     | _ \<Rightarrow> (Err (ExecutionError ''Contract not found''),
              c\<lparr>stack := st, gas_remaining := gas_remaining c - 40\<rparr>))"
proof -
  let ?pc = "program_counter c"
  have add1: "add_u b ?pc 1 = Some (?pc + 1)"
    using assms(1,2) by (intro add_u_exact) (simp add: vec_bounded_def vm_running_def)
  have pop: "vec_pop (stack c) = Some (VAddress a, st @ [VInt gas_limit, VInt amount])"
    "vec_pop (st @ [VInt gas_limit, VInt amount]) = Some (VInt amount, st @ [VInt gas_limit])"
    using assms(6) by (simp_all add: vec_pop_Some)
  have idx: "index prog (unat ?pc) = Some 0x0C"
    using assms(2,3) by (simp add: index_def vm_running_def)
  have price: "op_price gas_config_default 0x0C = 40"
    by (simp add: op_price_def gas_config_default_def default_op_cost_def)
  have gas: "\<not> gas_remaining c < 40" using assms(5) by (simp add: word_less_nat_alt)
  show ?thesis
    using assms(4) gas
    by (simp add: wp_returns wp_fails vm_step_def wp_simps exec_opcode_def op_call_def idx price pop
        add1 split: option.split val.split)
qed

theorem call_instruction_witness:
  "vm_step Release zero_digest [0x0C]
     ((context_new 100)\<lparr>stack := [VInt 10, VInt 0, VAddress (replicate 32 7)]\<rparr>) =
   (Err (ExecutionError ''Contract not found''), (context_new 100)\<lparr>gas_remaining := 60\<rparr>)"
  using call_instruction [where prog = "[0x0C]" and b = Release and H = zero_digest and
      c = "(context_new 100)\<lparr>stack := [VInt 10, VInt 0, VAddress (replicate 32 7)]\<rparr>" and
      st = "[]" and gas_limit = 10 and amount = 0 and a = "replicate 32 7"]
  by (simp add: vec_bounded_def vm_running_def context_new_def)

text \<open>An opcode without a match arm ends the run with \<open>InvalidOpcode\<close> after its price has been
  charged, and changes nothing else. That includes the five opcodes \<open>0x06\<close> to \<open>0x0A\<close> (jumps and
  comparisons), which the gas schedule prices.\<close>

definition implemented_opcodes :: "u8 list" where
  "implemented_opcodes =
     [0x01, 0x02, 0x03, 0x04, 0x05, 0x0B, 0x0C, 0x0D, 0x0E, 0x0F, 0xFF]"

theorem unimplemented_opcode:
  assumes "vec_bounded prog" and "vm_running prog c" and "opcode = prog ! unat (program_counter c)"
    and "opcode \<notin> set implemented_opcodes" and "op_price (gas_config c) opcode \<le> gas_remaining c"
  shows "vm_execute b H ks prog c = Some (Err (InvalidOpcode opcode),
    c\<lparr>gas_remaining := gas_remaining c - op_price (gas_config c) opcode\<rparr>)"
proof -
  have "vm_step b H prog c = (Err (InvalidOpcode opcode),
      c\<lparr>gas_remaining := gas_remaining c - op_price (gas_config c) opcode\<rparr>)"
    unfolding wp_fails using assms(2-5)
    by (simp add: vm_step_def wp_simps exec_opcode_def index_def vm_running_def
        implemented_opcodes_def not_less)
  then have "run_loop 1 (vm_running prog) (vm_step b H prog) c = Some (Err (InvalidOpcode opcode),
      c\<lparr>gas_remaining := gas_remaining c - op_price (gas_config c) opcode\<rparr>)"
    using assms(2) by simp
  from vm_execute_from_loop [OF this assms(1)] show ?thesis by simp
qed

text \<open>The jump \<open>0x06\<close>, priced at 8.\<close>

theorem unimplemented_opcode_witness:
  "vm_execute Release zero_digest [] [0x06] (context_new 100) =
     Some (Err (InvalidOpcode 0x06), (context_new 100)\<lparr>gas_remaining := 92\<rparr>)"
  using unimplemented_opcode [where prog = "[0x06]" and c = "context_new 100" and opcode = "0x06"
      and b = Release and H = zero_digest and ks = "[]"]
  by (simp add: vec_bounded_def vm_running_def context_new_def implemented_opcodes_def
      op_price_def gas_config_default_def default_op_cost_def)

subsection \<open>Code inside a program\<close>

text \<open>The machine is at the start of a block of code that lies in the program.\<close>

definition at_code :: "u8 list \<Rightarrow> vm_context \<Rightarrow> u8 list \<Rightarrow> bool" where
  "at_code prog c code \<longleftrightarrow>
     vec_bounded prog \<and> (\<exists>pre post. prog = pre @ code @ post \<and> unat (program_counter c) = length pre)"

lemma at_code_append: "at_code prog c (xs @ ys) \<Longrightarrow> at_code prog c xs"
  unfolding at_code_def by (metis append.assoc)

lemma at_code_advance:
  assumes "at_code prog c (xs @ ys)"
    and "program_counter d = program_counter c + of_nat (length xs)"
  shows "at_code prog d ys"
proof -
  obtain pre post where prog: "prog = pre @ (xs @ ys) @ post" and
    pc: "unat (program_counter c) = length pre" and len: "vec_bounded prog"
    using assms(1) by (auto simp: at_code_def)
  have "length pre + length xs < 2 ^ 63" using len prog by (simp add: vec_bounded_def)
  then have "unat (of_nat (length xs) :: usize) = length xs"
    by (simp add: unsigned_of_nat take_bit_nat_eq_self)
  with pc \<open>length pre + length xs < 2 ^ 63\<close> have "unat (program_counter d) = length (pre @ xs)"
    unfolding assms(2) by (subst unat_add_no_wrap) simp_all
  with prog len show ?thesis
    unfolding at_code_def by (intro conjI exI [of _ "pre @ xs"] exI [of _ post]) auto
qed

lemma at_code_fetch:
  assumes "at_code prog c (x # xs)"
  shows "vm_running prog c" and "prog ! unat (program_counter c) = x"
    and "index prog (unat (program_counter c)) = Some x"
  using assms by (auto simp: at_code_def vm_running_def index_def nth_append)

lemma at_code_operand:
  assumes "at_code prog c (x # y # xs)"
  shows "add_u b (program_counter c) 1 = Some (program_counter c + 1)"
    and "index prog (unat (program_counter c + 1)) = Some y"
    and "add_u b (program_counter c) 2 = Some (program_counter c + 2)"
proof -
  obtain pre post where prog: "prog = pre @ x # y # xs @ post" and
    pc: "unat (program_counter c) = length pre" and len: "length prog < 2 ^ 63"
    using assms by (auto simp: at_code_def vec_bounded_def)
  from prog len pc show "add_u b (program_counter c) 1 = Some (program_counter c + 1)"
    and "add_u b (program_counter c) 2 = Some (program_counter c + 2)"
    by (auto intro!: add_u_exact)
  have "unat (program_counter c + 1) = Suc (length pre)"
    using prog len pc by (simp add: unat_add_no_wrap)
  with prog show "index prog (unat (program_counter c + 1)) = Some y"
    by (simp add: index_def nth_append)
qed

lemma at_code_next:
  assumes "at_code prog c (x # xs)"
  shows "add_u b (program_counter c) 1 = Some (program_counter c + 1)"
proof -
  obtain pre post where "prog = pre @ x # xs @ post" and
    "unat (program_counter c) = length pre" and "length prog < 2 ^ 63"
    using assms by (auto simp: at_code_def vec_bounded_def)
  then show ?thesis by (auto intro!: add_u_exact)
qed

lemma step_push:
  assumes "at_code prog c (0x01 # n # xs)" and "gas_config c = gas_config_default"
    and "3 \<le> unat (gas_remaining c)" and "length (stack c) < 1024"
  shows "vm_step b H prog c =
    (Ok False, c\<lparr>stack := stack c @ [VInt (ucast n)], program_counter := program_counter c + 2,
       gas_remaining := gas_remaining c - 3\<rparr>)"
  unfolding wp_returns using assms at_code_fetch [OF assms(1)] at_code_operand(2) [OF assms(1)]
    at_code_operand(1,3) [OF assms(1), of b]
  by (simp add: vm_step_def wp_simps exec_opcode_def op_push_def word_less_nat_alt)

text \<open>The context after \<open>n\<close> bytes of code that cost \<open>g\<close> gas and left the stack \<open>st\<close>.\<close>

definition after :: "nat \<Rightarrow> nat \<Rightarrow> val list \<Rightarrow> vm_context \<Rightarrow> vm_context" where
  "after n g st c =
     c\<lparr>stack := st, program_counter := program_counter c + of_nat n,
       gas_remaining := gas_remaining c - of_nat g\<rparr>"

lemma after_simps [simp]:
  "stack (after n g st c) = st" "gas_config (after n g st c) = gas_config c"
  "program_counter (after n g st c) = program_counter c + of_nat n"
  "gas_remaining (after n g st c) = gas_remaining c - of_nat g"
  by (simp_all add: after_def)

lemma after_after [simp]: "after n' g' st' (after n g st c) = after (n + n') (g + g') st' c"
  by (simp add: after_def algebra_simps)

lemma after_gas: "g \<le> unat (gas_remaining c) \<Longrightarrow>
    unat (gas_remaining (after n g st c)) = unat (gas_remaining c) - g"
proof -
  assume le: "g \<le> unat (gas_remaining c)"
  then have "g < 18446744073709551616" using unat_lt_2p64 [of "gas_remaining c"] by linarith
  then have u: "unat (of_nat g :: u64) = g"
    by (simp add: unsigned_of_nat take_bit_nat_eq_self)
  with le have "(of_nat g :: u64) \<le> gas_remaining c" by (simp add: word_le_nat_alt)
  with u show ?thesis by (simp add: unat_sub)
qed

lemma at_code_after:
  "at_code prog c (xs @ ys) \<Longrightarrow> at_code prog (after (length xs) g st c) ys"
  by (erule at_code_advance) simp

text \<open>A value stored is the value loaded: \<open>STORE\<close>, then \<open>PUSH\<close> of the same one-byte address,
  then \<open>LOAD\<close>, leave the value on the stack and in memory at that address, for 43 gas. The address
  comes from the stack: neither instruction has an operand in the program.\<close>

theorem store_then_load:
  assumes "at_code prog c [0x04, 0x01, a, 0x05]" and "gas_config c = gas_config_default"
    and "43 \<le> unat (gas_remaining c)" and "stack c = st @ [v, VInt (ucast a)]"
    and "length st < 1024"
  shows "\<exists>d. vm_trace b H prog c [0x04, 0x01, 0x05] d \<and> stack d = st @ [v] \<and>
    memory d = (memory c)(ucast a \<mapsto> v) \<and> unat (gas_remaining d) = unat (gas_remaining c) - 43"
proof -
  let ?c1 = "(after 1 20 st c)\<lparr>memory := (memory c)(ucast a \<mapsto> v)\<rparr>"
  let ?c2 = "after 2 3 (st @ [VInt (ucast a)]) ?c1"
  let ?c3 = "after 1 20 (st @ [v]) ?c2"
  have price: "op_price gas_config_default 0x04 = 20" "op_price gas_config_default 0x05 = 20"
    by (simp_all add: op_price_def gas_config_default_def default_op_cost_def)
  have at1: "at_code prog ?c1 [0x01, a, 0x05]"
    by (rule at_code_advance [where xs = "[0x04]" and c = c]) (use assms(1) in simp_all)
  have at2: "at_code prog ?c2 [0x05]"
    by (rule at_code_advance [where xs = "[0x01, a]" and c = ?c1]) (use at1 in simp_all)
  have g1: "unat (gas_remaining ?c1) = unat (gas_remaining c) - 20"
    using after_gas [of 20 c 1 st] assms(3) by simp
  have g2: "unat (gas_remaining ?c2) = unat (gas_remaining c) - 23"
    using after_gas [of 3 ?c1 2] g1 assms(3) by (simp del: after_simps(4))
  have g3: "unat (gas_remaining ?c3) = unat (gas_remaining c) - 43"
    using after_gas [of 20 ?c2 1] g2 assms(3) by (simp del: after_simps(4) after_after)
  have pop: "vec_pop (stack c) = Some (VInt (ucast a), st @ [v])"
    using assms(4) by (simp add: vec_pop_Some)
  have s1: "vm_step b H prog c = (Ok False, ?c1)"
    unfolding wp_returns
    using assms(2,3) at_code_fetch [OF assms(1)] at_code_next [OF assms(1), of b] pop
    by (simp add: vm_step_def wp_simps exec_opcode_def op_store_def price word_less_nat_alt after_def)
  have s2: "vm_step b H prog ?c1 = (Ok False, ?c2)"
    using step_push [OF at1, of b H] assms(2,3,5) g1 by (simp add: after_def)
  have s3: "vm_step b H prog ?c2 = (Ok False, ?c3)"
    unfolding wp_returns
    using assms(2,3) at_code_fetch [OF at2] at_code_next [OF at2, of b] g2
    by (simp add: vm_step_def wp_simps exec_opcode_def op_load_def price word_less_nat_alt after_def)
  have "vm_trace b H prog c ([0x04] @ [0x01] @ [0x05]) ?c3"
    using trace_step [OF at_code_fetch(1) [OF assms(1)] s1
        trace_step [OF at_code_fetch(1) [OF at1] s2
          trace_step [OF at_code_fetch(1) [OF at2] s3 trace_nil]]]
    by (simp only: at_code_fetch(2) [OF assms(1)] at_code_fetch(2) [OF at1]
        at_code_fetch(2) [OF at2] append_Cons append_Nil)
  with g3 show ?thesis by (intro exI [of _ ?c3]) (simp add: after_def)
qed

theorem store_then_load_witness:
  "\<exists>d. vm_trace Debug zero_digest [0x04, 0x01, 7, 0x05]
       ((context_new 100)\<lparr>stack := [VBool True, VInt 7]\<rparr>) [0x04, 0x01, 0x05] d \<and>
     stack d = [VBool True] \<and> memory d 7 = Some (VBool True)"
proof -
  have at: "at_code [0x04, 0x01, 7, 0x05] ((context_new 100)\<lparr>stack := [VBool True, VInt 7]\<rparr>)
      [0x04, 0x01, 7, 0x05]"
    unfolding at_code_def by (intro conjI exI [of _ "[]"]) (simp_all add: vec_bounded_def context_new_def)
  show ?thesis
    using store_then_load [OF at, of "[]" "VBool True" Debug zero_digest]
    by (auto simp: context_new_def)
qed

definition main_program :: "u8 list" where
  "main_program = [0x01, 0x05, 0x01, 0x03, 0x02, 0x01, 0x02, 0x03, 0x04, 0x00, 0xFF]"

text \<open>The example program of \<open>src/main.rs\<close>, which pushes \<open>5\<close> and \<open>3\<close>, adds, multiplies by
  \<open>2\<close> and is commented to store the result at address 0, ends with \<open>StackUnderflow\<close>: \<open>STORE\<close> takes
  the result itself as the address and finds no value below it. The byte \<open>0x00\<close> meant as the
  address is never reached.\<close>

theorem main_program_underflows:
  "map_option (\<lambda>(r, c). (r, stack c, program_counter c))
     (vm_execute b H ks main_program (context_new 1000000)) =
   Some (Err StackUnderflow, [], 8)"
  by (cases b) (simp_all add: main_program_def vm_eval)

end
