(* ===== verification/Messages.thy ===== *)
theory Messages
  imports Rust_Prelude
begin

text \<open>
  Model of the data of \<open>src/network/message.rs\<close> (messages, blocks, transactions, requests) and of
  the operations on it: hashing, signing and verification. Serialisation (\<open>bincode\<close>), the hash
  function (\<open>blake3\<close>) and signatures (\<open>k256\<close>) are libraries; they are the fields of the record
  \<open>crypto_env\<close>, over which everything here is defined. \<open>ser_tx\<close> returns \<open>None\<close> when
  serialisation fails.
\<close>

type_synonym digest = "u8 list"

datatype network_error =
    ConnectionFailed string
  | MessageError string
  | PeerError string
  | SyncError string
  | ConsensusError string

datatype crypto_error =
  InvalidKey | InvalidSignature | VerificationFailed | EncryptionFailed | DecryptionFailed

section \<open>Data\<close>

record transaction =
  tx_nonce :: u64
  tx_from :: string
  tx_to :: string
  tx_value :: u64
  tx_data :: "u8 list"
  tx_signature :: "u8 list option"

record block_header =
  parent_hash :: digest
  hd_timestamp :: u64
  number :: u64
  author :: string
  transactions_root :: digest
  hd_state_root :: digest
  hd_receipts_root :: digest

record block =
  header :: block_header
  transactions :: "transaction list"
  blk_state_root :: digest
  blk_receipts_root :: digest

record state_request =
  req_block_number :: u64
  req_account :: string
  req_storage_keys :: "digest list"

record state_proof =
  account_proof :: "u8 list list"
  storage_proofs :: "u8 list list list"

record state_response =
  resp_block_number :: u64
  resp_account :: string
  resp_storage :: "digest \<rightharpoonup> u8 list"
  resp_proof :: state_proof

record handshake_data =
  hs_version :: u32
  hs_chain_id :: u64
  hs_genesis_hash :: digest
  hs_head_hash :: digest
  hs_head_number :: u64

datatype message_type =
    BlockMsg block
  | TransactionMsg transaction
  | StateRequestMsg state_request
  | StateResponseMsg state_response
  | Ping
  | Pong
  | Handshake handshake_data

record message =
  msg_type :: message_type
  msg_sender :: string
  msg_timestamp :: u64
  msg_signature :: "u8 list option"

section \<open>Libraries\<close>

record 'k crypto_env =
  ser_header :: "block_header \<Rightarrow> u8 list option"
  ser_tx :: "transaction \<Rightarrow> u8 list option"
  ser_tx_body :: "u64 \<times> string \<times> string \<times> u64 \<times> u8 list \<Rightarrow> u8 list option"
  ser_message :: "message_type \<times> string \<times> u64 \<Rightarrow> u8 list option"
  blake3 :: "u8 list \<Rightarrow> digest"
  default_hash :: digest
  sign_with :: "'k \<Rightarrow> u8 list \<Rightarrow> u8 list"
  verify_with :: "'k \<Rightarrow> u8 list \<Rightarrow> u8 list \<Rightarrow> (crypto_error, bool) outcome"
  ser_error :: crypto_error

section \<open>Operations\<close>

text \<open>\<open>timestamp\<close> is the number of seconds since the epoch.\<close>

definition message_new :: "u64 \<Rightarrow> message_type \<Rightarrow> string \<Rightarrow> message" where
  "message_new now mt sender =
     \<lparr>msg_type = mt, msg_sender = sender, msg_timestamp = now, msg_signature = None\<rparr>"

definition message_sign :: "'k crypto_env \<Rightarrow> 'k \<Rightarrow> (message, crypto_error, unit) comp" where
  "message_sign E key =
     andthen (reads (\<lambda>m. ser_message E (msg_type m, msg_sender m, msg_timestamp m))) (\<lambda>x.
     andthen (ok_or (ser_error E) x) (\<lambda>bytes.
     updates (\<lambda>m. m\<lparr>msg_signature := Some (sign_with E key bytes)\<rparr>)))"

definition message_verify :: "'k crypto_env \<Rightarrow> 'k \<Rightarrow> message \<Rightarrow> (crypto_error, bool) outcome" where
  "message_verify E key m =
     (case msg_signature m of
        None \<Rightarrow> Err InvalidSignature
      | Some sig \<Rightarrow>
          (case ser_message E (msg_type m, msg_sender m, msg_timestamp m) of
             None \<Rightarrow> Err (ser_error E)
           | Some bytes \<Rightarrow> verify_with E key bytes sig))"

text \<open>\<open>None\<close> is the panic of \<open>serialize(..).unwrap()\<close>.\<close>

definition block_hash :: "'k crypto_env \<Rightarrow> block \<Rightarrow> digest option" where
  "block_hash E b = map_option (blake3 E) (ser_header E (header b))"

fun ser_all :: "'k crypto_env \<Rightarrow> transaction list \<Rightarrow> u8 list option" where
  "ser_all E [] = Some []"
| "ser_all E (tx # txs) =
     Option.bind (ser_tx E tx) (\<lambda>bytes. map_option ((@) bytes) (ser_all E txs))"

definition compute_transactions_root :: "'k crypto_env \<Rightarrow> transaction list \<Rightarrow> digest option" where
  "compute_transactions_root E txs = map_option (blake3 E) (ser_all E txs)"

definition tx_hash :: "'k crypto_env \<Rightarrow> transaction \<Rightarrow> digest option" where
  "tx_hash E tx =
     map_option (blake3 E) (ser_tx_body E (tx_nonce tx, tx_from tx, tx_to tx, tx_value tx, tx_data tx))"

definition tx_sign :: "'k crypto_env \<Rightarrow> 'k \<Rightarrow> (transaction, crypto_error, unit) comp" where
  "tx_sign E key =
     andthen (reads (tx_hash E)) (\<lambda>x.
     andthen (or_panic UnwrapOnNone x) (\<lambda>h.
     updates (\<lambda>tx. tx\<lparr>tx_signature := Some (sign_with E key h)\<rparr>)))"

text \<open>\<open>Transaction::verify\<close> computes the hash and does not use it.\<close>

definition tx_verify :: "'k crypto_env \<Rightarrow> transaction \<Rightarrow> bool option" where
  "tx_verify E tx =
     (case tx_signature tx of
        Some sig \<Rightarrow> map_option (\<lambda>h. True) (tx_hash E tx)
      | None \<Rightarrow> Some False)"

fun verify_all :: "'k crypto_env \<Rightarrow> transaction list \<Rightarrow> bool option" where
  "verify_all E [] = Some True"
| "verify_all E (tx # txs) =
     Option.bind (tx_verify E tx) (\<lambda>ok. if \<not> ok then Some False else verify_all E txs)"

definition block_verify :: "'k crypto_env \<Rightarrow> block \<Rightarrow> bool option" where
  "block_verify E b =
     Option.bind (compute_transactions_root E (transactions b)) (\<lambda>root.
       if root \<noteq> transactions_root (header b) then Some False
       else verify_all E (transactions b))"

section \<open>Lemmas\<close>

lemma verify_all_signed:
  assumes "\<forall>tx \<in> set txs. tx_hash E tx \<noteq> None"
  shows "verify_all E txs = Some (\<forall>tx \<in> set txs. tx_signature tx \<noteq> None)"
  using assms by (induction txs) (auto simp: tx_verify_def split: option.splits)

text \<open>What is documented of \<open>bincode\<close>: no encoding is a prefix of another one.\<close>

definition prefix_free :: "('a \<Rightarrow> u8 list option) \<Rightarrow> bool" where
  "prefix_free f \<longleftrightarrow> (\<forall>x y bs cs us vs.
     f x = Some bs \<and> f y = Some cs \<and> bs @ us = cs @ vs \<longrightarrow> x = y \<and> us = vs)"

lemma prefix_freeD:
  "prefix_free f \<Longrightarrow> f x = Some bs \<Longrightarrow> f y = Some cs \<Longrightarrow> bs @ us = cs @ vs \<Longrightarrow> x = y \<and> us = vs"
  unfolding prefix_free_def by blast

lemma prefix_free_inj: "prefix_free f \<Longrightarrow> f x = Some bs \<Longrightarrow> f y = Some bs \<Longrightarrow> x = y"
  using prefix_freeD [of f x bs y bs "[]" "[]"] by simp

lemma ser_all_inj:
  assumes "prefix_free (ser_tx E)" and "\<forall>tx. ser_tx E tx \<noteq> Some []"
    and "ser_all E txs = Some bs" and "ser_all E txs' = Some bs"
  shows "txs = txs'"
  using assms(3,4)
proof (induction txs arbitrary: txs' bs)
  case Nil
  with assms(2) show ?case by (cases txs') (auto split: bind_splits)
next
  case (Cons tx txs)
  then obtain u us where u: "ser_tx E tx = Some u" "ser_all E txs = Some us" "bs = u @ us"
    by (auto split: bind_splits)
  with assms(2) have "u \<noteq> []" by metis
  with Cons.prems(2) u obtain tx' txs'' where txs': "txs' = tx' # txs''" by (cases txs') auto
  with Cons.prems(2) obtain v vs where v: "ser_tx E tx' = Some v" "ser_all E txs'' = Some vs"
    "bs = v @ vs" by (auto split: bind_splits)
  from prefix_freeD [OF assms(1) u(1) v(1), of us vs] u(3) v(3) have "tx = tx'" "us = vs" by auto
  with Cons.IH [OF u(2)] v(2) txs' show ?case by simp
qed

section \<open>Properties\<close>

text \<open>C32: Two blocks that both verify and have the same hash carry the same transactions in the same
  order, unless they exhibit a collision of the hash function on the two headers or on the two
  transaction lists. (Encodings are taken to be non-empty and prefix-free, as those of
  \<open>bincode\<close> are.) Nothing else of the body is bound: the state root and the receipts root
  outside the header can be replaced without changing hash or verification.\<close>

theorem block_hash_binds_transactions:
  assumes "prefix_free (ser_header E)" "prefix_free (ser_tx E)" "\<forall>tx. ser_tx E tx \<noteq> Some []"
    and "block_verify E b = Some True" "block_verify E b' = Some True"
    and "block_hash E b = Some h" "block_hash E b' = Some h"
    and "\<And>x y. ser_header E (header b) = Some x \<Longrightarrow> ser_header E (header b') = Some y \<Longrightarrow>
      blake3 E x = blake3 E y \<Longrightarrow> x = y"
    and "\<And>x y. ser_all E (transactions b) = Some x \<Longrightarrow> ser_all E (transactions b') = Some y \<Longrightarrow>
      blake3 E x = blake3 E y \<Longrightarrow> x = y"
  shows "header b = header b' \<and> transactions b = transactions b' \<and>
    block_hash E (b\<lparr>blk_state_root := r, blk_receipts_root := q\<rparr>) = Some h \<and>
    block_verify E (b\<lparr>blk_state_root := r, blk_receipts_root := q\<rparr>) = Some True"
proof -
  from assms(6,7) obtain x y where xy: "ser_header E (header b) = Some x"
    "ser_header E (header b') = Some y" "blake3 E x = blake3 E y"
    by (auto simp: block_hash_def)
  with assms(8) have "x = y" by blast
  with xy prefix_free_inj [OF assms(1)] have hdr: "header b = header b'" by blast
  from assms(4,5) obtain u v where uv: "ser_all E (transactions b) = Some u"
    "ser_all E (transactions b') = Some v" "blake3 E u = transactions_root (header b)"
    "blake3 E v = transactions_root (header b')"
    by (auto simp: block_verify_def compute_transactions_root_def split: bind_splits if_splits)
  with hdr assms(9) have "u = v" by metis
  with uv ser_all_inj [OF assms(2,3)] have "transactions b = transactions b'" by blast
  moreover have "block_verify E (b\<lparr>blk_state_root := r, blk_receipts_root := q\<rparr>) = block_verify E b"
    by (cases "compute_transactions_root E (transactions b)") (simp_all add: block_verify_def)
  ultimately show ?thesis using hdr assms(4,6) by (simp add: block_hash_def)
qed

text \<open>Transaction verification accepts any signature bytes: it tests only that a signature is
  there. So a block verifies precisely when the root in its header is the root of its
  transactions and each of them has some signature, for every sender and every key.\<close>

theorem block_verify_any_signature:
  assumes "\<forall>tx \<in> set (transactions b). tx_hash E tx \<noteq> None"
    and "compute_transactions_root E (transactions b) = Some root"
  shows "block_verify E b = Some (root = transactions_root (header b) \<and>
    (\<forall>tx \<in> set (transactions b). tx_signature tx \<noteq> None))"
  using assms by (simp add: block_verify_def verify_all_signed)

text \<open>A message that was signed successfully verifies under a key that accepts the signatures
  of the signing key, and signing changes nothing but the signature. Verifying an unsigned
  message is an error, not \<open>false\<close>.\<close>

theorem message_sign_verify:
  assumes "\<And>bytes. verify_with E vk bytes (sign_with E sk bytes) = Ok True"
    and "message_sign E sk m = (Ok (), m')"
  shows "message_verify E vk m' = Ok True \<and> m'\<lparr>msg_signature := msg_signature m\<rparr> = m \<and>
    message_verify E vk (m\<lparr>msg_signature := None\<rparr>) = Err InvalidSignature"
proof -
  from assms(2) obtain bytes where
    "ser_message E (msg_type m, msg_sender m, msg_timestamp m) = Some bytes"
    and "m' = m\<lparr>msg_signature := Some (sign_with E sk bytes)\<rparr>"
    by (auto simp: message_sign_def comp_Ok_iffs)
  with assms(1) show ?thesis by (simp add: message_verify_def)
qed

section \<open>Witnesses\<close>

definition sample_tx :: transaction where
  "sample_tx = \<lparr>tx_nonce = 0, tx_from = ''a'', tx_to = ''b'', tx_value = 100, tx_data = [],
     tx_signature = Some [1, 2, 3]\<rparr>"

definition sample_header :: block_header where
  "sample_header = \<lparr>parent_hash = [], hd_timestamp = 0, number = 1, author = ''v'',
     transactions_root = [2], hd_state_root = [], hd_receipts_root = []\<rparr>"

definition sample_block :: block where
  "sample_block = \<lparr>header = sample_header, transactions = [sample_tx], blk_state_root = [],
     blk_receipts_root = []\<rparr>"

text \<open>Libraries that can encode one header and one transaction, with the identity as hash.\<close>

definition sample_env :: "nat crypto_env" where
  "sample_env = \<lparr>
     ser_header = (\<lambda>h. if h = sample_header then Some [1] else None),
     ser_tx = (\<lambda>tx. if tx = sample_tx then Some [2] else None),
     ser_tx_body = (\<lambda>_. Some [3]),
     ser_message = (\<lambda>(_, s, _). Some (map of_char s)),
     blake3 = (\<lambda>xs. xs), default_hash = [],
     sign_with = (\<lambda>k bytes. of_nat k # bytes),
     verify_with = (\<lambda>k bytes sig. Ok (sig = of_nat k # bytes)),
     ser_error = InvalidKey\<rparr>"

lemma sample_block_verifies:
  "block_verify sample_env sample_block = Some True" "block_hash sample_env sample_block = Some [1]"
  by (simp_all add: block_verify_def block_hash_def sample_env_def sample_block_def
      compute_transactions_root_def sample_header_def tx_verify_def tx_hash_def sample_tx_def)

theorem block_hash_binds_transactions_witness:
  "block_verify sample_env (sample_block\<lparr>blk_state_root := [9], blk_receipts_root := [8]\<rparr>) = Some True"
proof -
  have one: "prefix_free (\<lambda>x. if x = a then Some bs else None)" for a :: 'z and bs
    by (simp add: prefix_free_def)
  have "prefix_free (ser_header sample_env)" "prefix_free (ser_tx sample_env)"
    using one by (simp_all add: sample_env_def)
  moreover have "\<forall>tx. ser_tx sample_env tx \<noteq> Some []" by (simp add: sample_env_def)
  moreover have "blake3 sample_env x = x" for x by (simp add: sample_env_def)
  ultimately show ?thesis
    using block_hash_binds_transactions [OF _ _ _ sample_block_verifies(1) sample_block_verifies(1)
        sample_block_verifies(2) sample_block_verifies(2), of "[8]" "[9]"] by simp
qed

theorem block_verify_any_signature_witness:
  "block_verify sample_env sample_block = Some True"
  using block_verify_any_signature [of sample_block sample_env "[2]"]
  by (simp add: sample_env_def sample_block_def sample_header_def sample_tx_def tx_hash_def
      compute_transactions_root_def)

theorem message_sign_verify_witness:
  "message_verify sample_env 7 (snd (message_sign sample_env 7 (message_new 0 Ping ''me''))) = Ok True"
proof -
  have sign: "message_sign sample_env 7 (message_new 0 Ping ''me'') =
      (Ok (), snd (message_sign sample_env 7 (message_new 0 Ping ''me'')))"
    by (simp add: message_sign_def sample_env_def message_new_def)
  have "verify_with sample_env 7 bytes (sign_with sample_env 7 bytes) = Ok True" for bytes
    by (simp add: sample_env_def)
  from message_sign_verify [OF this sign] show ?thesis by blast
qed

end
