(* ===== verification/Proof_System.thy ===== *)
theory Proof_System
  imports Lru_Cache Messages
begin

text \<open>
  Model of \<open>src/proof.rs\<close>: parameter generation, proving, verification and batch verification with a
  cache of the proofs made here. The proof scheme (\<open>bellman\<close>), the hash function and the bounded
  map (the \<open>lru\<close> crate) are libraries and fields of the record \<open>proof_env\<close>. The random number
  generator is an argument. The cache is looked up through a read guard, so a lookup does not change
  it.
\<close>

section \<open>Model\<close>

record ('c, 'r, 'par, 'vk, 'pf, 'f, 'e, 'cc) proof_env =
  generate_parameters :: "'c \<Rightarrow> 'r \<Rightarrow> ('e, 'par) outcome"
  params_vk :: "'par \<Rightarrow> 'vk"
  create_proof :: "'c \<Rightarrow> 'par \<Rightarrow> 'r \<Rightarrow> ('e, 'pf) outcome"
  check_proof :: "'vk \<Rightarrow> 'pf \<Rightarrow> 'f list \<Rightarrow> ('e, bool) outcome"
  proof_a :: "'pf \<Rightarrow> u8 list"
  proof_b :: "'pf \<Rightarrow> u8 list"
  proof_c :: "'pf \<Rightarrow> u8 list"
  input_bytes :: "'f \<Rightarrow> u8 list"
  blake2s :: "u8 list \<Rightarrow> digest"
  cache_new :: "usize \<Rightarrow> 'cc"
  cache_put :: "digest \<Rightarrow> 'pf \<Rightarrow> 'cc \<Rightarrow> 'cc"
  cache_find :: "digest \<Rightarrow> 'cc \<Rightarrow> 'pf option"

record ('par, 'vk, 'cc) proof_system =
  params :: 'par
  verifying_key :: 'vk
  proof_cache :: 'cc

record ('pf, 'f) proof_data =
  pd_proof :: 'pf
  public_inputs :: "'f list"
  pd_hash :: digest

definition setup_system ::
  "('c, 'r, 'par, 'vk, 'pf, 'f, 'e, 'cc) proof_env \<Rightarrow> 'c \<Rightarrow> 'r \<Rightarrow>
   ('e, ('par, 'vk, 'cc) proof_system) outcome" where
  "setup_system E c r =
     bind_outcome (generate_parameters E c r) (\<lambda>par.
       Ok \<lparr>params = par, verifying_key = params_vk E par, proof_cache = cache_new E 1000\<rparr>)"

definition collect_public_inputs :: "'pf \<Rightarrow> 'f list" where
  "collect_public_inputs pf = []"

definition hash_proof ::
  "('c, 'r, 'par, 'vk, 'pf, 'f, 'e, 'cc) proof_env \<Rightarrow> 'pf \<Rightarrow> 'f list \<Rightarrow> digest" where
  "hash_proof E pf xs =
     blake2s E (proof_a E pf @ proof_b E pf @ proof_c E pf @ concat (map (input_bytes E) xs))"

definition prove ::
  "('c, 'r, 'par, 'vk, 'pf, 'f, 'e, 'cc) proof_env \<Rightarrow> 'r \<Rightarrow> 'c \<Rightarrow>
   (('par, 'vk, 'cc) proof_system, 'e, ('pf, 'f) proof_data) comp" where
  "prove E r c =
     andthen (reads params) (\<lambda>par.
     andthen (lift_outcome (create_proof E c par r)) (\<lambda>pf.
       (let xs = collect_public_inputs pf; h = hash_proof E pf xs in
        andthen (updates (\<lambda>ps. ps\<lparr>proof_cache := cache_put E h pf (proof_cache ps)\<rparr>)) (\<lambda>_.
        ret \<lparr>pd_proof = pf, public_inputs = xs, pd_hash = h\<rparr>))))"

definition check_uncached ::
  "('c, 'r, 'par, 'vk, 'pf, 'f, 'e, 'cc) proof_env \<Rightarrow> ('par, 'vk, 'cc) proof_system \<Rightarrow>
   ('pf, 'f) proof_data \<Rightarrow> ('e, bool) outcome" where
  "check_uncached E ps d =
     bind_outcome (check_proof E (verifying_key ps) (pd_proof d) (public_inputs d)) (\<lambda>valid.
       (let h = hash_proof E (pd_proof d) (public_inputs d) in Ok (valid \<and> h = pd_hash d)))"

definition verify ::
  "('c, 'r, 'par, 'vk, 'pf, 'f, 'e, 'cc) proof_env \<Rightarrow> ('par, 'vk, 'cc) proof_system \<Rightarrow>
   ('pf, 'f) proof_data \<Rightarrow> ('e, bool) outcome" where
  "verify E ps d =
     (case cache_find E (pd_hash d) (proof_cache ps) of
        Some pf \<Rightarrow> if pf = pd_proof d then Ok True else check_uncached E ps d
      | None \<Rightarrow> check_uncached E ps d)"

text \<open>What one parallel task of \<open>batch_verify\<close> answers; a panic of the library ends the batch.\<close>

definition batch_item ::
  "('c, 'r, 'par, 'vk, 'pf, 'f, 'e, 'cc) proof_env \<Rightarrow> ('par, 'vk, 'cc) proof_system \<Rightarrow>
   ('pf, 'f) proof_data \<Rightarrow> ('e, bool) outcome" where
  "batch_item E ps d =
     (case cache_find E (pd_hash d) (proof_cache ps) of
        Some pf \<Rightarrow> Ok (pf = pd_proof d)
      | None \<Rightarrow>
          (case check_proof E (verifying_key ps) (pd_proof d) (public_inputs d) of
             Ok valid \<Rightarrow> Ok valid
           | Err _ \<Rightarrow> Ok False
           | Panic p \<Rightarrow> Panic p))"

definition batch_verify ::
  "('c, 'r, 'par, 'vk, 'pf, 'f, 'e, 'cc) proof_env \<Rightarrow> ('par, 'vk, 'cc) proof_system \<Rightarrow>
   ('pf, 'f) proof_data list \<Rightarrow> ('e, bool) outcome" where
  "batch_verify E ps ds =
     bind_outcome (collect_results (map (batch_item E ps) ds)) (\<lambda>xs. Ok (list_all (\<lambda>x. x) xs))"

subsection \<open>The builder\<close>

record proof_system_builder =
  cache_size :: "usize option"
  parallel_verification :: bool
  verification_batch_size :: "usize option"

definition builder_new :: proof_system_builder where
  "builder_new = \<lparr>cache_size = Some 1000, parallel_verification = True,
     verification_batch_size = Some 100\<rparr>"

definition with_cache_size :: "usize \<Rightarrow> proof_system_builder \<Rightarrow> proof_system_builder" where
  "with_cache_size n bld = bld\<lparr>cache_size := Some n\<rparr>"

definition with_parallel_verification :: "bool \<Rightarrow> proof_system_builder \<Rightarrow> proof_system_builder" where
  "with_parallel_verification x bld = bld\<lparr>parallel_verification := x\<rparr>"

definition with_verification_batch_size :: "usize \<Rightarrow> proof_system_builder \<Rightarrow> proof_system_builder" where
  "with_verification_batch_size n bld = bld\<lparr>verification_batch_size := Some n\<rparr>"

definition build_system ::
  "('c, 'r, 'par, 'vk, 'pf, 'f, 'e, 'cc) proof_env \<Rightarrow> 'c \<Rightarrow> 'r \<Rightarrow> proof_system_builder \<Rightarrow>
   ('e, ('par, 'vk, 'cc) proof_system) outcome" where
  "build_system E c r bld =
     bind_outcome (generate_parameters E c r) (\<lambda>par.
       Ok \<lparr>params = par, verifying_key = params_vk E par,
           proof_cache = cache_new E (case cache_size bld of None \<Rightarrow> 1000 | Some n \<Rightarrow> n)\<rparr>)"

section \<open>The cache as an interface\<close>

text \<open>
  What the proof system relies on: a lookup finds what was put last under the hash, and never
  anything that was not put. Entries may be dropped at any time.
\<close>

locale proof_store =
  fixes find :: "digest \<Rightarrow> 'cc \<Rightarrow> 'pf option"
    and put :: "digest \<Rightarrow> 'pf \<Rightarrow> 'cc \<Rightarrow> 'cc"
    and empty :: "usize \<Rightarrow> 'cc"
  assumes find_empty: "find h (empty n) = None"
    and find_put: "find h (put h pf c) = Some pf"
    and find_put_other: "h' \<noteq> h \<Longrightarrow> find h' (put h pf c) = Some pf' \<Longrightarrow> find h' c = Some pf'"
begin

definition holds_only :: "(digest \<Rightarrow> 'pf \<Rightarrow> bool) \<Rightarrow> 'cc \<Rightarrow> bool" where
  "holds_only P c \<longleftrightarrow> (\<forall>h pf. find h c = Some pf \<longrightarrow> P h pf)"

lemma holds_only_empty: "holds_only P (empty n)"
  by (simp add: holds_only_def find_empty)

lemma holds_only_put: "holds_only P c \<Longrightarrow> P h pf \<Longrightarrow> holds_only P (put h pf c)"
  unfolding holds_only_def by (metis find_put find_put_other option.inject)

end

text \<open>The cache of the memory manager keeps this contract as well.\<close>

interpretation lru_proofs: proof_store "\<lambda>h c. cached c h" lru_insert lru_new
proof
  fix h' h :: digest and pf pf' :: 'pf and c :: "(digest, 'pf) lru_cache"
  assume "h' \<noteq> h" "cached (lru_insert h pf c) h' = Some pf'"
  then show "cached c h' = Some pf'"
    by (auto simp: lru_insert_def Let_def evict_def split: if_splits option.splits)
qed (simp_all add: lru_new_def lru_insert_def Let_def)

abbreviation keeps_proofs :: "('c, 'r, 'par, 'vk, 'pf, 'f, 'e, 'cc) proof_env \<Rightarrow> bool" where
  "keeps_proofs E \<equiv> proof_store (cache_find E) (cache_put E) (cache_new E)"

section \<open>Reachable proof systems\<close>

inductive ps_reachable ::
  "('c, 'r, 'par, 'vk, 'pf, 'f, 'e, 'cc) proof_env \<Rightarrow> ('par, 'vk, 'cc) proof_system \<Rightarrow> bool"
  for E where
  ps_setup: "setup_system E c r = Ok ps \<Longrightarrow> ps_reachable E ps"
| ps_build: "build_system E c r bld = Ok ps \<Longrightarrow> ps_reachable E ps"
| ps_prove: "ps_reachable E ps \<Longrightarrow> prove E r c ps = (res, ps') \<Longrightarrow> ps_reachable E ps'"

text \<open>A proof made here, under the hash that \<open>prove\<close> gives it.\<close>

definition made_here ::
  "('c, 'r, 'par, 'vk, 'pf, 'f, 'e, 'cc) proof_env \<Rightarrow> 'par \<Rightarrow> digest \<Rightarrow> 'pf \<Rightarrow> bool" where
  "made_here E par h pf \<longleftrightarrow>
     (\<exists>c r. create_proof E c par r = Ok pf) \<and> h = hash_proof E pf []"

lemma made_hereI: "create_proof E c par r = Ok pf \<Longrightarrow> made_here E par (hash_proof E pf []) pf"
  by (auto simp: made_here_def)

lemma wp_prove:
  "wp (prove E r c) Q F G ps =
     (case create_proof E c (params ps) r of
        Ok pf \<Rightarrow> Q \<lparr>pd_proof = pf, public_inputs = [], pd_hash = hash_proof E pf []\<rparr>
           (ps\<lparr>proof_cache := cache_put E (hash_proof E pf []) pf (proof_cache ps)\<rparr>)
      | Err e \<Rightarrow> F e ps
      | Panic p \<Rightarrow> G p ps)"
  by (simp add: prove_def collect_public_inputs_def Let_def wp_simps split: outcome.split)

lemma ps_reachable_store:
  assumes "keeps_proofs E" and "ps_reachable E ps"
  shows "proof_store.holds_only (cache_find E) (made_here E (params ps)) (proof_cache ps) \<and>
    verifying_key ps = params_vk E (params ps)"
  using assms(2)
proof induction
  case (ps_setup c r ps)
  then show ?case
    by (auto simp: setup_system_def bind_outcome_eq_Ok proof_store.holds_only_empty [OF assms(1)])
next
  case (ps_build c r bld ps)
  then show ?case
    by (auto simp: build_system_def bind_outcome_eq_Ok proof_store.holds_only_empty [OF assms(1)])
next
  case (ps_prove ps r c res ps')
  let ?I = "\<lambda>ps'. proof_store.holds_only (cache_find E) (made_here E (params ps')) (proof_cache ps') \<and>
    verifying_key ps' = params_vk E (params ps')"
  have "wp (prove E r c) (\<lambda>_. ?I) (\<lambda>_. ?I) (\<lambda>_. ?I) ps"
    using ps_prove(3)
    by (auto simp: wp_prove split: outcome.split intro!: proof_store.holds_only_put [OF assms(1)] made_hereI)
  from wp_all [OF this ps_prove(2)] show ?case .
qed

section \<open>Properties\<close>

text \<open>C24: What acceptance means. Whatever proofs were made before, \<open>verify\<close> answers \<open>true\<close> exactly if
  the proof itself is cached under the given hash, or the proof scheme accepts it for the given
  public inputs and the hash is the right one. Every cached proof was made by this very system, and
  the scheme is asked with the key of the system's own parameters.\<close>

theorem verification_acceptance:
  assumes "keeps_proofs E" and "ps_reachable E ps"
  shows "(verify E ps d = Ok True \<longleftrightarrow>
      cache_find E (pd_hash d) (proof_cache ps) = Some (pd_proof d) \<or>
      check_proof E (params_vk E (params ps)) (pd_proof d) (public_inputs d) = Ok True \<and>
        pd_hash d = hash_proof E (pd_proof d) (public_inputs d)) \<and>
    (cache_find E (pd_hash d) (proof_cache ps) = Some (pd_proof d) \<longrightarrow>
      made_here E (params ps) (pd_hash d) (pd_proof d))"
  using ps_reachable_store [OF assms]
  by (auto simp: verify_def check_uncached_def Let_def bind_outcome_eq_Ok
      proof_store.holds_only_def [OF assms(1)] split: option.split)

text \<open>A proof that was just made verifies, alone and in a batch, without the proof scheme being
  asked. That is so whatever public inputs are claimed for it: a tampered copy verifies like the
  original, whose public inputs are always empty.\<close>

theorem proved_data_verifies:
  assumes "keeps_proofs E" and "prove E r c ps = (Ok d, ps')"
  shows "public_inputs d = [] \<and> pd_hash d = hash_proof E (pd_proof d) [] \<and>
    verify E ps' (d\<lparr>public_inputs := xs\<rparr>) = Ok True \<and>
    batch_verify E ps' [d, d\<lparr>public_inputs := xs\<rparr>] = Ok True"
proof -
  have "wp (prove E r c) (\<lambda>d ps'. public_inputs d = [] \<and> pd_hash d = hash_proof E (pd_proof d) [] \<and>
      cache_find E (pd_hash d) (proof_cache ps') = Some (pd_proof d)) (\<lambda>_ _. True) (\<lambda>_ _. True) ps"
    by (simp add: wp_prove proof_store.find_put [OF assms(1)] split: outcome.split)
  from wp_Ok [OF this assms(2)] show ?thesis
    by (cases d) (simp add: verify_def batch_verify_def batch_item_def)
qed

lemma collect_results_Ok: "collect_results (map (\<lambda>d. Ok (f d)) ds) = Ok (map f ds)"
  by (induction ds) simp_all

text \<open>The two cases in which a batch judges differently: another proof is cached under the hash, which the
  single check ignores; and a hash that is not that of the proof, at which only the single check looks.\<close>

definition displaced ::
  "('c, 'r, 'par, 'vk, 'pf, 'f, 'e, 'cc) proof_env \<Rightarrow> ('par, 'vk, 'cc) proof_system \<Rightarrow>
   ('pf, 'f) proof_data \<Rightarrow> bool" where
  "displaced E ps d \<longleftrightarrow> (\<exists>pf. cache_find E (pd_hash d) (proof_cache ps) = Some pf \<and> pf \<noteq> pd_proof d)"

definition misnamed ::
  "('c, 'r, 'par, 'vk, 'pf, 'f, 'e, 'cc) proof_env \<Rightarrow> ('par, 'vk, 'cc) proof_system \<Rightarrow>
   ('pf, 'f) proof_data \<Rightarrow> bool" where
  "misnamed E ps d \<longleftrightarrow> cache_find E (pd_hash d) (proof_cache ps) = None \<and>
     check_proof E (verifying_key ps) (pd_proof d) (public_inputs d) = Ok True \<and>
     pd_hash d \<noteq> hash_proof E (pd_proof d) (public_inputs d)"

lemma batch_item_outcome:
  assumes "\<forall>p. check_proof E (verifying_key ps) (pd_proof d) (public_inputs d) \<noteq> Panic p"
  shows "batch_item E ps d = Ok (verify E ps d = Ok True \<and> \<not> displaced E ps d \<or> misnamed E ps d)"
  using assms
  by (auto simp: batch_item_def verify_def check_uncached_def displaced_def misnamed_def Let_def
      bind_outcome_eq_Ok split: option.split outcome.split)

lemma batch_verify_outcome:
  assumes "\<forall>d \<in> set ds. \<forall>p. check_proof E (verifying_key ps) (pd_proof d) (public_inputs d) \<noteq> Panic p"
  shows "batch_verify E ps ds =
    Ok (list_all (\<lambda>d. verify E ps d = Ok True \<and> \<not> displaced E ps d \<or> misnamed E ps d) ds)"
proof -
  have "map (batch_item E ps) ds =
      map (\<lambda>d. Ok (verify E ps d = Ok True \<and> \<not> displaced E ps d \<or> misnamed E ps d)) ds"
    using assms by (intro map_cong batch_item_outcome) auto
  then have "collect_results (map (batch_item E ps) ds) =
      Ok (map (\<lambda>d. verify E ps d = Ok True \<and> \<not> displaced E ps d \<or> misnamed E ps d) ds)"
    by (simp only: collect_results_Ok)
  then show ?thesis by (simp add: batch_verify_def list_all_iff)
qed

text \<open>C23: Unless the proof scheme panics, a batch answers, and never with an error: it is accepted exactly
  if each of its members is accepted alone and no other proof is cached under its hash, or its hash is
  wrong, nothing is cached under it, and the scheme accepts the proof. So a batch agrees with the
  single checks if its members have neither of the two defects; and a member alone in a batch is judged
  differently from the single check exactly if it is accepted and displaced, or misnamed.\<close>

theorem batch_equals_single:
  assumes "\<forall>d \<in> set ds. \<forall>p. check_proof E (verifying_key ps) (pd_proof d) (public_inputs d) \<noteq> Panic p"
  shows "batch_verify E ps ds =
      Ok (list_all (\<lambda>d. verify E ps d = Ok True \<and> \<not> displaced E ps d \<or> misnamed E ps d) ds) \<and>
    (list_all (\<lambda>d. \<not> displaced E ps d \<and> \<not> misnamed E ps d) ds \<longrightarrow>
      batch_verify E ps ds = Ok (list_all (\<lambda>d. verify E ps d = Ok True) ds)) \<and>
    (\<forall>d \<in> set ds. batch_verify E ps [d] \<noteq> Ok (verify E ps d = Ok True) \<longleftrightarrow>
      verify E ps d = Ok True \<and> displaced E ps d \<or> misnamed E ps d)"
proof -
  have "\<not> (verify E ps d = Ok True \<and> misnamed E ps d)" for d
    by (auto simp: verify_def misnamed_def check_uncached_def Let_def bind_outcome_eq_Ok split: option.splits)
  moreover have "batch_verify E ps [d] = Ok (verify E ps d = Ok True \<and> \<not> displaced E ps d \<or> misnamed E ps d)"
    if "d \<in> set ds" for d
    using batch_verify_outcome [of "[d]" E ps] assms that by simp
  ultimately show ?thesis
    using batch_verify_outcome [OF assms] by (auto simp: list_all_iff)
qed

text \<open>A builder as \<open>new\<close> makes it builds what \<open>setup\<close> does. Of its options only the size of the
  cache has an effect: parallel verification and its batch size are ignored.\<close>

theorem builder_options:
  "build_system E c r builder_new = setup_system E c r \<and>
   build_system E c r (with_parallel_verification x bld) = build_system E c r bld \<and>
   build_system E c r (with_verification_batch_size n bld) = build_system E c r bld \<and>
   build_system E c r (with_cache_size 1000 bld) = setup_system E c r"
  by (simp add: build_system_def setup_system_def builder_new_def with_parallel_verification_def
      with_verification_batch_size_def with_cache_size_def)

section \<open>Witnesses\<close>

text \<open>A scheme over a single statement: the circuit says whether it is satisfied, the one valid proof
  is 7 and has no public input.\<close>

definition sample_env ::
  "(bool, unit, unit, unit, u8, u8, unit, (digest, u8) lru_cache) proof_env" where
  "sample_env =
     \<lparr>generate_parameters = (\<lambda>_ _. Ok ()), params_vk = (\<lambda>_. ()),
      create_proof = (\<lambda>c _ _. if c then Ok 7 else Err ()),
      check_proof = (\<lambda>_ pf xs. Ok (pf = 7 \<and> xs = [])),
      proof_a = (\<lambda>pf. [pf]), proof_b = (\<lambda>_. []), proof_c = (\<lambda>_. []),
      input_bytes = (\<lambda>x. [x]), blake2s = (\<lambda>xs. xs),
      cache_new = lru_new, cache_put = lru_insert, cache_find = (\<lambda>h c. cached c h)\<rparr>"

lemma sample_keeps: "keeps_proofs sample_env"
  using lru_proofs.proof_store_axioms by (simp add: sample_env_def)

definition sample_system :: "(unit, unit, (digest, u8) lru_cache) proof_system" where
  "sample_system = \<lparr>params = (), verifying_key = (), proof_cache = lru_new 1000\<rparr>"

lemma sample_setup: "setup_system sample_env c r = Ok sample_system"
  by (simp add: setup_system_def sample_env_def sample_system_def)

definition sample_data :: "(u8, u8) proof_data" where
  "sample_data = \<lparr>pd_proof = 7, public_inputs = [], pd_hash = [7]\<rparr>"

lemma sample_prove:
  "\<exists>ps'. prove sample_env () True sample_system = (Ok sample_data, ps') \<and> ps_reachable sample_env ps' \<and>
     cache_find sample_env [7] (proof_cache ps') = Some 7"
proof -
  obtain res ps' where res: "prove sample_env () True sample_system = (res, ps')" by fastforce
  have "ps_reachable sample_env sample_system" using sample_setup by (rule ps_setup)
  from ps_prove [OF this res] have "ps_reachable sample_env ps'" .
  moreover have "wp (prove sample_env () True)
      (\<lambda>d ps'. d = sample_data \<and> cache_find sample_env [7] (proof_cache ps') = Some 7)
      (\<lambda>_ _. False) (\<lambda>_ _. False) sample_system"
    by (simp add: wp_prove) (simp add: sample_env_def sample_data_def hash_proof_def lru_insert_def Let_def)
  ultimately show ?thesis using res by (auto simp: wp_def split: outcome.splits)
qed

theorem verification_acceptance_witness:
  "\<exists>ps. cache_find sample_env [7] (proof_cache ps) = Some 7 \<and>
     verify sample_env ps (sample_data\<lparr>public_inputs := [1]\<rparr>) = Ok True \<and>
     verify sample_env ps (sample_data\<lparr>pd_proof := 8\<rparr>) \<noteq> Ok True"
proof -
  obtain ps where ps: "ps_reachable sample_env ps"
      and found: "cache_find sample_env [7] (proof_cache ps) = Some 7"
    using sample_prove by blast
  note * = verification_acceptance [OF sample_keeps ps]
  show ?thesis
    using found * [of "sample_data\<lparr>public_inputs := [1]\<rparr>"] * [of "sample_data\<lparr>pd_proof := 8\<rparr>"]
    by (intro exI [of _ ps]) (simp add: sample_data_def, simp add: sample_env_def)
qed

theorem proved_data_verifies_witness:
  "\<exists>ps. verify sample_env ps (sample_data\<lparr>public_inputs := [1, 2]\<rparr>) = Ok True"
  using sample_prove proved_data_verifies [OF sample_keeps, of "()" True sample_system sample_data] by blast

text \<open>A proof with a wrong hash passes in a batch and fails alone; a proof whose hash is taken by another
  proof in the cache fails in a batch and passes alone; and a plain proof passes both.\<close>

definition crowded_system :: "(unit, unit, (digest, u8) lru_cache) proof_system" where
  "crowded_system = sample_system\<lparr>proof_cache := lru_insert [7] 9 (lru_new 1000)\<rparr>"

theorem batch_equals_single_witness:
  "batch_verify sample_env sample_system [sample_data, sample_data] = Ok True \<and>
   batch_verify sample_env sample_system [sample_data\<lparr>pd_hash := [8]\<rparr>] = Ok True \<and>
   verify sample_env sample_system (sample_data\<lparr>pd_hash := [8]\<rparr>) = Ok False \<and>
   batch_verify sample_env crowded_system [sample_data, sample_data] = Ok False \<and>
   verify sample_env crowded_system sample_data = Ok True"
proof -
  have alone: "verify sample_env sample_system (sample_data\<lparr>pd_hash := [8]\<rparr>) = Ok False"
    "verify sample_env crowded_system sample_data = Ok True" "verify sample_env sample_system sample_data = Ok True"
    by (simp_all add: verify_def check_uncached_def sample_env_def sample_system_def crowded_system_def
        sample_data_def hash_proof_def lru_new_def lru_insert_def evict_def vec_pop_def Let_def)
  have defects: "\<not> displaced sample_env sample_system sample_data" "displaced sample_env crowded_system sample_data"
    "misnamed sample_env sample_system (sample_data\<lparr>pd_hash := [8]\<rparr>)"
    "\<not> misnamed sample_env crowded_system sample_data"
    by (simp_all add: displaced_def misnamed_def sample_env_def sample_system_def crowded_system_def
        sample_data_def hash_proof_def lru_new_def lru_insert_def Let_def)
  have "check_proof sample_env vk pf xs \<noteq> Panic p" for vk pf xs p by (simp add: sample_env_def)
  then have * : "\<forall>d \<in> set ds. \<forall>p. check_proof sample_env (verifying_key ps) (pd_proof d) (public_inputs d) \<noteq> Panic p"
    for ds ps by blast
  show ?thesis
    using batch_equals_single [of "[sample_data, sample_data]" sample_env sample_system, OF *]
      batch_equals_single [of "[sample_data\<lparr>pd_hash := [8]\<rparr>]" sample_env sample_system, OF *]
      batch_equals_single [of "[sample_data, sample_data]" sample_env crowded_system, OF *] alone defects
    by simp
qed

end
