(* ===== verification/Circuit.thy ===== *)
theory Circuit
  imports Rust_Prelude
begin

text \<open>
  Model of \<open>src/circuit.rs\<close>: how \<open>VMCircuit\<close> turns a program and a pair of machine states into
  variables and constraints, and what the constraints say.

  The constraint system is \<open>bellman\<close>'s and a parameter here: the operations \<open>synthesize\<close> calls are
  the fields of the record \<open>constraint_system\<close>, and the locale \<open>prover\<close> states what the prover's
  implementation of them does. A closure passed to \<open>alloc\<close> is the outcome it has when it is called;
  it may be called or not. A linear combination \<open>lc + v\<close> is the list of its variables. Annotations
  and name spaces are labels for tests and have no counterpart.
\<close>

section \<open>Model\<close>

datatype synthesis_error = AssignmentMissing | OtherSynthesisError

record ('s, 'v, 'f) constraint_system =
  cs_alloc :: "(synthesis_error, 'f) outcome \<Rightarrow> ('s, synthesis_error, 'v) comp"
  cs_enforce :: "'v list \<Rightarrow> 'v list \<Rightarrow> 'v list \<Rightarrow> 's \<Rightarrow> 's"
  cs_one :: 'v

text \<open>The conversions of the field: \<open>From<u64>\<close>, \<open>to_repr\<close> and \<open>from_repr\<close>.\<close>

record 'f field_ops =
  from_u64 :: "u64 \<Rightarrow> 'f"
  to_repr :: "'f \<Rightarrow> u8 list"
  from_repr :: "u8 list \<Rightarrow> 'f option"

record 'f circuit_state =
  st_stack :: "'f list"
  st_memory :: "'f list"
  st_storage :: "('f \<times> 'f) list"
  st_pc :: 'f
  st_gas :: 'f

record 'f vm_circuit =
  initial_state :: "'f circuit_state option"
  final_state :: "'f circuit_state option"
  circuit_program :: "u8 list"
  max_steps :: usize

record 'v allocated_state =
  al_stack :: "'v list"
  al_memory :: "'v list"
  al_storage :: "('v \<times> 'v) list"
  al_pc :: 'v
  al_gas :: 'v

definition vm_circuit_new :: "u8 list \<Rightarrow> usize \<Rightarrow> 'f vm_circuit" where
  "vm_circuit_new prog n =
     \<lparr>initial_state = None, final_state = None, circuit_program = prog, max_steps = n\<rparr>"

definition with_witness ::
  "u8 list \<Rightarrow> usize \<Rightarrow> 'f circuit_state \<Rightarrow> 'f circuit_state \<Rightarrow> 'f vm_circuit" where
  "with_witness prog n s s' =
     \<lparr>initial_state = Some s, final_state = Some s', circuit_program = prog, max_steps = n\<rparr>"

lemma with_witness_sel [simp]:
  "initial_state (with_witness prog n s s') = Some s" "final_state (with_witness prog n s s') = Some s'"
  "circuit_program (with_witness prog n s s') = prog" "max_steps (with_witness prog n s s') = n"
  by (simp_all add: with_witness_def)

subsection \<open>Allocation of a state\<close>

fun alloc_values ::
  "('s, 'v, 'f) constraint_system \<Rightarrow> 'f list \<Rightarrow> ('s, synthesis_error, 'v list) comp" where
  "alloc_values cs [] = ret []"
| "alloc_values cs (x # xs) =
     andthen (cs_alloc cs (Ok x)) (\<lambda>v.
     andthen (alloc_values cs xs) (\<lambda>vs. ret (v # vs)))"

fun alloc_storage ::
  "('s, 'v, 'f) constraint_system \<Rightarrow> ('f \<times> 'f) list \<Rightarrow> ('s, synthesis_error, ('v \<times> 'v) list) comp"
where
  "alloc_storage cs [] = ret []"
| "alloc_storage cs ((k, x) # kxs) =
     andthen (cs_alloc cs (Ok k)) (\<lambda>vk.
     andthen (cs_alloc cs (Ok x)) (\<lambda>vx.
     andthen (alloc_storage cs kxs) (\<lambda>vs. ret ((vk, vx) # vs))))"

text \<open>\<open>state.as_ref().map(f).ok_or(AssignmentMissing)\<close>\<close>

definition assigned :: "('a \<Rightarrow> 'f) \<Rightarrow> 'a option \<Rightarrow> (synthesis_error, 'f) outcome" where
  "assigned f st = (case st of None \<Rightarrow> Err AssignmentMissing | Some s \<Rightarrow> Ok (f s))"

definition alloc_state ::
  "('s, 'v, 'f) constraint_system \<Rightarrow> 'f circuit_state option \<Rightarrow>
   ('s, synthesis_error, 'v allocated_state) comp" where
  "alloc_state cs st =
     andthen (case st of Some s \<Rightarrow> alloc_values cs (st_stack s) | None \<Rightarrow> ret []) (\<lambda>stk.
     andthen (case st of Some s \<Rightarrow> alloc_values cs (st_memory s) | None \<Rightarrow> ret []) (\<lambda>mem.
     andthen (case st of Some s \<Rightarrow> alloc_storage cs (st_storage s) | None \<Rightarrow> ret []) (\<lambda>sto.
     andthen (cs_alloc cs (assigned st_pc st)) (\<lambda>pc.
     andthen (cs_alloc cs (assigned st_gas st)) (\<lambda>gas.
     ret \<lparr>al_stack = stk, al_memory = mem, al_storage = sto, al_pc = pc, al_gas = gas\<rparr>)))))"

subsection \<open>One step\<close>

definition byte_at :: "u8 list \<Rightarrow> nat \<Rightarrow> (synthesis_error, u8) outcome" where
  "byte_at xs i = (case index xs i of None \<Rightarrow> Panic IndexOutOfBounds | Some x \<Rightarrow> Ok x)"

text \<open>\<open>stack.len() - k\<close> on \<open>usize\<close>, which panics in a debug build where it would wrap, and
  \<open>stack[stack.len() - k]\<close>.\<close>

definition len_minus :: "build \<Rightarrow> nat \<Rightarrow> nat \<Rightarrow> nat option" where
  "len_minus b n k =
     (if k \<le> n then Some (n - k) else if b = Debug then None else Some (n + 2 ^ 64 - k))"

definition from_top :: "build \<Rightarrow> 'f list \<Rightarrow> nat \<Rightarrow> (synthesis_error, 'f) outcome" where
  "from_top b xs k =
     (case len_minus b (length xs) k of
        None \<Rightarrow> Panic ArithmeticOverflow
      | Some i \<Rightarrow> (case index xs i of None \<Rightarrow> Panic IndexOutOfBounds | Some x \<Rightarrow> Ok x))"

text \<open>A wrapped index lies beyond every list, so a short stack panics in both builds.\<close>

definition wrap_panic :: "build \<Rightarrow> panic" where
  "wrap_panic b = (if b = Debug then ArithmeticOverflow else IndexOutOfBounds)"

lemma from_top_eq:
  "0 < k \<Longrightarrow> k \<le> 2 ^ 64 \<Longrightarrow>
   from_top b xs k = (if length xs < k then Panic (wrap_panic b) else Ok (xs ! (length xs - k)))"
  by (cases b) (auto simp: from_top_def len_minus_def index_def wrap_panic_def)

lemma from_top_cases:
  "from_top b xs (Suc 0) = (if xs = [] then Panic (wrap_panic b) else Ok (xs ! (length xs - 1)))"
  "from_top b xs 2 = (if length xs < 2 then Panic (wrap_panic b) else Ok (xs ! (length xs - 2)))"
  by (simp_all add: from_top_eq)

text \<open>The opcode variable's value is the program byte at the initial program counter, in every step.\<close>

definition step_opcode ::
  "'f field_ops \<Rightarrow> 'f vm_circuit \<Rightarrow> ('s, synthesis_error, 'f option) comp" where
  "step_opcode fld circ =
     (case initial_state circ of
        None \<Rightarrow> ret None
      | Some st \<Rightarrow>
          andthen (lift_outcome (byte_at (to_repr fld (st_pc st)) 0)) (\<lambda>pc.
          ret (if unat pc < length (circuit_program circ)
               then Some (from_u64 fld (ucast (circuit_program circ ! unat pc))) else None)))"

definition push_value ::
  "'f field_ops \<Rightarrow> 'f vm_circuit \<Rightarrow> nat \<Rightarrow> (synthesis_error, 'f) outcome" where
  "push_value fld circ step =
     (case initial_state circ of
        None \<Rightarrow> Err AssignmentMissing
      | Some _ \<Rightarrow> bind_outcome (byte_at (circuit_program circ) (step + 1)) (\<lambda>x.
          Ok (from_u64 fld (ucast x))))"

definition binary_value ::
  "build \<Rightarrow> ('f \<Rightarrow> 'f \<Rightarrow> 'f) \<Rightarrow> 'f vm_circuit \<Rightarrow> (synthesis_error, 'f) outcome" where
  "binary_value b f circ =
     (case initial_state circ of
        None \<Rightarrow> Err AssignmentMissing
      | Some st \<Rightarrow>
          bind_outcome (from_top b (st_stack st) 1) (\<lambda>x.
          bind_outcome (from_top b (st_stack st) 2) (\<lambda>y. Ok (f x y))))"

definition push_var :: "'v \<Rightarrow> 'v allocated_state \<Rightarrow> 'v allocated_state" where
  "push_var v cur = cur\<lparr>al_stack := al_stack cur @ [v]\<rparr>"

text \<open>Guarded by \<open>stack.len() >= 2\<close>: the two popped variables, the top first.\<close>

definition pop_two :: "'v allocated_state \<Rightarrow> ('v \<times> 'v \<times> 'v allocated_state) option" where
  "pop_two cur =
     (case vec_pop (al_stack cur) of
        None \<Rightarrow> None
      | Some (x, xs) \<Rightarrow>
          (case vec_pop xs of None \<Rightarrow> None | Some (y, ys) \<Rightarrow> Some (x, y, cur\<lparr>al_stack := ys\<rparr>)))"

definition synth_push ::
  "('s, 'v, 'f) constraint_system \<Rightarrow> 'f field_ops \<Rightarrow> 'f vm_circuit \<Rightarrow> 'v allocated_state \<Rightarrow> nat \<Rightarrow>
   'v allocated_state \<Rightarrow> ('s, synthesis_error, 'v allocated_state) comp" where
  "synth_push cs fld circ fin step cur =
     andthen (cs_alloc cs (push_value fld circ step)) (\<lambda>v.
     andthen (updates (cs_enforce cs [al_pc cur] [cs_one cs] [al_pc fin])) (\<lambda>_.
     ret (push_var v cur)))"

definition synth_binary ::
  "build \<Rightarrow> ('f \<Rightarrow> 'f \<Rightarrow> 'f) \<Rightarrow> ('s, 'v, 'f) constraint_system \<Rightarrow> 'f vm_circuit \<Rightarrow>
   'v allocated_state \<Rightarrow> ('s, synthesis_error, 'v allocated_state) comp" where
  "synth_binary b f cs circ cur =
     (case pop_two cur of
        None \<Rightarrow> ret cur
      | Some (x, y, cur') \<Rightarrow>
          andthen (cs_alloc cs (binary_value b f circ)) (\<lambda>r.
          andthen (updates (cs_enforce cs [x] [y] [r])) (\<lambda>_.
          ret (push_var r cur'))))"

function extend_memory ::
  "('s, 'v, 'f :: zero) constraint_system \<Rightarrow> nat \<Rightarrow> 'v list \<Rightarrow> ('s, synthesis_error, 'v list) comp"
where
  "extend_memory cs step mem =
     (if length mem \<le> step
      then andthen (cs_alloc cs (Ok 0)) (\<lambda>z. extend_memory cs step (mem @ [z]))
      else ret mem)"
  by pat_completeness auto
termination
  by (relation "measure (\<lambda>(_, step, mem). Suc step - length mem)") auto

declare extend_memory.simps [simp del]

definition synth_store ::
  "('s, 'v, 'f :: zero) constraint_system \<Rightarrow> nat \<Rightarrow> 'v allocated_state \<Rightarrow>
   ('s, synthesis_error, 'v allocated_state) comp" where
  "synth_store cs step cur =
     (case pop_two cur of
        None \<Rightarrow> ret cur
      | Some (x, addr, cur') \<Rightarrow>
          andthen (extend_memory cs step (al_memory cur')) (\<lambda>mem.
          andthen (updates (cs_enforce cs [addr] [cs_one cs] [x])) (\<lambda>_.
          ret (cur'\<lparr>al_memory := mem[step := x]\<rparr>))))"

text \<open>The bytes \<open>SHA3\<close> hashes: the memory range is read from the initial state, and only the first
  byte of each bound's representation is used.\<close>

definition sha3_input ::
  "build \<Rightarrow> ('f :: plus) field_ops \<Rightarrow> 'f vm_circuit \<Rightarrow> (synthesis_error, u8 list) outcome" where
  "sha3_input b fld circ =
     (case initial_state circ of
        None \<Rightarrow> Ok []
      | Some st \<Rightarrow>
          bind_outcome (from_top b (st_stack st) 2) (\<lambda>off.
          bind_outcome (from_top b (st_stack st) 1) (\<lambda>sz.
          bind_outcome (byte_at (to_repr fld off) 0) (\<lambda>lo.
          bind_outcome (byte_at (to_repr fld (off + sz)) 0) (\<lambda>hi.
          case vec_slice (st_memory st) (ucast lo) (ucast hi) of
            None \<Rightarrow> Panic IndexOutOfBounds
          | Some xs \<Rightarrow> Ok (concat (map (to_repr fld) xs)))))))"

definition sha3_value ::
  "(u8 list \<Rightarrow> u8 list) \<Rightarrow> ('f :: zero) field_ops \<Rightarrow> 'f vm_circuit \<Rightarrow> u8 list \<Rightarrow>
   (synthesis_error, 'f) outcome" where
  "sha3_value H fld circ input =
     (case initial_state circ of
        None \<Rightarrow> Err AssignmentMissing
      | Some _ \<Rightarrow> Ok (case from_repr fld (take 32 (H input)) of None \<Rightarrow> 0 | Some x \<Rightarrow> x))"

definition synth_sha3 ::
  "build \<Rightarrow> (u8 list \<Rightarrow> u8 list) \<Rightarrow> ('s, 'v, 'f :: comm_ring_1) constraint_system \<Rightarrow> 'f field_ops \<Rightarrow>
   'f vm_circuit \<Rightarrow> 'v allocated_state \<Rightarrow> ('s, synthesis_error, 'v allocated_state) comp" where
  "synth_sha3 b H cs fld circ cur =
     (case pop_two cur of
        None \<Rightarrow> ret cur
      | Some (_, _, cur') \<Rightarrow>
          andthen (lift_outcome (sha3_input b fld circ)) (\<lambda>input.
          andthen (cs_alloc cs (sha3_value H fld circ input)) (\<lambda>h.
          ret (push_var h cur'))))"

text \<open>The step looks at the program byte whose index is the number of the step.\<close>

definition synth_transition ::
  "build \<Rightarrow> (u8 list \<Rightarrow> u8 list) \<Rightarrow> ('s, 'v, 'f :: comm_ring_1) constraint_system \<Rightarrow> 'f field_ops \<Rightarrow>
   'f vm_circuit \<Rightarrow> 'v allocated_state \<Rightarrow> nat \<Rightarrow> 'v allocated_state \<Rightarrow>
   ('s, synthesis_error, 'v allocated_state) comp" where
  "synth_transition b H cs fld circ fin step cur =
     (case index (circuit_program circ) step of
        None \<Rightarrow> ret cur
      | Some opc \<Rightarrow>
          if opc = 0x01 then synth_push cs fld circ fin step cur
          else if opc = 0x02 then synth_binary b (+) cs circ cur
          else if opc = 0x03 then synth_binary b (*) cs circ cur
          else if opc = 0x04 then synth_store cs step cur
          else if opc = 0x0E then synth_sha3 b H cs fld circ cur
          else ret cur)"

definition synth_step ::
  "build \<Rightarrow> (u8 list \<Rightarrow> u8 list) \<Rightarrow> ('s, 'v, 'f :: comm_ring_1) constraint_system \<Rightarrow> 'f field_ops \<Rightarrow>
   'f vm_circuit \<Rightarrow> 'v allocated_state \<Rightarrow> nat \<Rightarrow> 'v allocated_state \<Rightarrow>
   ('s, synthesis_error, 'v allocated_state) comp" where
  "synth_step b H cs fld circ fin step cur =
     andthen (step_opcode fld circ) (\<lambda>opcode.
     andthen (cs_alloc cs (case opcode of None \<Rightarrow> Err AssignmentMissing | Some x \<Rightarrow> Ok x)) (\<lambda>_.
     synth_transition b H cs fld circ fin step cur))"

fun synth_steps ::
  "build \<Rightarrow> (u8 list \<Rightarrow> u8 list) \<Rightarrow> ('s, 'v, 'f :: comm_ring_1) constraint_system \<Rightarrow> 'f field_ops \<Rightarrow>
   'f vm_circuit \<Rightarrow> 'v allocated_state \<Rightarrow> nat list \<Rightarrow> 'v allocated_state \<Rightarrow>
   ('s, synthesis_error, 'v allocated_state) comp" where
  "synth_steps b H cs fld circ fin [] cur = ret cur"
| "synth_steps b H cs fld circ fin (k # ks) cur =
     andthen (synth_step b H cs fld circ fin k cur) (synth_steps b H cs fld circ fin ks)"

subsection \<open>The whole circuit\<close>

definition enforce_equal :: "('s, 'v, 'f) constraint_system \<Rightarrow> 'v \<times> 'v \<Rightarrow> 's \<Rightarrow> 's" where
  "enforce_equal cs p = cs_enforce cs [fst p] [cs_one cs] [snd p]"

definition storage_pairs :: "('v \<times> 'v) list \<Rightarrow> ('v \<times> 'v) list \<Rightarrow> ('v \<times> 'v) list" where
  "storage_pairs xs ys = concat (map (\<lambda>((k, x), (k', x')). [(k, k'), (x, x')]) (zip xs ys))"

definition final_pairs :: "'v allocated_state \<Rightarrow> 'v allocated_state \<Rightarrow> ('v \<times> 'v) list" where
  "final_pairs cur fin =
     [(al_pc cur, al_pc fin), (al_gas cur, al_gas fin)] @
     zip (al_stack cur) (al_stack fin) @ zip (al_memory cur) (al_memory fin) @
     storage_pairs (al_storage cur) (al_storage fin)"

definition synthesize ::
  "build \<Rightarrow> (u8 list \<Rightarrow> u8 list) \<Rightarrow> ('s, 'v, 'f :: comm_ring_1) constraint_system \<Rightarrow> 'f field_ops \<Rightarrow>
   'f vm_circuit \<Rightarrow> ('s, synthesis_error, unit) comp" where
  "synthesize b H cs fld circ =
     andthen (alloc_state cs (initial_state circ)) (\<lambda>ini.
     andthen (alloc_state cs (final_state circ)) (\<lambda>fin.
     andthen (synth_steps b H cs fld circ fin [0..<unat (max_steps circ)] ini) (\<lambda>cur.
     updates (fold (enforce_equal cs) (final_pairs cur fin)))))"

section \<open>What a prover's constraint system does\<close>

text \<open>
  A variable stands for the value its closure returned; an error or a panic of the closure is the
  result of \<open>alloc\<close>; \<open>enforce\<close> records the constraint. \<open>asg\<close> reads the values given so far, \<open>cons\<close> the
  constraints.
\<close>

type_synonym 'v r1cs = "'v list \<times> 'v list \<times> 'v list"

locale prover =
  fixes cs :: "('s, 'v, 'f :: comm_ring_1) constraint_system"
    and asg :: "'s \<Rightarrow> 'v \<Rightarrow> 'f option"
    and cons :: "'s \<Rightarrow> 'v r1cs list"
  assumes one_value: "asg s (cs_one cs) = Some 1"
    and alloc_value: "\<exists>v s'. cs_alloc cs (Ok x) s = (Ok v, s') \<and> asg s v = None \<and>
      asg s' = (asg s)(v \<mapsto> x) \<and> cons s' = cons s"
    and alloc_error: "fst (cs_alloc cs (Err e) s) = Err e"
    and alloc_panic: "fst (cs_alloc cs (Panic p) s) = Panic p"
    and enforce_asg: "asg (cs_enforce cs a b c s) = asg s"
    and enforce_cons: "cons (cs_enforce cs a b c s) = cons s @ [(a, b, c)]"

text \<open>A constraint \<open>(a, b, c)\<close> demands that the product of the sums of \<open>a\<close> and \<open>b\<close> is the sum of \<open>c\<close>.\<close>

definition lc_value :: "('v \<Rightarrow> 'f :: comm_ring_1 option) \<Rightarrow> 'v list \<Rightarrow> 'f" where
  "lc_value m vs = sum_list (map (\<lambda>v. the (m v)) vs)"

definition constraint_holds :: "('v \<Rightarrow> 'f :: comm_ring_1 option) \<Rightarrow> 'v r1cs \<Rightarrow> bool" where
  "constraint_holds m = (\<lambda>(a, b, c). lc_value m a * lc_value m b = lc_value m c)"

definition constraints_hold :: "('v \<Rightarrow> 'f :: comm_ring_1 option) \<Rightarrow> 'v r1cs list \<Rightarrow> bool" where
  "constraints_hold m cs \<longleftrightarrow> list_all (constraint_holds m) cs"

lemma constraints_hold_append [simp]:
  "constraints_hold m (xs @ ys) \<longleftrightarrow> constraints_hold m xs \<and> constraints_hold m ys"
  by (simp add: constraints_hold_def)

lemma constraints_hold_simps [simp]:
  "constraints_hold m []"
  "constraints_hold m (c # xs) \<longleftrightarrow> constraint_holds m c \<and> constraints_hold m xs"
  by (simp_all add: constraints_hold_def)

text \<open>The constraint that \<open>enforce_equal\<close> adds.\<close>

definition equal_constraint :: "('s, 'v, 'f) constraint_system \<Rightarrow> 'v \<times> 'v \<Rightarrow> 'v r1cs" where
  "equal_constraint cs p = ([fst p], [cs_one cs], [snd p])"

text \<open>Values of several variables, read together; \<open>None\<close> if one is missing.\<close>

definition values_of :: "('v \<Rightarrow> 'f option) \<Rightarrow> 'v list \<Rightarrow> 'f option list" where
  "values_of m vs = map m vs"

definition holds_state :: "('v \<Rightarrow> 'f option) \<Rightarrow> 'v allocated_state \<Rightarrow> 'f circuit_state \<Rightarrow> bool" where
  "holds_state m al st \<longleftrightarrow>
     values_of m (al_stack al) = map Some (st_stack st) \<and>
     values_of m (al_memory al) = map Some (st_memory st) \<and>
     map (map_prod m m) (al_storage al) = map (map_prod Some Some) (st_storage st) \<and>
     m (al_pc al) = Some (st_pc st) \<and> m (al_gas al) = Some (st_gas st)"

lemma values_of_mono: "m \<subseteq>\<^sub>m m' \<Longrightarrow> values_of m vs = map Some xs \<Longrightarrow> values_of m' vs = map Some xs"
  unfolding values_of_def
proof (induction vs arbitrary: xs)
  case (Cons v vs)
  then obtain x ys where "xs = x # ys" "m v = Some x" "map m vs = map Some ys"
    by (cases xs) auto
  with Cons show ?case by (auto simp: map_le_def dom_def)
qed simp

lemma pairs_mono:
  "m \<subseteq>\<^sub>m m' \<Longrightarrow> map (map_prod m m) vs = map (map_prod Some Some) xs \<Longrightarrow>
   map (map_prod m' m') vs = map (map_prod Some Some) xs"
proof (induction vs arbitrary: xs)
  case (Cons v vs)
  then obtain x ys where "xs = x # ys" "map_prod m m v = map_prod Some Some x"
    "map (map_prod m m) vs = map (map_prod Some Some) ys"
    by (cases xs) auto
  with Cons show ?case by (cases v; cases x) (auto simp: map_le_def dom_def)
qed simp

lemma holds_state_mono: "holds_state m al st \<Longrightarrow> m \<subseteq>\<^sub>m m' \<Longrightarrow> holds_state m' al st"
  unfolding holds_state_def
  by (auto simp: map_le_def dom_def intro: values_of_mono [unfolded map_le_def dom_def]
      pairs_mono [unfolded map_le_def dom_def])

context prover
begin

text \<open>\<open>extends s s'\<close>: going from \<open>s\<close> to \<open>s'\<close> only adds variables and constraints.\<close>

definition extends :: "'s \<Rightarrow> 's \<Rightarrow> bool" where
  "extends s s' \<longleftrightarrow> asg s \<subseteq>\<^sub>m asg s' \<and> (\<exists>new. cons s' = cons s @ new)"

lemma extends_refl [simp]: "extends s s"
  by (simp add: extends_def)

lemma extends_trans: "extends s s' \<Longrightarrow> extends s' s'' \<Longrightarrow> extends s s''"
  by (auto simp: extends_def intro: map_le_trans)

lemma extends_enforce: "extends s (cs_enforce cs a b c s)"
  by (simp add: extends_def enforce_asg enforce_cons)

lemma alloc_cases:
  "(\<exists>x v s'. r = Ok x \<and> cs_alloc cs r s = (Ok v, s') \<and> asg s v = None \<and>
      asg s' = (asg s)(v \<mapsto> x) \<and> cons s' = cons s) \<or>
   (\<exists>e. r = Err e \<and> fst (cs_alloc cs r s) = Err e) \<or> (\<exists>p. r = Panic p \<and> fst (cs_alloc cs r s) = Panic p)"
  using alloc_value alloc_error alloc_panic by (cases r) auto

lemma map_le_new: "m v = None \<Longrightarrow> m \<subseteq>\<^sub>m m(v \<mapsto> x)"
  by (auto simp: map_le_def)

lemma wp_alloc:
  assumes "\<And>x v s'. r = Ok x \<Longrightarrow> asg s v = None \<Longrightarrow> asg s' = (asg s)(v \<mapsto> x) \<Longrightarrow> cons s' = cons s \<Longrightarrow>
      extends s s' \<Longrightarrow> Q v s'"
    and "\<And>e t. r = Err e \<Longrightarrow> E e t" and "\<And>p t. r = Panic p \<Longrightarrow> F p t"
  shows "wp (cs_alloc cs r) Q E F s"
  using alloc_cases [of r s] assms
  by (cases "cs_alloc cs r s") (auto simp: wp_def extends_def map_le_new)

lemma alloc_values_wp:
  "wp (alloc_values cs xs) (\<lambda>vs s'. extends s s' \<and> cons s' = cons s \<and> values_of (asg s') vs = map Some xs)
     (\<lambda>_ _. False) (\<lambda>_ _. False) s"
proof (induction xs arbitrary: s)
  case (Cons x xs)
  show ?case
    unfolding alloc_values.simps wp_andthen wp_ret
  proof (rule wp_alloc)
    fix y v s1
    assume a: "Ok x = Ok y" "asg s1 = (asg s)(v \<mapsto> y)" "cons s1 = cons s" "extends s s1"
    show "wp (alloc_values cs xs) (\<lambda>vs s'. extends s s' \<and> cons s' = cons s \<and>
        values_of (asg s') (v # vs) = map Some (x # xs)) (\<lambda>_ _. False) (\<lambda>_ _. False) s1"
      by (rule wp_mono [OF Cons.IH])
        (use a in \<open>auto simp: values_of_def extends_def map_le_def dom_def intro: extends_trans\<close>)
  qed simp_all
qed (simp add: wp_simps values_of_def wp_def)

lemma alloc_storage_wp:
  "wp (alloc_storage cs xs) (\<lambda>vs s'. extends s s' \<and> cons s' = cons s \<and>
       map (map_prod (asg s') (asg s')) vs = map (map_prod Some Some) xs)
     (\<lambda>_ _. False) (\<lambda>_ _. False) s"
proof (induction xs arbitrary: s)
  case (Cons p xs)
  obtain k x where p: "p = (k, x)" by (cases p)
  show ?case
    unfolding p alloc_storage.simps wp_andthen wp_ret
  proof (rule wp_alloc, goal_cases)
    case k: (1 k' vk s1)
    show ?case
    proof (rule wp_alloc, goal_cases)
      case x: (1 x' vx s2)
      show ?case
        by (rule wp_mono [OF Cons.IH])
          (use k x in \<open>auto simp: extends_def map_le_def dom_def intro: extends_trans\<close>)
    qed simp_all
  qed simp_all
qed (simp add: wp_simps wp_def)

lemma alloc_state_wp:
  "wp (alloc_state cs (Some st)) (\<lambda>al s'. extends s s' \<and> cons s' = cons s \<and> holds_state (asg s') al st)
     (\<lambda>_ _. False) (\<lambda>_ _. False) s"
  unfolding alloc_state_def option.case assigned_def wp_andthen wp_ret
proof (rule wp_mono [OF alloc_values_wp], goal_cases)
  case stk: (1 stk s1)
  show ?case
  proof (rule wp_mono [OF alloc_values_wp], goal_cases)
    case mem: (1 mem s2)
    show ?case
    proof (rule wp_mono [OF alloc_storage_wp], goal_cases)
      case sto: (1 sto s3)
      show ?case
      proof (rule wp_alloc, goal_cases)
        case pc: (1 x vpc s4)
        show ?case
        proof (rule wp_alloc, goal_cases)
          case gas: (1 y vgas s5)
          have "extends s3 s5" using pc(5) gas(5) by (rule extends_trans)
          moreover from this have "extends s2 s5" using sto by (blast intro: extends_trans)
          moreover from this have "extends s1 s5" using mem by (blast intro: extends_trans)
          moreover from this have "extends s s5" using stk by (blast intro: extends_trans)
          moreover have "asg s5 vpc = Some x" "asg s5 vgas = Some y"
            using pc gas by auto
          ultimately show ?case
            using stk mem sto pc gas
            by (auto simp: holds_state_def extends_def intro: values_of_mono pairs_mono)
        qed simp_all
      qed simp_all
    qed simp_all
  qed simp_all
qed simp_all

text \<open>What every step leaves alone: the variables of the program counter, of the gas and of the
  storage.\<close>

definition same_frame :: "'v allocated_state \<Rightarrow> 'v allocated_state \<Rightarrow> bool" where
  "same_frame cur cur' \<longleftrightarrow>
     al_pc cur' = al_pc cur \<and> al_gas cur' = al_gas cur \<and> al_storage cur' = al_storage cur"

definition framed :: "'v allocated_state \<Rightarrow> ('s, synthesis_error, 'v allocated_state) comp \<Rightarrow> bool" where
  "framed cur m \<longleftrightarrow> (\<forall>s. wp m (\<lambda>cur' s'. extends s s' \<and> same_frame cur cur') (\<lambda>_ _. True) (\<lambda>_ _. True) s)"

lemma framed_wp:
  "framed cur m \<Longrightarrow> extends s t \<Longrightarrow>
   wp m (\<lambda>cur' s'. extends s s' \<and> same_frame cur cur') (\<lambda>_ _. True) (\<lambda>_ _. True) t"
  unfolding framed_def by (drule spec, erule wp_mono) (auto intro: extends_trans)

lemma framed_ret: "same_frame cur cur' \<Longrightarrow> framed cur (ret cur')"
  by (simp add: framed_def wp_def)

lemma framed_alloc: "(\<And>v. framed cur (f v)) \<Longrightarrow> framed cur (andthen (cs_alloc cs r) f)"
  unfolding framed_def [of _ "andthen _ _"] wp_andthen
  by (intro allI wp_alloc) (auto intro: framed_wp)

lemma framed_enforce:
  "framed cur (f ()) \<Longrightarrow> framed cur (andthen (updates (cs_enforce cs a b c)) f)"
  unfolding framed_def [of _ "andthen _ _"] wp_andthen wp_updates
  by (auto intro: framed_wp extends_enforce)

lemma framed_lift: "(\<And>a. framed cur (f a)) \<Longrightarrow> framed cur (andthen (lift_outcome r) f)"
  by (cases r) (auto simp: framed_def wp_simps)

lemma framed_extend:
  "(\<And>m. framed cur (f m)) \<Longrightarrow> framed cur (andthen (extend_memory cs step mem) f)"
proof (induction "Suc step - length mem" arbitrary: mem rule: less_induct)
  case less
  show ?case
  proof (cases "length mem \<le> step")
    case True
    have "framed cur (andthen (cs_alloc cs (Ok 0)) (\<lambda>z. andthen (extend_memory cs step (mem @ [z])) f))"
      by (rule framed_alloc, rule less.hyps) (use True less.prems in auto)
    then show ?thesis
      using True by (subst extend_memory.simps) (simp add: andthen_assoc)
  next
    case False
    with less.prems show ?thesis
      by (subst extend_memory.simps) (simp add: andthen_ret_left)
  qed
qed

lemma pop_two_frame: "pop_two cur = Some (x, y, cur') \<Longrightarrow> same_frame cur cur'"
  by (auto simp: pop_two_def same_frame_def split: option.splits)

lemma step_framed: "framed cur (synth_step b H cs fld circ fin k cur)"
proof -
  have binary: "framed cur (synth_binary b f cs circ cur)" for f
    by (auto simp: synth_binary_def same_frame_def push_var_def dest: pop_two_frame
        split: option.split intro!: framed_ret framed_alloc framed_enforce)
  have push: "framed cur (synth_push cs fld circ fin k cur)"
    by (auto simp: synth_push_def same_frame_def push_var_def intro!: framed_ret framed_alloc framed_enforce)
  have store: "framed cur (synth_store cs k cur)"
    by (auto simp: synth_store_def same_frame_def dest: pop_two_frame
        split: option.split intro!: framed_ret framed_extend framed_enforce)
  have sha: "framed cur (synth_sha3 b H cs fld circ cur)"
    by (auto simp: synth_sha3_def same_frame_def push_var_def dest: pop_two_frame
        split: option.split intro!: framed_ret framed_alloc framed_lift)
  have trans: "framed cur (synth_transition b H cs fld circ fin k cur)"
    by (auto simp: synth_transition_def same_frame_def binary push store sha split: option.split
        intro!: framed_ret)
  have opcode: "framed cur (andthen (step_opcode fld circ) f)" if "\<And>a. framed cur (f a)" for f
    using that unfolding step_opcode_def
    by (cases "initial_state circ"; cases "byte_at (to_repr fld (st_pc (the (initial_state circ)))) 0")
      (auto simp: framed_def wp_simps)
  show ?thesis
    unfolding synth_step_def by (intro opcode framed_alloc trans)
qed

lemma steps_framed: "framed cur (synth_steps b H cs fld circ fin ks cur)"
proof (induction ks arbitrary: cur)
  case (Cons k ks)
  show ?case
    unfolding framed_def synth_steps.simps wp_andthen
  proof (rule allI, rule wp_mono [OF framed_wp [OF step_framed extends_refl]])
    fix s cur' s'
    assume a: "extends s s' \<and> same_frame cur cur'"
    show "wp (synth_steps b H cs fld circ fin ks cur')
        (\<lambda>cur'' s''. extends s s'' \<and> same_frame cur cur'') (\<lambda>_ _. True) (\<lambda>_ _. True) s'"
      by (rule wp_mono [OF framed_wp [OF Cons.IH [of cur'] extends_refl]])
        (use a in \<open>auto simp: same_frame_def intro: extends_trans\<close>)
  qed simp_all
qed (simp add: framed_ret same_frame_def)

lemma final_constraints:
  "asg (fold (enforce_equal cs) ps s) = asg s \<and>
   cons (fold (enforce_equal cs) ps s) = cons s @ map (equal_constraint cs) ps"
  by (induction ps arbitrary: s)
    (auto simp: enforce_equal_def equal_constraint_def enforce_asg enforce_cons)

lemma equal_constraint_holds:
  "constraint_holds (asg s) (equal_constraint cs (x, y)) \<longleftrightarrow> the (asg s x) = the (asg s y)"
  by (simp add: constraint_holds_def equal_constraint_def lc_value_def one_value)

lemma equal_constraints_hold:
  "constraints_hold (asg s) (map (equal_constraint cs) ps) \<longleftrightarrow>
   (\<forall>(x, y) \<in> set ps. the (asg s x) = the (asg s y))"
  by (auto simp: constraints_hold_def list_all_iff equal_constraint_holds)

end

end
