(* ===== verification/Circuit_Properties.thy ===== *)
theory Circuit_Properties
  imports Circuit
begin

text \<open>
  What the constraints of \<open>VMCircuit\<close> say about the two machine states they are given, for every
  constraint system that does what a prover's does. \<open>accepts\<close> means that synthesis returns and the
  values it assigned satisfy all constraints, which is when a Groth16 proof can be made.
\<close>

definition accepts ::
  "build \<Rightarrow> (u8 list \<Rightarrow> u8 list) \<Rightarrow> ('s, 'v, 'f :: comm_ring_1) constraint_system \<Rightarrow> 'f field_ops \<Rightarrow>
   ('s \<Rightarrow> 'v \<Rightarrow> 'f option) \<Rightarrow> ('s \<Rightarrow> 'v r1cs list) \<Rightarrow> 's \<Rightarrow> 'f vm_circuit \<Rightarrow> bool" where
  "accepts b H cs fld asg cons s circ \<longleftrightarrow>
     (case synthesize b H cs fld circ s of
        (Ok _, s') \<Rightarrow> constraints_hold (asg s') (cons s')
      | _ \<Rightarrow> False)"

text \<open>Two lists agree where both have an element.\<close>

definition agree :: "'a list \<Rightarrow> 'a list \<Rightarrow> bool" where
  "agree xs ys \<longleftrightarrow> list_all (\<lambda>(x, y). x = y) (zip xs ys)"

lemma agree_nth: "agree xs ys \<longleftrightarrow> (\<forall>i < min (length xs) (length ys). xs ! i = ys ! i)"
  by (auto simp: agree_def list_all_length)

text \<open>The initial program counter selects a byte of the program.\<close>

definition opcode_there :: "'f field_ops \<Rightarrow> u8 list \<Rightarrow> 'f \<Rightarrow> bool" where
  "opcode_there fld prog pc \<longleftrightarrow>
     (case to_repr fld pc of [] \<Rightarrow> False | x # _ \<Rightarrow> unat x < length prog)"

lemma values_agree:
  "values_of m vs = map Some xs \<Longrightarrow> values_of m ws = map Some ys \<Longrightarrow>
   (\<forall>(v, w) \<in> set (zip vs ws). the (m v) = the (m w)) \<longleftrightarrow> agree xs ys"
proof -
  assume a: "values_of m vs = map Some xs" "values_of m ws = map Some ys"
  then have len: "length vs = length xs" "length ws = length ys"
    by (auto simp: values_of_def dest: map_eq_imp_length_eq)
  have "the (m (vs ! i)) = xs ! i" if "i < length xs" for i
    using a(1) that len by (auto simp: values_of_def list_eq_iff_nth_eq)
  moreover have "the (m (ws ! i)) = ys ! i" if "i < length ys" for i
    using a(2) that len by (auto simp: values_of_def list_eq_iff_nth_eq)
  ultimately show ?thesis
    using len by (simp add: agree_def list_all_length flip: list_all_iff)
qed

lemma storage_agree:
  "map (map_prod m m) vs = map (map_prod Some Some) xs \<Longrightarrow>
   map (map_prod m m) ws = map (map_prod Some Some) ys \<Longrightarrow>
   (\<forall>(v, w) \<in> set (storage_pairs vs ws). the (m v) = the (m w)) \<longleftrightarrow> agree xs ys"
proof (induction vs arbitrary: xs ws ys)
  case (Cons v vs)
  then obtain x xs' where xs: "xs = x # xs'" by (cases xs) auto
  show ?case
  proof (cases ws)
    case Nil
    with Cons.prems show ?thesis by (simp add: storage_pairs_def agree_def)
  next
    case (Cons w ws')
    with Cons.prems obtain y ys' where ys: "ys = y # ys'" by (cases ys) auto
    from Cons.prems xs ys Cons Cons.IH [of xs' ws' ys']
    show ?thesis by (cases v; cases w; cases x; cases y) (auto simp: storage_pairs_def agree_def)
  qed
qed (simp add: storage_pairs_def agree_def)

context prover
begin

definition start_values :: "'s \<Rightarrow> 'f circuit_state \<Rightarrow> 'f circuit_state \<Rightarrow>
    'v allocated_state \<Rightarrow> 'v allocated_state \<Rightarrow> 's \<Rightarrow> bool" where
  "start_values s st st' ini fin t \<longleftrightarrow> extends s t \<and> cons t = cons s \<and>
     holds_state (asg t) ini st \<and> holds_state (asg t) fin st'"

text \<open>Synthesis with a witness: both states are allocated, then the steps run, then the states are
  compared.\<close>

lemma synthesize_parts:
  assumes "\<And>ini fin t. start_values s st st' ini fin t \<Longrightarrow>
    wp (synth_steps b H cs fld (with_witness prog n st st') fin [0..<unat n] ini)
      (\<lambda>cur t'. Q (fold (enforce_equal cs) (final_pairs cur fin) t')) E F t"
  shows "wp (synthesize b H cs fld (with_witness prog n st st')) (\<lambda>_. Q) E F s"
  unfolding synthesize_def with_witness_def vm_circuit.simps wp_andthen wp_updates
proof (rule wp_mono [OF alloc_state_wp], goal_cases)
  case ini: (1 ini s1)
  show ?case
  proof (rule wp_mono [OF alloc_state_wp], goal_cases)
    case fin: (1 fin s2)
    then have "start_values s st st' ini fin s2"
      using ini by (auto simp: start_values_def extends_def intro: holds_state_mono map_le_trans)
    from assms [OF this] show ?case by (simp add: with_witness_def)
  qed simp_all
qed simp_all

lemma final_state_checked:
  assumes "holds_state (asg t) cur mid" and "holds_state (asg t) fin st'"
  shows "constraints_hold (asg (fold (enforce_equal cs) (final_pairs cur fin) t))
      (cons (fold (enforce_equal cs) (final_pairs cur fin) t)) \<longleftrightarrow>
    constraints_hold (asg t) (cons t) \<and> st_pc mid = st_pc st' \<and> st_gas mid = st_gas st' \<and>
    agree (st_stack mid) (st_stack st') \<and> agree (st_memory mid) (st_memory st') \<and>
    agree (st_storage mid) (st_storage st')"
proof -
  note h = assms [unfolded holds_state_def]
  from h have "(\<forall>(v, w) \<in> set (final_pairs cur fin). the (asg t v) = the (asg t w)) \<longleftrightarrow>
      st_pc mid = st_pc st' \<and> st_gas mid = st_gas st' \<and>
      agree (st_stack mid) (st_stack st') \<and> agree (st_memory mid) (st_memory st') \<and>
      agree (st_storage mid) (st_storage st')"
    using values_agree [of "asg t" "al_stack cur" "st_stack mid" "al_stack fin" "st_stack st'"]
      values_agree [of "asg t" "al_memory cur" "st_memory mid" "al_memory fin" "st_memory st'"]
      storage_agree [of "asg t" "al_storage cur" "st_storage mid" "al_storage fin" "st_storage st'"]
    by (simp add: final_pairs_def ball_Un)
  then show ?thesis
    using final_constraints [of "final_pairs cur fin" t] equal_constraints_hold [of t "final_pairs cur fin"]
    by simp
qed

lemma accepted_frame:
  assumes "accepts b H cs fld asg cons s (with_witness prog n st st')"
  shows "st_pc st' = st_pc st \<and> st_gas st' = st_gas st \<and> agree (st_storage st) (st_storage st')"
proof -
  let ?R = "st_pc st' = st_pc st \<and> st_gas st' = st_gas st \<and> agree (st_storage st) (st_storage st')"
  have "wp (synthesize b H cs fld (with_witness prog n st st'))
      (\<lambda>_ s'. constraints_hold (asg s') (cons s') \<longrightarrow> ?R) (\<lambda>_ _. True) (\<lambda>_ _. True) s"
  proof (rule synthesize_parts, rule wp_mono [OF framed_wp [OF steps_framed extends_refl]])
    fix ini fin t cur t'
    assume start: "start_values s st st' ini fin t" and ext: "extends t t' \<and> same_frame ini cur"
    have ini: "holds_state (asg t') ini st" and fin: "holds_state (asg t') fin st'"
      using start ext by (auto simp: start_values_def extends_def intro: holds_state_mono)
    let ?ps = "[(al_pc cur, al_pc fin), (al_gas cur, al_gas fin)]"
    let ?qs = "storage_pairs (al_storage cur) (al_storage fin)"
    show "constraints_hold (asg (fold (enforce_equal cs) (final_pairs cur fin) t'))
        (cons (fold (enforce_equal cs) (final_pairs cur fin) t')) \<longrightarrow> ?R"
    proof
      assume "constraints_hold (asg (fold (enforce_equal cs) (final_pairs cur fin) t'))
        (cons (fold (enforce_equal cs) (final_pairs cur fin) t'))"
      then have all: "\<forall>(v, w) \<in> set (final_pairs cur fin). the (asg t' v) = the (asg t' w)"
        by (simp add: final_constraints equal_constraints_hold)
      from all have "\<forall>(v, w) \<in> set ?qs. the (asg t' v) = the (asg t' w)"
        by (auto simp: final_pairs_def)
      with ini fin ext have "agree (st_storage st) (st_storage st')"
        by (subst storage_agree [symmetric]) (auto simp: holds_state_def same_frame_def)
      moreover from all have "the (asg t' (al_pc cur)) = the (asg t' (al_pc fin))"
          "the (asg t' (al_gas cur)) = the (asg t' (al_gas fin))"
        by (auto simp: final_pairs_def)
      ultimately show ?R using ini fin ext by (auto simp: holds_state_def same_frame_def)
    qed
  qed simp_all
  with assms show ?thesis
    by (auto simp: accepts_def wp_def split: prod.splits outcome.splits)
qed

lemma top_variables:
  assumes "holds_state m cur st" and "st_stack st = xs @ [y, x]"
  shows "\<exists>vs vy vx. al_stack cur = vs @ [vy, vx] \<and> values_of m vs = map Some xs \<and>
    m vy = Some y \<and> m vx = Some x \<and> pop_two cur = Some (vx, vy, cur\<lparr>al_stack := vs\<rparr>)"
proof -
  from assms have vals: "map m (al_stack cur) = map Some xs @ [Some y, Some x]"
    by (simp add: holds_state_def values_of_def)
  then obtain vs ws where "al_stack cur = vs @ ws" "map m vs = map Some xs" "map m ws = [Some y, Some x]"
    by (auto simp: map_eq_append_conv)
  moreover from this obtain vy vx where "ws = [vy, vx]" by (auto simp: map_eq_Cons_conv)
  moreover from calculation have "pop_two cur = Some (vx, vy, cur\<lparr>al_stack := vs\<rparr>)"
    using vec_pop_snoc [of "vs @ [vy]" vx] by (simp add: pop_two_def)
  ultimately show ?thesis by (auto simp: values_of_def)
qed

lemma witnessless_fails:
  "fst (synthesize b H cs fld (vm_circuit_new prog n) s) = Err AssignmentMissing"
proof -
  have "wp (synthesize b H cs fld (vm_circuit_new prog n)) (\<lambda>_ _. False)
      (\<lambda>e _. e = AssignmentMissing) (\<lambda>_ _. False) s"
    unfolding synthesize_def alloc_state_def vm_circuit_new_def vm_circuit.simps option.case
      wp_andthen wp_ret assigned_def
    by (rule wp_alloc) simp_all
  then show ?thesis by (auto simp: wp_def split: prod.splits outcome.splits)
qed

end

section \<open>A constraint system\<close>

text \<open>
  A prover's constraint system as lists of values and constraints; variable 0 is the constant one.
  The statements below hold for every system that satisfies \<open>prover\<close>; this one shows that there are
  such systems, and serves to evaluate examples.
\<close>

definition list_cs :: "('f :: comm_ring_1 list \<times> nat r1cs list, nat, 'f) constraint_system" where
  "list_cs =
     \<lparr>cs_alloc = (\<lambda>r (vals, cns). case r of
          Ok x \<Rightarrow> (Ok (Suc (length vals)), (vals @ [x], cns))
        | Err e \<Rightarrow> (Err e, (vals, cns))
        | Panic p \<Rightarrow> (Panic p, (vals, cns))),
      cs_enforce = (\<lambda>x y z (vals, cns). (vals, cns @ [(x, y, z)])),
      cs_one = 0\<rparr>"

definition list_asg :: "'f :: comm_ring_1 list \<times> nat r1cs list \<Rightarrow> nat \<Rightarrow> 'f option" where
  "list_asg s v = (case v of 0 \<Rightarrow> Some 1 | Suc i \<Rightarrow> index (fst s) i)"

interpretation list_prover: prover "list_cs :: (_, _, 'f :: comm_ring_1) constraint_system" list_asg snd
proof
  fix s :: "'f list \<times> nat r1cs list" and x
  obtain vals cns where s: "s = (vals, cns)" by (cases s)
  have "list_asg (vals @ [x], cns) = (list_asg s)(Suc (length vals) \<mapsto> x)"
    by (auto simp: list_asg_def s fun_eq_iff index_def nth_append split: nat.split)
  then show "\<exists>v s'. cs_alloc list_cs (Ok x) s = (Ok v, s') \<and> list_asg s v = None \<and>
      list_asg s' = (list_asg s)(v \<mapsto> x) \<and> snd s' = snd s"
    by (intro exI [of _ "Suc (length vals)"] exI [of _ "(vals @ [x], cns)"])
      (simp add: list_cs_def s list_asg_def index_def)
qed (auto simp: list_cs_def list_asg_def fun_eq_iff split: nat.split)

text \<open>The field with 257 elements, its numbers in two bytes.\<close>

type_synonym field257 = 257

definition field257_ops :: "field257 field_ops" where
  "field257_ops =
     \<lparr>from_u64 = (\<lambda>x. of_nat (unat x)),
      to_repr = (\<lambda>x. [word_of_int (Rep_bit1 x mod 256), word_of_int (Rep_bit1 x div 256)]),
      from_repr = (\<lambda>xs. case xs of x # y # _ \<Rightarrow> Some (of_nat (unat x + 256 * unat y)) | _ \<Rightarrow> None)\<rparr>"

definition state257 :: "field257 list \<Rightarrow> field257 list \<Rightarrow> field257 \<Rightarrow> field257 \<Rightarrow> field257 circuit_state" where
  "state257 stk mem pc gas =
     \<lparr>st_stack = stk, st_memory = mem, st_storage = [], st_pc = pc, st_gas = gas\<rparr>"

lemma opcode_there_257 [simp]: "prog \<noteq> [] \<Longrightarrow> opcode_there field257_ops prog 0"
  by (simp add: opcode_there_def field257_ops_def bit1.Rep_0)

section \<open>Properties\<close>

subsection \<open>Circuits without a witness\<close>

definition returns :: "('s, 'e, 'a) comp \<Rightarrow> bool" where
  "returns m \<longleftrightarrow> (\<forall>s. \<exists>a s'. m s = (Ok a, s'))"

lemma returns_ret: "returns (ret a)"
  by (simp add: returns_def)

lemma returns_updates: "returns (updates f)"
  by (simp add: returns_def)

lemma returns_lift: "returns (lift_outcome (Ok a))"
  by (simp add: returns_def lift_outcome_def)

lemma returns_andthen: "returns m \<Longrightarrow> (\<And>a. returns (f a)) \<Longrightarrow> returns (andthen m f)"
  unfolding returns_def by (metis andthen_Ok)

lemma returns_extend_memory:
  "(\<And>r. returns (cs_alloc cs r)) \<Longrightarrow> returns (extend_memory cs k mem)"
proof (induction "Suc k - length mem" arbitrary: mem rule: less_induct)
  case less
  then show ?case
    by (subst extend_memory.simps) (auto intro!: returns_andthen returns_ret)
qed

lemma returns_step:
  assumes "\<And>r. returns (cs_alloc cs r)" and "initial_state circ = None"
  shows "returns (synth_step b H cs fld circ fin k cur)"
  using assms(2)
  by (auto simp: synth_step_def step_opcode_def synth_transition_def synth_push_def synth_binary_def
      synth_store_def synth_sha3_def sha3_input_def
      split: option.split
      intro!: returns_andthen returns_ret returns_lift returns_updates returns_extend_memory assms(1))

lemma returns_steps:
  assumes "\<And>r. returns (cs_alloc cs r)" and "initial_state circ = None"
  shows "returns (synth_steps b H cs fld circ fin ks cur)"
proof (induction ks arbitrary: cur)
  case (Cons k ks)
  then show ?case by (auto intro!: returns_andthen returns_step assms)
qed (simp add: returns_ret)

text \<open>A circuit made by \<open>VMCircuit::new\<close> has no witness. A constraint system that generates
  parameters, which never calls the closures, synthesises it without an error, but a prover's
  fails with \<open>AssignmentMissing\<close> at the first value it asks for, for every program and every number
  of steps.\<close>

theorem witnessless_circuit:
  assumes "prover cs asg cons" and "\<And>r t. \<exists>v t'. cs_alloc ks r t = (Ok v, t')"
  shows "fst (synthesize b H ks fld (vm_circuit_new prog n) t) = Ok () \<and>
    fst (synthesize b H cs fld (vm_circuit_new prog n) s) = Err AssignmentMissing"
proof -
  have "returns (cs_alloc ks r)" for r using assms(2) by (simp add: returns_def)
  then have "returns (synthesize b H ks fld (vm_circuit_new prog n))"
    unfolding synthesize_def alloc_state_def
    by (auto simp: vm_circuit_new_def intro!: returns_andthen returns_ret returns_steps returns_updates)
  then have "fst (synthesize b H ks fld (vm_circuit_new prog n) t) = Ok ()"
    by (auto simp: returns_def dest: spec [of _ t])
  with prover.witnessless_fails [OF assms(1)] show ?thesis by blast
qed

text \<open>Parameter generation only counts the variables.\<close>

definition counting_cs :: "(nat, nat, 'f) constraint_system" where
  "counting_cs = \<lparr>cs_alloc = (\<lambda>_ n. (Ok (Suc n), Suc n)), cs_enforce = (\<lambda>_ _ _ n. n), cs_one = 0\<rparr>"

theorem witnessless_circuit_witness:
  "fst (synthesize Debug (\<lambda>_. []) counting_cs field257_ops (vm_circuit_new [0x01, 0x05, 0xFF] 1000) 0) = Ok () \<and>
   fst (synthesize Debug (\<lambda>_. []) list_cs field257_ops (vm_circuit_new [0x01, 0x05, 0xFF] 1000) ([], [])) =
     Err AssignmentMissing"
  by (rule witnessless_circuit [OF list_prover.prover_axioms]) (simp add: counting_cs_def)

end
