(* ===== verification/Circuit_Evaluation.thy ===== *)
theory Circuit_Evaluation
  imports Circuit_Properties
begin

text \<open>
  An evaluator of \<open>VMCircuit\<close> on field values, without variables, constraints or a constraint
  system, and the proof that \<open>synthesize\<close> computes the same: \<open>eval_circuit\<close> says, for every
  program, number of steps and pair of states, whether synthesis fails or panics and whether the
  assignment satisfies the constraints.
\<close>

section \<open>Evaluation on values\<close>

text \<open>A state of the evaluation: the values of the current variables, and whether all constraints
  recorded so far hold.\<close>

type_synonym 'f verdict = "'f circuit_state \<times> bool"

definition pop_values :: "'f list \<Rightarrow> ('f \<times> 'f \<times> 'f list) option" where
  "pop_values xs = (case rev xs of x # y # zs \<Rightarrow> Some (x, y, rev zs) | _ \<Rightarrow> None)"

definition eval_push ::
  "'f field_ops \<Rightarrow> 'f vm_circuit \<Rightarrow> 'f circuit_state \<Rightarrow> nat \<Rightarrow> 'f verdict \<Rightarrow>
   (synthesis_error, 'f verdict) outcome" where
  "eval_push fld circ st' k = (\<lambda>(mid, ok).
     bind_outcome (push_value fld circ k) (\<lambda>v.
     Ok (mid\<lparr>st_stack := st_stack mid @ [v]\<rparr>, ok \<and> st_pc mid = st_pc st')))"

text \<open>The result comes from the two top elements of the initial stack, the constraint from those of
  the current one.\<close>

definition eval_binary ::
  "build \<Rightarrow> ('f \<Rightarrow> 'f \<Rightarrow> 'f) \<Rightarrow> 'f vm_circuit \<Rightarrow> 'f :: times verdict \<Rightarrow>
   (synthesis_error, 'f verdict) outcome" where
  "eval_binary b f circ = (\<lambda>(mid, ok).
     case pop_values (st_stack mid) of
       None \<Rightarrow> Ok (mid, ok)
     | Some (x, y, rest) \<Rightarrow>
         bind_outcome (binary_value b f circ) (\<lambda>r.
         Ok (mid\<lparr>st_stack := rest @ [r]\<rparr>, ok \<and> x * y = r)))"

definition zero_extend :: "nat \<Rightarrow> 'f :: zero list \<Rightarrow> 'f list" where
  "zero_extend k xs = xs @ replicate (Suc k - length xs) 0"

definition eval_store :: "nat \<Rightarrow> 'f :: zero verdict \<Rightarrow> 'f verdict" where
  "eval_store k = (\<lambda>(mid, ok).
     case pop_values (st_stack mid) of
       None \<Rightarrow> (mid, ok)
     | Some (x, addr, rest) \<Rightarrow>
         (mid\<lparr>st_stack := rest, st_memory := (zero_extend k (st_memory mid))[k := x]\<rparr>, ok \<and> addr = x))"

definition eval_sha3 ::
  "build \<Rightarrow> (u8 list \<Rightarrow> u8 list) \<Rightarrow> ('f :: comm_ring_1) field_ops \<Rightarrow> 'f vm_circuit \<Rightarrow> 'f verdict \<Rightarrow>
   (synthesis_error, 'f verdict) outcome" where
  "eval_sha3 b H fld circ = (\<lambda>(mid, ok).
     case pop_values (st_stack mid) of
       None \<Rightarrow> Ok (mid, ok)
     | Some (_, _, rest) \<Rightarrow>
         bind_outcome (sha3_input b fld circ) (\<lambda>input.
         bind_outcome (sha3_value H fld circ input) (\<lambda>h.
         Ok (mid\<lparr>st_stack := rest @ [h]\<rparr>, ok))))"

definition eval_transition ::
  "build \<Rightarrow> (u8 list \<Rightarrow> u8 list) \<Rightarrow> ('f :: comm_ring_1) field_ops \<Rightarrow> 'f vm_circuit \<Rightarrow>
   'f circuit_state \<Rightarrow> nat \<Rightarrow> 'f verdict \<Rightarrow> (synthesis_error, 'f verdict) outcome" where
  "eval_transition b H fld circ st' k r =
     (case index (circuit_program circ) k of
        None \<Rightarrow> Ok r
      | Some opc \<Rightarrow>
          if opc = 0x01 then eval_push fld circ st' k r
          else if opc = 0x02 then eval_binary b (+) circ r
          else if opc = 0x03 then eval_binary b (*) circ r
          else if opc = 0x04 then Ok (eval_store k r)
          else if opc = 0x0E then eval_sha3 b H fld circ r
          else Ok r)"

text \<open>Every step first asks for the program byte at the initial program counter.\<close>

definition initial_opcode ::
  "'f field_ops \<Rightarrow> u8 list \<Rightarrow> 'f circuit_state \<Rightarrow> (synthesis_error, u8) outcome" where
  "initial_opcode fld prog st =
     bind_outcome (byte_at (to_repr fld (st_pc st)) 0) (\<lambda>pc.
     case index prog (unat pc) of None \<Rightarrow> Err AssignmentMissing | Some opc \<Rightarrow> Ok opc)"

fun eval_steps ::
  "build \<Rightarrow> (u8 list \<Rightarrow> u8 list) \<Rightarrow> ('f :: comm_ring_1) field_ops \<Rightarrow> u8 list \<Rightarrow> 'f circuit_state \<Rightarrow>
   'f circuit_state \<Rightarrow> usize \<Rightarrow> nat list \<Rightarrow> 'f verdict \<Rightarrow> (synthesis_error, 'f verdict) outcome" where
  "eval_steps b H fld prog st st' n [] r = Ok r"
| "eval_steps b H fld prog st st' n (k # ks) r =
     bind_outcome (initial_opcode fld prog st) (\<lambda>_.
     bind_outcome (eval_transition b H fld (with_witness prog n st st') st' k r) (\<lambda>r'.
     eval_steps b H fld prog st st' n ks r'))"

definition final_verdict :: "'f circuit_state \<Rightarrow> 'f verdict \<Rightarrow> bool" where
  "final_verdict st' = (\<lambda>(mid, ok).
     ok \<and> st_pc mid = st_pc st' \<and> st_gas mid = st_gas st' \<and> agree (st_stack mid) (st_stack st') \<and>
     agree (st_memory mid) (st_memory st') \<and> agree (st_storage mid) (st_storage st'))"

definition eval_circuit ::
  "build \<Rightarrow> (u8 list \<Rightarrow> u8 list) \<Rightarrow> ('f :: comm_ring_1) field_ops \<Rightarrow> u8 list \<Rightarrow> usize \<Rightarrow>
   'f circuit_state \<Rightarrow> 'f circuit_state \<Rightarrow> (synthesis_error, bool) outcome" where
  "eval_circuit b H fld prog n st st' =
     bind_outcome (eval_steps b H fld prog st st' n [0..<unat n] (st, True)) (\<lambda>r.
     Ok (final_verdict st' r))"

section \<open>Synthesis computes the evaluation\<close>

lemma pop_values_snoc2 [simp]: "pop_values (xs @ [y, x]) = Some (x, y, xs)"
  by (simp add: pop_values_def)

lemma pop_values_cases:
  obtains (Two) ys y x where "xs = ys @ [y, x]" | (Few) "pop_values xs = None" "length xs < 2"
proof (cases xs rule: rev_cases)
  case Nil
  then show ?thesis by (intro Few) (simp_all add: pop_values_def)
next
  case (snoc ys x)
  then show ?thesis
    by (cases ys rule: rev_cases) (auto simp: pop_values_def intro: Few Two)
qed

definition scoped_in :: "('v \<Rightarrow> 'f option) \<Rightarrow> 'v r1cs list \<Rightarrow> bool" where
  "scoped_in m cs \<longleftrightarrow> list_all (\<lambda>(a, b, c). set a \<union> set b \<union> set c \<subseteq> dom m) cs"

lemma scoped_in_append [simp]:
  "scoped_in m (xs @ ys) \<longleftrightarrow> scoped_in m xs \<and> scoped_in m ys"
  by (simp add: scoped_in_def)

lemma lc_value_mono: "m \<subseteq>\<^sub>m m' \<Longrightarrow> set vs \<subseteq> dom m \<Longrightarrow> lc_value m' vs = lc_value m vs"
  unfolding lc_value_def map_le_def by (metis (no_types, lifting) map_cong subsetD)

lemma constraints_hold_mono:
  assumes "m \<subseteq>\<^sub>m m'" and "scoped_in m cs"
  shows "scoped_in m' cs \<and> constraints_hold m' cs = constraints_hold m cs"
proof -
  have "dom m \<subseteq> dom m'" using assms(1) by (auto simp: map_le_def dom_def)
  then have "scoped_in m' cs" using assms(2)
    unfolding scoped_in_def list_all_iff
    by (simp add: split_beta) (metis subset_trans)
  moreover have "constraint_holds m' c = constraint_holds m c" if "c \<in> set cs" for c
    using assms that lc_value_mono [of m m']
    by (cases c) (auto simp: scoped_in_def constraint_holds_def list_all_iff)
  ultimately show ?thesis by (simp add: constraints_hold_def list_all_iff)
qed

context prover
begin

text \<open>\<open>tracks fin st' r cur t\<close>: the variables of \<open>cur\<close> have the values of \<open>r\<close>, those of \<open>fin\<close> the
  values of the final state, and the constraints of \<open>t\<close> hold as \<open>r\<close> says.\<close>

definition tracks :: "'v allocated_state \<Rightarrow> 'f circuit_state \<Rightarrow> 'f verdict \<Rightarrow>
    'v allocated_state \<Rightarrow> 's \<Rightarrow> bool" where
  "tracks fin st' r cur t \<longleftrightarrow>
     holds_state (asg t) cur (fst r) \<and> holds_state (asg t) fin st' \<and>
     scoped_in (asg t) (cons t) \<and> (constraints_hold (asg t) (cons t) \<longleftrightarrow> snd r)"

lemma tracks_extends:
  assumes "tracks fin st' r cur t" and "extends t t'" and "cons t' = cons t"
  shows "tracks fin st' r cur t'"
  using assms constraints_hold_mono [of "asg t" "asg t'" "cons t"]
  by (auto simp: tracks_def extends_def intro: holds_state_mono)

lemma tracks_enforce:
  assumes "tracks fin st' (mid, ok) cur t"
    and "asg t vx = Some x" "asg t vy = Some y" "asg t vz = Some z"
  shows "tracks fin st' (mid, ok \<and> x * y = z) cur (cs_enforce cs [vx] [vy] [vz] t)"
  using assms
  by (auto simp: tracks_def enforce_asg enforce_cons constraint_holds_def lc_value_def scoped_in_def)

text \<open>A synthesis step computes the outcome \<open>ev\<close> of the evaluator.\<close>

definition computes :: "('s, synthesis_error, 'a) comp \<Rightarrow> ('b \<Rightarrow> 'a \<Rightarrow> 's \<Rightarrow> bool) \<Rightarrow>
    (synthesis_error, 'b) outcome \<Rightarrow> 's \<Rightarrow> bool" where
  "computes m R ev t \<longleftrightarrow>
     wp m (\<lambda>a t'. \<exists>r. ev = Ok r \<and> R r a t') (\<lambda>e _. ev = Err e) (\<lambda>p _. ev = Panic p) t"

lemma computes_andthen:
  assumes "computes m R ev t" and "\<And>r a t'. ev = Ok r \<Longrightarrow> R r a t' \<Longrightarrow> computes (f a) R' (g r) t'"
  shows "computes (andthen m f) R' (bind_outcome ev g) t"
  using assms(1) unfolding computes_def wp_andthen
  by (rule wp_mono) (use assms(2) in \<open>auto simp: computes_def\<close>)

lemma computes_ret: "R r a t \<Longrightarrow> computes (ret a) R (Ok r) t"
  by (simp add: computes_def wp_ret)

lemma computes_lift: "computes (lift_outcome r) (\<lambda>x y t'. x = y \<and> t' = t) r t"
  by (cases r) (simp_all add: computes_def wp_simps)

lemma computes_alloc:
  "computes (cs_alloc cs r)
    (\<lambda>x v t'. extends t t' \<and> cons t' = cons t \<and> asg t' v = Some x) r t"
  unfolding computes_def by (rule wp_alloc) auto

lemma push_var_tracks:
  assumes "tracks fin st' (mid, ok) cur t" and "asg t v = Some x"
  shows "tracks fin st' (mid\<lparr>st_stack := st_stack mid @ [x]\<rparr>, ok) (push_var v cur) t"
  using assms by (simp add: tracks_def holds_state_def push_var_def values_of_def)

text \<open>Every constraint of a step is recorded before the step's result is pushed.\<close>

lemma enforce_push_computes:
  assumes "tracks fin st' (mid, ok) cur t" and "asg t v = Some r"
    and "asg t vx = Some x" "asg t vy = Some y" "asg t vz = Some z"
  shows "computes (andthen (updates (cs_enforce cs [vx] [vy] [vz])) (\<lambda>_. ret (push_var v cur)))
    (tracks fin st') (Ok (mid\<lparr>st_stack := st_stack mid @ [r]\<rparr>, ok \<and> x * y = z)) t"
  using tracks_enforce [OF assms(1,3-5)] assms(2)
  by (simp add: computes_def wp_simps push_var_tracks enforce_asg)

lemma push_computes:
  assumes "tracks fin st' (mid, ok) cur t"
  shows "computes (synth_push cs fld (with_witness prog n st st0) fin k cur) (tracks fin st')
    (eval_push fld (with_witness prog n st st0) st' k (mid, ok)) t"
  unfolding synth_push_def eval_push_def prod.case
proof (rule computes_andthen [OF computes_alloc])
  fix x v t'
  assume ext: "extends t t' \<and> cons t' = cons t \<and> asg t' v = Some x"
  then have tr: "tracks fin st' (mid, ok) cur t'" using assms tracks_extends by blast
  then have "asg t' (al_pc cur) = Some (st_pc mid)" "asg t' (al_pc fin) = Some (st_pc st')"
    by (auto simp: tracks_def holds_state_def)
  from enforce_push_computes [OF tr _ this(1) one_value this(2)] ext
  show "computes (andthen (updates (cs_enforce cs [al_pc cur] [cs_one cs] [al_pc fin]))
       (\<lambda>_. ret (push_var v cur))) (tracks fin st')
     (Ok (mid\<lparr>st_stack := st_stack mid @ [x]\<rparr>, ok \<and> st_pc mid = st_pc st')) t'"
    by simp
qed

text \<open>Popping two values, on both sides.\<close>

lemma pop_two_tracks:
  assumes "tracks fin st' r cur t"
  obtains (Few) "pop_two cur = None" "pop_values (st_stack (fst r)) = None"
  | (Two) vx vy x y vs rest where
      "pop_two cur = Some (vx, vy, cur\<lparr>al_stack := vs\<rparr>)" "asg t vx = Some x" "asg t vy = Some y"
      "pop_values (st_stack (fst r)) = Some (x, y, rest)"
      "tracks fin st' (fst r\<lparr>st_stack := rest\<rparr>, snd r) (cur\<lparr>al_stack := vs\<rparr>) t"
proof -
  have holds: "holds_state (asg t) cur (fst r)" using assms by (simp add: tracks_def)
  show ?thesis
  proof (cases "st_stack (fst r)" rule: pop_values_cases)
    case (Two rest y x)
    from top_variables [OF holds Two] obtain vs vy vx where
      "al_stack cur = vs @ [vy, vx]" "values_of (asg t) vs = map Some rest"
      "asg t vy = Some y" "asg t vx = Some x" "pop_two cur = Some (vx, vy, cur\<lparr>al_stack := vs\<rparr>)"
      by blast
    then show ?thesis
      using assms Two by (intro that(2)) (auto simp: tracks_def holds_state_def)
  next
    case Few
    have "length (al_stack cur) < 2"
      using holds Few(2) by (auto simp: holds_state_def values_of_def dest: map_eq_imp_length_eq)
    then have "pop_two cur = None"
      by (cases "al_stack cur" rule: rev_cases)
        (auto simp: pop_two_def vec_pop_def split: option.split list.split)
    with Few(1) show ?thesis by (intro that(1))
  qed
qed

lemma binary_computes:
  assumes "tracks fin st' (mid, ok) cur t"
  shows "computes (synth_binary b f cs circ cur) (tracks fin st') (eval_binary b f circ (mid, ok)) t"
  using assms
proof (cases rule: pop_two_tracks)
  case Few
  with assms show ?thesis by (simp add: synth_binary_def eval_binary_def computes_ret)
next
  case (Two vx vy x y vs rest)
  show ?thesis
    unfolding synth_binary_def eval_binary_def prod.case
    using Two(4)
  proof (simp add: Two(1), intro computes_andthen [OF computes_alloc])
    fix r v t'
    assume ext: "extends t t' \<and> cons t' = cons t \<and> asg t' v = Some r"
    then have "asg t' vx = Some x" "asg t' vy = Some y"
      using Two(2,3) by (auto simp: extends_def map_le_def dom_def)
    moreover from ext have "tracks fin st' (mid\<lparr>st_stack := rest\<rparr>, ok) (cur\<lparr>al_stack := vs\<rparr>) t'"
      using Two(5) by (auto intro: tracks_extends)
    ultimately show "computes (andthen (updates (cs_enforce cs [vx] [vy] [v]))
         (\<lambda>_. ret (push_var v (cur\<lparr>al_stack := vs\<rparr>)))) (tracks fin st')
       (Ok (mid\<lparr>st_stack := rest @ [r]\<rparr>, ok \<and> x * y = r)) t'"
      using enforce_push_computes [of fin st' "mid\<lparr>st_stack := rest\<rparr>" ok "cur\<lparr>al_stack := vs\<rparr>" t'
          v r vx x vy y v r] ext by simp
  qed
qed

lemma extend_computes:
  assumes "tracks fin st' (mid, ok) cur t"
  shows "computes (extend_memory cs k (al_memory cur))
    (\<lambda>ms vs t'. extends t t' \<and> cons t' = cons t \<and> tracks fin st' (mid\<lparr>st_memory := ms\<rparr>, ok) (cur\<lparr>al_memory := vs\<rparr>) t')
    (Ok (zero_extend k (st_memory mid))) t"
  using assms
proof (induction "Suc k - length (al_memory cur)" arbitrary: cur mid t rule: less_induct)
  case less
  have len: "length (al_memory cur) = length (st_memory mid)"
    using less.prems by (auto simp: tracks_def holds_state_def values_of_def dest: map_eq_imp_length_eq)
  show ?case
  proof (cases "length (al_memory cur) \<le> k")
    case True
    then have step: "zero_extend k (st_memory mid) = zero_extend k (st_memory mid @ [0])"
      by (simp add: zero_extend_def len Suc_diff_le)
    have "computes (andthen (cs_alloc cs (Ok 0)) (\<lambda>z. extend_memory cs k (al_memory cur @ [z])))
       (\<lambda>ms vs t'. extends t t' \<and> cons t' = cons t \<and>
         tracks fin st' (mid\<lparr>st_memory := ms\<rparr>, ok) (cur\<lparr>al_memory := vs\<rparr>) t')
       (bind_outcome (Ok 0) (\<lambda>z. Ok (zero_extend k (st_memory mid @ [z])))) t"
    proof (rule computes_andthen [OF computes_alloc])
      fix z v t'
      assume "extends t t' \<and> cons t' = cons t \<and> asg t' v = Some z"
      moreover from this have "tracks fin st' (mid\<lparr>st_memory := st_memory mid @ [z]\<rparr>, ok)
          (cur\<lparr>al_memory := al_memory cur @ [v]\<rparr>) t'"
        using tracks_extends [OF less.prems, of t']
        by (auto simp: tracks_def holds_state_def values_of_def)
      note less.hyps [OF _ this]
      ultimately show "computes (extend_memory cs k (al_memory cur @ [v]))
         (\<lambda>ms vs t'. extends t t' \<and> cons t' = cons t \<and>
           tracks fin st' (mid\<lparr>st_memory := ms\<rparr>, ok) (cur\<lparr>al_memory := vs\<rparr>) t')
         (Ok (zero_extend k (st_memory mid @ [z]))) t'"
        using True by (auto simp: computes_def Suc_diff_le elim!: wp_mono intro: extends_trans)
    qed
    then show ?thesis
      using True by (subst extend_memory.simps) (simp add: step)
  next
    case False
    with less.prems len show ?thesis
      by (subst extend_memory.simps) (simp add: zero_extend_def computes_ret)
  qed
qed

lemma store_computes:
  assumes "tracks fin st' (mid, ok) cur t"
  shows "computes (synth_store cs k cur) (tracks fin st') (Ok (eval_store k (mid, ok))) t"
  using assms
proof (cases rule: pop_two_tracks)
  case Few
  with assms show ?thesis by (simp add: synth_store_def eval_store_def computes_ret)
next
  case (Two vx vy x y vs rest)
  let ?R = "\<lambda>ms us t'. extends t t' \<and> cons t' = cons t \<and>
    tracks fin st' (mid\<lparr>st_stack := rest, st_memory := ms\<rparr>, ok) (cur\<lparr>al_stack := vs, al_memory := us\<rparr>) t'"
  have memory: "computes (extend_memory cs k (al_memory cur)) ?R (Ok (zero_extend k (st_memory mid))) t"
    using extend_computes [of fin st' "mid\<lparr>st_stack := rest\<rparr>" ok "cur\<lparr>al_stack := vs\<rparr>" t k] Two(5)
    by simp
  have "computes (andthen (extend_memory cs k (al_memory cur)) (\<lambda>us.
      andthen (updates (cs_enforce cs [vy] [cs_one cs] [vx])) (\<lambda>_.
      ret (cur\<lparr>al_stack := vs, al_memory := us[k := vx]\<rparr>)))) (tracks fin st')
    (bind_outcome (Ok (zero_extend k (st_memory mid))) (\<lambda>ms.
      Ok (mid\<lparr>st_stack := rest, st_memory := ms[k := x]\<rparr>, ok \<and> y = x))) t"
  proof (rule computes_andthen [OF memory])
    fix ms us t'
    assume r: "?R ms us t'"
    then have "asg t' vx = Some x" "asg t' vy = Some y"
      using Two(2,3) by (auto simp: extends_def map_le_def dom_def)
    then have "tracks fin st' (mid\<lparr>st_stack := rest, st_memory := ms[k := x]\<rparr>, ok)
        (cur\<lparr>al_stack := vs, al_memory := us[k := vx]\<rparr>) t'"
      using r by (auto simp: tracks_def holds_state_def values_of_def map_update)
    from tracks_enforce [OF this \<open>asg t' vy = Some y\<close> one_value \<open>asg t' vx = Some x\<close>]
    show "computes (andthen (updates (cs_enforce cs [vy] [cs_one cs] [vx]))
        (\<lambda>_. ret (cur\<lparr>al_stack := vs, al_memory := us[k := vx]\<rparr>))) (tracks fin st')
      (Ok (mid\<lparr>st_stack := rest, st_memory := ms[k := x]\<rparr>, ok \<and> y = x)) t'"
      by (simp add: computes_def wp_simps)
  qed
  with Two(1,4) show ?thesis by (simp add: synth_store_def eval_store_def)
qed

lemma sha3_computes:
  assumes "tracks fin st' (mid, ok) cur t"
  shows "computes (synth_sha3 b H cs fld circ cur) (tracks fin st') (eval_sha3 b H fld circ (mid, ok)) t"
  using assms
proof (cases rule: pop_two_tracks)
  case Few
  with assms show ?thesis by (simp add: synth_sha3_def eval_sha3_def computes_ret)
next
  case (Two vx vy x y vs rest)
  have hashed: "computes (andthen (cs_alloc cs (sha3_value H fld circ input))
       (\<lambda>h. ret (push_var h (cur\<lparr>al_stack := vs\<rparr>)))) (tracks fin st')
     (bind_outcome (sha3_value H fld circ input) (\<lambda>h. Ok (mid\<lparr>st_stack := rest @ [h]\<rparr>, ok))) t" for input
  proof (rule computes_andthen [OF computes_alloc])
    fix h v t'
    assume "extends t t' \<and> cons t' = cons t \<and> asg t' v = Some h"
    with push_var_tracks [OF tracks_extends [OF Two(5)]]
    show "computes (ret (push_var v (cur\<lparr>al_stack := vs\<rparr>))) (tracks fin st')
        (Ok (mid\<lparr>st_stack := rest @ [h]\<rparr>, ok)) t'"
      by (fastforce intro: computes_ret)
  qed
  show ?thesis
    unfolding synth_sha3_def eval_sha3_def prod.case
    using Two(4) by (simp add: Two(1), intro computes_andthen [OF computes_lift]) (auto simp: hashed)
qed

lemma transition_computes:
  assumes "tracks fin st' r cur t"
  shows "computes (synth_transition b H cs fld (with_witness prog n st st0) fin k cur) (tracks fin st')
    (eval_transition b H fld (with_witness prog n st st0) st' k r) t"
  using assms
  by (cases r) (auto simp: synth_transition_def eval_transition_def computes_ret push_computes
      binary_computes store_computes sha3_computes split: option.split)

lemma opcode_computes:
  "computes (andthen (step_opcode fld (with_witness prog n st st0)) (\<lambda>opcode.
      cs_alloc cs (case opcode of None \<Rightarrow> Err AssignmentMissing | Some x \<Rightarrow> Ok x)))
    (\<lambda>_ _ t'. extends t t' \<and> cons t' = cons t) (initial_opcode fld prog st) t"
  unfolding step_opcode_def initial_opcode_def with_witness_sel option.case andthen_assoc andthen_ret_left
proof (rule computes_andthen [OF computes_lift])
  fix x y :: u8 and t'
  assume "x = y \<and> t' = t"
  then show "computes (cs_alloc cs (case if unat y < length prog
          then Some (from_u64 fld (ucast (prog ! unat y))) else None of
        None \<Rightarrow> Err AssignmentMissing | Some x \<Rightarrow> Ok x))
     (\<lambda>_ _ t'. extends t t' \<and> cons t' = cons t)
     (case index prog (unat x) of None \<Rightarrow> Err AssignmentMissing | Some opc \<Rightarrow> Ok opc) t'"
    unfolding computes_def by (auto simp: index_def intro!: wp_alloc)
qed

lemma step_computes:
  assumes "tracks fin st' r cur t"
  shows "computes (synth_step b H cs fld (with_witness prog n st st0) fin k cur) (tracks fin st')
    (bind_outcome (initial_opcode fld prog st)
      (\<lambda>_. eval_transition b H fld (with_witness prog n st st0) st' k r)) t"
  unfolding synth_step_def andthen_assoc [symmetric]
  by (rule computes_andthen [OF opcode_computes])
    (use assms in \<open>blast intro: transition_computes tracks_extends\<close>)

lemma steps_compute:
  "tracks fin st' r cur t \<Longrightarrow>
   computes (synth_steps b H cs fld (with_witness prog n st st') fin ks cur) (tracks fin st')
     (eval_steps b H fld prog st st' n ks r) t"
proof (induction ks arbitrary: r cur t)
  case (Cons k ks)
  have "computes (andthen (synth_step b H cs fld (with_witness prog n st st') fin k cur)
      (synth_steps b H cs fld (with_witness prog n st st') fin ks)) (tracks fin st')
    (bind_outcome (bind_outcome (initial_opcode fld prog st)
        (\<lambda>_. eval_transition b H fld (with_witness prog n st st') st' k r))
      (eval_steps b H fld prog st st' n ks)) t"
    by (rule computes_andthen [OF step_computes [OF Cons.prems]]) (rule Cons.IH)
  then show ?case
    by (cases "initial_opcode fld prog st") simp_all
qed (simp add: computes_ret)

lemma synthesis_computes:
  assumes "cons s = []"
  shows "computes (synthesize b H cs fld (with_witness prog n st st'))
    (\<lambda>good _ t. constraints_hold (asg t) (cons t) \<longleftrightarrow> good) (eval_circuit b H fld prog n st st') s"
  unfolding computes_def
proof (rule synthesize_parts)
  fix ini fin t
  assume "start_values s st st' ini fin t"
  with assms have "tracks fin st' (st, True) ini t"
    by (simp add: start_values_def tracks_def scoped_in_def)
  from steps_compute [OF this, of b H fld prog n st "[0..<unat n]", unfolded computes_def]
  show "wp (synth_steps b H cs fld (with_witness prog n st st') fin [0..<unat n] ini)
     (\<lambda>cur t'. \<exists>good. eval_circuit b H fld prog n st st' = Ok good \<and>
       (constraints_hold (asg (fold (enforce_equal cs) (final_pairs cur fin) t'))
         (cons (fold (enforce_equal cs) (final_pairs cur fin) t')) \<longleftrightarrow> good))
     (\<lambda>e _. eval_circuit b H fld prog n st st' = Err e)
     (\<lambda>p _. eval_circuit b H fld prog n st st' = Panic p) t"
  proof (rule wp_mono)
    fix cur t'
    assume "\<exists>r. eval_steps b H fld prog st st' n [0..<unat n] (st, True) = Ok r \<and> tracks fin st' r cur t'"
    then obtain mid ok where "eval_steps b H fld prog st st' n [0..<unat n] (st, True) = Ok (mid, ok)"
      "tracks fin st' (mid, ok) cur t'" by auto
    then show "\<exists>good. eval_circuit b H fld prog n st st' = Ok good \<and>
       (constraints_hold (asg (fold (enforce_equal cs) (final_pairs cur fin) t'))
         (cons (fold (enforce_equal cs) (final_pairs cur fin) t')) \<longleftrightarrow> good)"
      using final_state_checked [of t' cur mid fin st']
      by (auto simp: tracks_def eval_circuit_def final_verdict_def)
  qed (simp_all add: eval_circuit_def)
qed

end

section \<open>Properties\<close>

lemma synthesis_result:
  assumes "prover cs asg cons" and "cons s = []"
  shows "fst (synthesize b H cs fld (with_witness prog n st st') s) =
      bind_outcome (eval_circuit b H fld prog n st st') (\<lambda>_. Ok ()) \<and>
    (accepts b H cs fld asg cons s (with_witness prog n st st') \<longleftrightarrow>
      eval_circuit b H fld prog n st st' = Ok True)"
proof -
  show ?thesis
    using prover.synthesis_computes [OF assms, of b H fld prog n st st']
    by (auto simp: prover.computes_def [OF assms(1)] accepts_def wp_def split: prod.splits outcome.splits)
qed

text \<open>C15: Synthesis of a circuit with a witness, against any constraint system that does what a prover's
  does, is the evaluation of the program on field values: it returns, fails and panics exactly when
  the evaluator does, for every program and every number of steps, and the assignment it makes
  satisfies the constraints it records exactly when the evaluator's verdict is true.\<close>

theorem circuit_evaluates:
  assumes "prover cs asg cons" and "cons s = []"
  shows "fst (synthesize b H cs fld (with_witness prog n st st') s) =
      bind_outcome (eval_circuit b H fld prog n st st') (\<lambda>_. Ok ()) \<and>
    (accepts b H cs fld asg cons s (with_witness prog n st st') \<longleftrightarrow>
      eval_circuit b H fld prog n st st' = Ok True)"
  using assms by (rule synthesis_result)

text \<open>A second \<open>MUL\<close> assigns the product of the initial top elements again, while its constraint is
  about the current ones: 2, 3 and 5 cannot be multiplied in two steps. A \<open>PUSH\<close> at the end of the
  program panics.\<close>

theorem circuit_evaluates_witness:
  "(\<not> accepts Debug (\<lambda>_. []) list_cs field257_ops list_asg snd ([], [])
      (with_witness [0x03, 0x03] 2 (state257 [2, 3, 5] [] 0 9) (state257 [30] [] 0 9))) \<and>
   accepts Debug (\<lambda>_. []) list_cs field257_ops list_asg snd ([], [])
      (with_witness [0x03, 0x03] 2 (state257 [1, 3, 5] [] 0 9) (state257 [15] [] 0 9)) \<and>
   fst (synthesize Debug (\<lambda>_. []) list_cs field257_ops
      (with_witness [0x01] 2 (state257 [] [] 0 9) (state257 [1] [] 0 9)) ([], [])) = Panic IndexOutOfBounds"
proof -
  have steps: "[0..<2] = [0, Suc 0]" by (simp add: upt_conv_Cons)
  have opcode: "st_pc st = 0 \<Longrightarrow> initial_opcode field257_ops (op # prog) st = Ok op" for op prog st
    by (simp add: initial_opcode_def field257_ops_def byte_at_def index_def bit1.Rep_0)
  note eval = eval_circuit_def steps opcode eval_transition_def eval_binary_def eval_push_def
    push_value_def byte_at_def index_def pop_values_def binary_value_def from_top_cases
    final_verdict_def agree_def state257_def
  have "eval_circuit Debug (\<lambda>_. []) field257_ops [0x03, 0x03] 2 (state257 [2, 3, 5] [] 0 9)
      (state257 [30] [] 0 9) = Ok False"
    by (simp add: eval)
  moreover have "eval_circuit Debug (\<lambda>_. []) field257_ops [0x03, 0x03] 2 (state257 [1, 3, 5] [] 0 9)
      (state257 [15] [] 0 9) = Ok True"
    by (simp add: eval)
  moreover have "eval_circuit Debug (\<lambda>_. []) field257_ops [0x01] 2 (state257 [] [] 0 9)
      (state257 [1] [] 0 9) = Panic IndexOutOfBounds"
    by (simp add: eval)
  ultimately show ?thesis
    using circuit_evaluates [OF list_prover.prover_axioms, of "([], [])" Debug "\<lambda>_. []" field257_ops]
    by simp
qed

text \<open>The evaluator on the instructions, one step each.\<close>

lemma initial_opcode_there:
  "opcode_there fld prog (st_pc st) \<Longrightarrow> \<exists>opc. initial_opcode fld prog st = Ok opc"
  by (auto simp: opcode_there_def initial_opcode_def byte_at_def index_def split: list.splits)

lemma eval_transition_idle:
  assumes "\<And>opc. index (circuit_program circ) k = Some opc \<Longrightarrow> opc \<notin> {0x01, 0x02, 0x03, 0x04, 0x0E}"
  shows "eval_transition b H fld circ st' k r = Ok r"
  using assms by (cases "index (circuit_program circ) k") (simp_all add: eval_transition_def)

lemma eval_idle:
  assumes "opcode_there fld prog (st_pc st)"
    and "\<And>k opc. k \<in> set ks \<Longrightarrow> index prog k = Some opc \<Longrightarrow> opc \<notin> {0x01, 0x02, 0x03, 0x04, 0x0E}"
  shows "eval_steps b H fld prog st st' n ks r = Ok r"
  using assms(2)
proof (induction ks arbitrary: r)
  case (Cons k ks)
  obtain opc where "initial_opcode fld prog st = Ok opc"
    using initial_opcode_there [OF assms(1)] by blast
  moreover have "eval_transition b H fld (with_witness prog n st st') st' k r = Ok r"
    by (rule eval_transition_idle) (use Cons.prems in auto)
  moreover have "eval_steps b H fld prog st st' n ks r = Ok r"
    by (rule Cons.IH) (use Cons.prems in auto)
  ultimately show ?case by simp
qed simp

lemma eval_one:
  assumes "opcode_there fld prog (st_pc st)"
  shows "eval_circuit b H fld prog 1 st st' =
    bind_outcome (eval_transition b H fld (with_witness prog 1 st st') st' 0 (st, True))
      (\<lambda>r. Ok (final_verdict st' r))"
proof -
  have "[0..<unat (1 :: usize)] = [0]" by simp
  with initial_opcode_there [OF assms] show ?thesis
    by (cases "eval_transition b H fld (with_witness prog 1 st st') st' 0 (st, True)")
      (auto simp: eval_circuit_def)
qed

lemma binary_value_top:
  "st_stack st = xs @ [y, x] \<Longrightarrow> binary_value b f (with_witness prog n st st') = Ok (f x y)"
  by (simp add: binary_value_def from_top_cases nth_append)

text \<open>The circuit proves that nothing happened: a proof can only be made when the final program
  counter, gas and storage are the initial ones, whatever the program is. The variables of the
  current state that are compared with the final one are never replaced.\<close>

theorem circuit_freezes_machine:
  assumes "prover cs asg cons"
    and "accepts b H cs fld asg cons s (with_witness prog n st st')"
  shows "st_pc st' = st_pc st \<and> st_gas st' = st_gas st \<and> agree (st_storage st) (st_storage st')"
  by (rule prover.accepted_frame [OF assms])

text \<open>A circuit whose steps meet none of the opcodes it handles accepts exactly the pairs of
  states with the same program counter and gas whose stacks, memories and storages agree as far
  as both reach; the rest of the longer list is not constrained.\<close>

theorem idle_circuit_accepts:
  assumes "prover cs asg cons" and "cons s = []" and "opcode_there fld prog (st_pc st)"
    and "\<And>k opc. k < unat n \<Longrightarrow> index prog k = Some opc \<Longrightarrow> opc \<notin> {0x01, 0x02, 0x03, 0x04, 0x0E}"
  shows "accepts b H cs fld asg cons s (with_witness prog n st st') \<longleftrightarrow>
    st_pc st = st_pc st' \<and> st_gas st = st_gas st' \<and> agree (st_stack st) (st_stack st') \<and>
    agree (st_memory st) (st_memory st') \<and> agree (st_storage st) (st_storage st')"
proof -
  have "eval_steps b H fld prog st st' n [0..<unat n] (st, True) = Ok (st, True)"
    by (rule eval_idle [OF assms(3)]) (use assms(4) in auto)
  then show ?thesis
    by (simp add: synthesis_result [OF assms(1,2)] eval_circuit_def final_verdict_def)
qed

definition unmoved :: "'f circuit_state \<Rightarrow> 'f circuit_state \<Rightarrow> bool" where
  "unmoved st st' \<longleftrightarrow>
     st_pc st = st_pc st' \<and> st_gas st = st_gas st' \<and> agree (st_storage st) (st_storage st')"

text \<open>C19: What the constraints of one instruction say. \<open>ADD\<close> of the top elements \<open>x\<close> and \<open>y\<close> is
  provable only if their product is their sum, since the constraint multiplies what the assignment
  adds; \<open>MUL\<close> is provable with the product. \<open>STORE\<close> is provable only if address and value are
  equal, and puts the value at the index of the step, not at the address. \<open>PUSH\<close> appends the next
  program byte. All of them demand an unchanged program counter and gas.\<close>

theorem instruction_constraints:
  assumes "prover cs asg cons" and "cons s = []" and "st_stack st = xs @ [y, x]"
    and "opcode_there fld (u # v # rest) (st_pc st)"
  shows
    "(accepts b H cs fld asg cons s (with_witness (0x02 # v # rest) 1 st st') \<longleftrightarrow>
        x * y = x + y \<and> unmoved st st' \<and> agree (xs @ [x + y]) (st_stack st') \<and>
        agree (st_memory st) (st_memory st')) \<and>
     (accepts b H cs fld asg cons s (with_witness (0x03 # v # rest) 1 st st') \<longleftrightarrow>
        unmoved st st' \<and> agree (xs @ [x * y]) (st_stack st') \<and> agree (st_memory st) (st_memory st')) \<and>
     (accepts b H cs fld asg cons s (with_witness (0x04 # v # rest) 1 st st') \<longleftrightarrow>
        y = x \<and> unmoved st st' \<and> agree xs (st_stack st') \<and>
        agree ((zero_extend 0 (st_memory st))[0 := x]) (st_memory st')) \<and>
     (accepts b H cs fld asg cons s (with_witness (0x01 # v # rest) 1 st st') \<longleftrightarrow>
        unmoved st st' \<and> agree (st_stack st @ [from_u64 fld (ucast v)]) (st_stack st') \<and>
        agree (st_memory st) (st_memory st'))"
proof -
  have there: "opcode_there fld (op # v # rest) (st_pc st)" for op
    using assms(4) by (simp add: opcode_there_def split: list.splits)
  note eval = synthesis_result [OF assms(1,2), THEN conjunct2] eval_one [OF there]
  show ?thesis
    unfolding eval using assms(3)
    by (auto simp: eval_transition_def eval_binary_def eval_store_def eval_push_def push_value_def
        byte_at_def index_def binary_value_top final_verdict_def unmoved_def)
qed

theorem instruction_constraints_witness:
  "\<not> accepts Debug (\<lambda>_. []) list_cs field257_ops list_asg snd ([], [])
      (with_witness [0x02, 0xFF] 1 (state257 [3, 5] [0] 0 9) (state257 [8] [0] 0 9)) \<and>
   accepts Debug (\<lambda>_. []) list_cs field257_ops list_asg snd ([], [])
      (with_witness [0x03, 0xFF] 1 (state257 [3, 5] [0] 0 9) (state257 [15] [0] 0 9))"
proof -
  have "opcode_there field257_ops [0x00, 0xFF] (st_pc (state257 [3, 5] [0] 0 9))"
    by (simp add: state257_def)
  note * = instruction_constraints [OF list_prover.prover_axioms, of "([], [])" "state257 [3, 5] [0] 0 9"
      "[]" 3 5 field257_ops "0x00" "0xFF" "[]", OF _ _ this]
  show ?thesis
    using * [of Debug "\<lambda>_. []" "state257 [8] [0] 0 9"] * [of Debug "\<lambda>_. []" "state257 [15] [0] 0 9"]
    by (simp add: state257_def unmoved_def agree_def)
qed

theorem idle_circuit_accepts_witness:
  "accepts Debug (\<lambda>_. []) list_cs field257_ops list_asg snd ([], [])
      (with_witness [0xFF] 1000 (state257 [3] [] 0 9) (state257 [3, 77] [] 0 9)) \<and>
   \<not> accepts Debug (\<lambda>_. []) list_cs field257_ops list_asg snd ([], [])
      (with_witness [0xFF] 1000 (state257 [3] [] 0 9) (state257 [4] [] 0 9))"
proof -
  have there: "opcode_there field257_ops [0xFF] (st_pc (state257 [3] [] 0 9))"
    by (simp add: state257_def)
  have "opc \<notin> {0x01, 0x02, 0x03, 0x04, 0x0E}"
    if "k < unat (1000 :: usize)" "index [0xFF] k = Some opc" for k and opc :: u8
    using that by (auto simp: index_def split: if_splits)
  note * = idle_circuit_accepts [where n = 1000 and s = "([], [])" and b = Debug and H = "\<lambda>_. []",
      OF list_prover.prover_axioms _ there this]
  show ?thesis
    using * [where st' = "state257 [3, 77] [] 0 9"] * [where st' = "state257 [4] [] 0 9"]
    by (simp add: state257_def agree_def)
qed

theorem circuit_freezes_machine_witness:
  "st_gas (state257 [3, 77] [] 0 9) = st_gas (state257 [3] [] 0 (9 :: field257))"
proof -
  have there: "opcode_there field257_ops [0xFF] (st_pc (state257 [3] [] 0 9))"
    by (simp add: state257_def)
  have "opc \<notin> {0x01, 0x02, 0x03, 0x04, 0x0E}"
    if "k < unat (1000 :: usize)" "index [0xFF] k = Some opc" for k and opc :: u8
    using that by (auto simp: index_def split: if_splits)
  from idle_circuit_accepts [where n = 1000 and s = "([], [])" and b = Debug and H = "\<lambda>_. []"
      and st' = "state257 [3, 77] [] 0 9", OF list_prover.prover_axioms _ there this]
  have "accepts Debug (\<lambda>_. []) list_cs field257_ops list_asg snd ([], [])
      (with_witness [0xFF] 1000 (state257 [3] [] 0 9) (state257 [3, 77] [] 0 9))"
    by (simp add: state257_def agree_def)
  from circuit_freezes_machine [OF list_prover.prover_axioms this] show ?thesis by simp
qed

end
