(* ===== verification/Zkvm.thy ===== *)
theory Zkvm
  imports VM_Properties Proof_System Circuit_Evaluation
begin

text \<open>
  Model of \<open>src/lib.rs\<close>: the facade that owns a virtual machine, a proof system, the circuit that a
  proof consumes, and a record of the runs. It composes the models of \<open>src/vm.rs\<close>,
  \<open>src/circuit.rs\<close> and \<open>src/proof.rs\<close> the way the code composes them, and the properties here relate
  a run of the machine to what can be proved about it.
\<close>

section \<open>Model\<close>

datatype 'e zkvm_error =
  ZkVMError vm_error | ZkProofError 'e | ZkCircuitError 'e | ZkStateError string

record execution_step =
  step_opcode_byte :: u8
  stack_snapshot :: "val list"
  memory_snapshot :: "usize \<rightharpoonup> val"
  step_gas_cost :: u64

record zkvm_state =
  zs_gas_used :: u64
  execution_trace :: "execution_step list"
  zs_state_root :: "u8 list"

record ('f, 'par, 'vk, 'cc) zkvm =
  zk_program :: "u8 list"
  zk_context :: vm_context
  zk_system :: "('par, 'vk, 'cc) proof_system"
  zk_circuit :: "'f vm_circuit option"
  zk_state :: zkvm_state

definition zkvm_state_default :: zkvm_state where
  "zkvm_state_default =
     \<lparr>zs_gas_used = 0, execution_trace = [], zs_state_root = replicate 32 0\<rparr>"

definition vm_new :: "vm_context" where
  "vm_new = context_new 1000000"

definition zkvm_new ::
  "('f vm_circuit, 'r, 'par, 'vk, 'pf, 'f, 'e, 'cc) proof_env \<Rightarrow> 'r \<Rightarrow> u8 list \<Rightarrow>
   ('e zkvm_error, ('f, 'par, 'vk, 'cc) zkvm) outcome" where
  "zkvm_new E r prog =
     (let circ = vm_circuit_new prog 1000 in
      bind_outcome (map_err ZkProofError (setup_system E circ r)) (\<lambda>ps.
        Ok \<lparr>zk_program = prog, zk_context = vm_new, zk_system = ps, zk_circuit = Some circ,
            zk_state = zkvm_state_default\<rparr>))"

text \<open>What a successful run adds to the record: the getters of the machine after it.\<close>

definition record_run :: "vm_context \<Rightarrow> zkvm_state \<Rightarrow> zkvm_state" where
  "record_run c st =
     st\<lparr>zs_gas_used := get_gas_remaining c,
        zs_state_root := get_state_root c,
        execution_trace := execution_trace st @
          [\<lparr>step_opcode_byte = 0, stack_snapshot = get_stack c, memory_snapshot = get_memory c,
            step_gas_cost = 0\<rparr>]\<rparr>"

definition zkvm_execute ::
  "build \<Rightarrow> (u8 list \<Rightarrow> u8 list) \<Rightarrow> addr32 list \<Rightarrow> ('f, 'par, 'vk, 'cc) zkvm \<Rightarrow>
   (('e zkvm_error, unit) outcome \<times> ('f, 'par, 'vk, 'cc) zkvm) option" where
  "zkvm_execute b H ks z =
     (case vm_execute b H ks (zk_program z) (zk_context z) of
        None \<Rightarrow> None
      | Some (r, c) \<Rightarrow>
          (let z' = z\<lparr>zk_context := c\<rparr> in
           Some (case r of
               Ok _ \<Rightarrow> (Ok (), z'\<lparr>zk_state := record_run c (zk_state z')\<rparr>)
             | Err e \<Rightarrow> (Err (ZkVMError e), z')
             | Panic p \<Rightarrow> (Panic p, z'))))"

text \<open>\<open>Option::take\<close>, then the call of the proof system.\<close>

definition take_circuit ::
  "(('f, 'par, 'vk, 'cc) zkvm, 'e zkvm_error, 'f vm_circuit) comp" where
  "take_circuit =
     andthen (reads zk_circuit) (\<lambda>x.
     andthen (updates (\<lambda>z. z\<lparr>zk_circuit := None\<rparr>)) (\<lambda>_.
     ok_or (ZkStateError ''Circuit already consumed'') x))"

definition generate_proof ::
  "('f vm_circuit, 'r, 'par, 'vk, 'pf, 'f, 'e, 'cc) proof_env \<Rightarrow> 'r \<Rightarrow>
   (('f, 'par, 'vk, 'cc) zkvm, 'e zkvm_error, ('pf, 'f) proof_data) comp" where
  "generate_proof E r =
     andthen take_circuit (\<lambda>circ.
       zoom zk_system (\<lambda>ps z. z\<lparr>zk_system := ps\<rparr>) (mapping_err ZkProofError (prove E r circ)))"

definition verify_proof ::
  "('f vm_circuit, 'r, 'par, 'vk, 'pf, 'f, 'e, 'cc) proof_env \<Rightarrow> ('f, 'par, 'vk, 'cc) zkvm \<Rightarrow>
   ('pf, 'f) proof_data \<Rightarrow> ('e zkvm_error, bool) outcome" where
  "verify_proof E z d = map_err ZkProofError (verify E (zk_system z) d)"

definition batch_verify_proofs ::
  "('f vm_circuit, 'r, 'par, 'vk, 'pf, 'f, 'e, 'cc) proof_env \<Rightarrow> ('f, 'par, 'vk, 'cc) zkvm \<Rightarrow>
   ('pf, 'f) proof_data list \<Rightarrow> ('e zkvm_error, bool) outcome" where
  "batch_verify_proofs E z ds = map_err ZkProofError (batch_verify E (zk_system z) ds)"

text \<open>The getters of the facade read the record.\<close>

definition get_execution_trace :: "('f, 'par, 'vk, 'cc) zkvm \<Rightarrow> execution_step list" where
  "get_execution_trace z = execution_trace (zk_state z)"

definition zk_get_state_root :: "('f, 'par, 'vk, 'cc) zkvm \<Rightarrow> u8 list" where
  "zk_get_state_root z = zs_state_root (zk_state z)"

definition get_gas_used :: "('f, 'par, 'vk, 'cc) zkvm \<Rightarrow> u64" where
  "get_gas_used z = zs_gas_used (zk_state z)"

text \<open>A facade after any calls.\<close>

inductive zk_reachable ::
  "build \<Rightarrow> (u8 list \<Rightarrow> u8 list) \<Rightarrow> ('f vm_circuit, 'r, 'par, 'vk, 'pf, 'f, 'e, 'cc) proof_env \<Rightarrow>
   u8 list \<Rightarrow> ('f, 'par, 'vk, 'cc) zkvm \<Rightarrow> bool"
  for b H E prog where
  zk_new: "zkvm_new E r prog = Ok z \<Longrightarrow> zk_reachable b H E prog z"
| zk_exec: "zk_reachable b H E prog z \<Longrightarrow>
     zkvm_execute b H ks z = Some (res :: ('e zkvm_error, unit) outcome, z') \<Longrightarrow>
     zk_reachable b H E prog z'"
| zk_prove: "zk_reachable b H E prog z \<Longrightarrow> generate_proof E r z = (res, z') \<Longrightarrow>
     zk_reachable b H E prog z'"

section \<open>Runs and their record\<close>

text \<open>What \<open>ZKVM::execute\<close> does. It returns on every program. A run that fails or panics leaves the
  record as it was. One that succeeds appends one entry to the trace, with the final stack and
  memory, and stores the machine's root and, as the gas used, the gas that is left: what was used is
  the difference to the gas before, the sum of the costs of the executed opcodes.\<close>

theorem execution_record:
  fixes z :: "('f, 'par, 'vk, 'cc) zkvm"
  assumes "vec_bounded (zk_program z)"
  shows "\<exists>res z'. zkvm_execute b H ks z = Some (res :: ('e zkvm_error, unit) outcome, z') \<and>
    zk_circuit z' = zk_circuit z \<and> zk_system z' = zk_system z \<and>
    (if res = Ok () then
       zs_state_root (zk_state z') = state_root (zk_context z') \<and>
       length (execution_trace (zk_state z')) = Suc (length (execution_trace (zk_state z))) \<and>
       stack_snapshot (last (execution_trace (zk_state z'))) = stack (zk_context z') \<and>
       (\<exists>ops d. completes b H (zk_program z) (zk_context z) ops d \<and>
          unat (gas_remaining (zk_context z)) = unat (zs_gas_used (zk_state z')) +
            sum_list (map (opcode_cost (gas_config (zk_context z))) ops))
     else zk_state z' = zk_state z)"
proof -
  obtain r c where run: "vm_execute b H ks (zk_program z) (zk_context z) = Some (r, c)"
    using vm_execute_total [OF assms] by blast
  define paid where "paid z' \<longleftrightarrow> (\<exists>ops d. completes b H (zk_program z) (zk_context z) ops d \<and>
      unat (gas_remaining (zk_context z)) = unat (zs_gas_used (zk_state z')) +
        sum_list (map (opcode_cost (gas_config (zk_context z))) ops))" for z' :: "('f, 'par, 'vk, 'cc) zkvm"
  show ?thesis
  proof (cases r)
    case (Ok u)
    with run have ok: "vm_execute b H ks (zk_program z) (zk_context z) = Some (Ok (), c)" by simp
    let ?z = "z\<lparr>zk_context := c, zk_state := record_run c (zk_state z)\<rparr>"
    have "paid ?z"
      unfolding paid_def using run_gas [OF assms ok] by (auto simp: record_run_def)
    then show ?thesis
      unfolding paid_def [symmetric]
      by (intro exI [of _ "Ok ()"] exI [of _ ?z]) (simp add: zkvm_execute_def ok Let_def record_run_def)
  qed (use run in \<open>auto simp: zkvm_execute_def Let_def\<close>)
qed

section \<open>Proving what was run\<close>

text \<open>A witness for a run: the circuit's states carry the gas of the machine's contexts.\<close>

definition carries_gas :: "'f field_ops \<Rightarrow> vm_context \<Rightarrow> 'f circuit_state \<Rightarrow> bool" where
  "carries_gas fld c st \<longleftrightarrow> st_gas st = from_u64 fld (gas_remaining c)"

text \<open>C14: No run that executes an instruction can be proved. The circuit only accepts states with equal
  gas, while every instruction costs some; so whatever witness carries the gas before and after the
  run (and the field tells the two amounts apart), the circuit rejects it, for every program, every
  number of steps and every choice of the other values.\<close>

theorem runs_unprovable:
  assumes "prover cs asg cons" and "vec_bounded prog"
    and "vm_execute b H ks prog c = Some (Ok (), c')"
    and "gas_config c = gas_config_default" and "vm_running prog c"
    and "carries_gas fld c st" and "carries_gas fld c' st'"
    and "from_u64 fld (gas_remaining c') = from_u64 fld (gas_remaining c) \<Longrightarrow>
      gas_remaining c' = gas_remaining c"
  shows "\<not> accepts b' H' cs fld asg cons s (with_witness prog n st st')"
proof
  assume "accepts b' H' cs fld asg cons s (with_witness prog n st st')"
  from prover.accepted_frame [OF assms(1) this] assms(6,7)
  have "from_u64 fld (gas_remaining c') = from_u64 fld (gas_remaining c)" by (simp add: carries_gas_def)
  then have same: "gas_remaining c' = gas_remaining c" by (rule assms(8))
  obtain ops d where comp: "completes b H prog c ops d" and
    gas: "unat (gas_remaining c) = unat (gas_remaining c') +
      sum_list (map (opcode_cost (gas_config c)) ops)"
    using run_gas [OF assms(2,3)] by blast
  from comp assms(5) obtain opc ops' where "ops = opc # ops'" by cases auto
  with gas same assms(4) default_cost_at_least_2 [of opc] show False by simp
qed

text \<open>A library that proves by synthesising the circuit in a prover's constraint system, and passes on
  its errors and panics.\<close>

definition proves_by_synthesis ::
  "('f :: comm_ring_1 vm_circuit, 'r, 'par, 'vk, 'pf, 'f, 'e, 'cc) proof_env \<Rightarrow> build \<Rightarrow>
   (u8 list \<Rightarrow> u8 list) \<Rightarrow> ('s, 'v, 'f) constraint_system \<Rightarrow> 'f field_ops \<Rightarrow> 's \<Rightarrow>
   (synthesis_error \<Rightarrow> 'e) \<Rightarrow> bool" where
  "proves_by_synthesis E b H cs fld s wrap \<longleftrightarrow>
     (\<forall>circ par r.
        (case fst (synthesize b H cs fld circ s) of
           Ok _ \<Rightarrow> True
         | Err e \<Rightarrow> create_proof E circ par r = Err (wrap e)
         | Panic p \<Rightarrow> create_proof E circ par r = Panic p))"

lemma generate_proof_wp:
  "wp (generate_proof E r) Q F G z =
     (case zk_circuit z of
        None \<Rightarrow> F (ZkStateError ''Circuit already consumed'') (z\<lparr>zk_circuit := None\<rparr>)
      | Some circ \<Rightarrow>
          wp (prove E r circ) (\<lambda>d ps. Q d (z\<lparr>zk_circuit := None, zk_system := ps\<rparr>))
            (\<lambda>e ps. F (ZkProofError e) (z\<lparr>zk_circuit := None, zk_system := ps\<rparr>))
            (\<lambda>p ps. G p (z\<lparr>zk_circuit := None, zk_system := ps\<rparr>)) (zk_system z))"
  by (auto simp: generate_proof_def take_circuit_def mapping_err_def zoom_def wp_def andthen_def
      split: option.split prod.split outcome.split)

lemma zk_reachable_circuit:
  assumes "zk_reachable b H E prog z"
  shows "zk_circuit z \<in> {None, Some (vm_circuit_new prog 1000)}"
  using assms
proof induction
  case (zk_new r z)
  then show ?case by (auto simp: zkvm_new_def Let_def bind_outcome_eq_Ok)
next
  case (zk_exec z ks res z')
  then show ?case
    by (auto simp: zkvm_execute_def Let_def split: option.splits prod.splits outcome.splits)
next
  case (zk_prove z r res z')
  have "wp (generate_proof E r) (\<lambda>_ z'. zk_circuit z' = None) (\<lambda>_ z'. zk_circuit z' = None)
      (\<lambda>_ z'. zk_circuit z' = None) z"
    by (simp add: generate_proof_wp wp_prove split: option.split outcome.split)
  from wp_all [OF this zk_prove(2)] show ?case by simp
qed

lemma generate_proof_fails:
  assumes "prover cs asg cons" and "proves_by_synthesis E b H cs fld s wrap"
    and "zk_reachable b' H' E prog z" and "generate_proof E r z = (res, z')"
  shows "res = Err (if zk_circuit z = None then ZkStateError ''Circuit already consumed''
      else ZkProofError (wrap AssignmentMissing)) \<and>
    z' = z\<lparr>zk_circuit := None\<rparr>"
proof -
  have err: "create_proof E (vm_circuit_new prog 1000) par r = Err (wrap AssignmentMissing)" for par
    using assms(2) [unfolded proves_by_synthesis_def, rule_format, of "vm_circuit_new prog 1000" par r]
    by (simp add: prover.witnessless_fails [OF assms(1)])
  have "wp (generate_proof E r) (\<lambda>_ _. False)
      (\<lambda>e z'. e = (if zk_circuit z = None then ZkStateError ''Circuit already consumed''
        else ZkProofError (wrap AssignmentMissing)) \<and> z' = z\<lparr>zk_circuit := None\<rparr>) (\<lambda>_ _. False) z"
    using zk_reachable_circuit [OF assms(3)] by (auto simp: generate_proof_wp wp_prove err)
  with assms(4) show ?thesis by (cases res) (auto simp: wp_def)
qed

text \<open>C18: The facade never produces a proof. Its circuit has no witness, so the first call of
  \<open>generate_proof\<close> ends with the error of the missing assignment, whatever was executed before, and
  uses the circuit up; every later call ends with \<open>Circuit already consumed\<close>. Nothing is cached.\<close>

theorem zkvm_never_proves:
  assumes "prover cs asg cons" and "proves_by_synthesis E b H cs fld s wrap"
    and "zk_reachable b' H' E prog z" and "generate_proof E r z = (res, z')"
  shows "res = Err (if zk_circuit z = None then ZkStateError ''Circuit already consumed''
      else ZkProofError (wrap AssignmentMissing)) \<and>
    z' = z\<lparr>zk_circuit := None\<rparr>"
  using assms by (rule generate_proof_fails)

lemma short_stack_product:
  "length (st_stack st) < 2 \<Longrightarrow> binary_value b f (with_witness prog n st st') =
     Panic (wrap_panic b)"
  by (auto simp: binary_value_def with_witness_def from_top_cases not_less)

lemma example_panics:
  assumes "opcode_there fld main_program (st_pc st)" and "length (st_stack st) < 2" and "4 \<le> unat n"
  shows "eval_circuit b H fld main_program n st st' = Panic (wrap_panic b)"
proof -
  have steps: "[0..<unat n] = 0 # 1 # 2 # 3 # [4..<unat n]"
    using assms(3) by (simp add: upt_conv_Cons numeral_eq_Suc)
  have bytes: "index main_program 0 = Some 0x01" "index main_program (Suc 0) = Some 0x05"
    "index main_program 2 = Some 0x01" "index main_program 3 = Some 0x03"
    by (simp_all add: main_program_def index_def)
  obtain opc where "initial_opcode fld main_program st = Ok opc"
    using initial_opcode_there [OF assms(1)] by blast
  then show ?thesis
    by (simp add: eval_circuit_def steps eval_transition_def eval_push_def eval_binary_def push_value_def
        byte_at_def bytes short_stack_product [OF assms(2)] pop_values_def)
qed

text \<open>Even with a witness, the program of \<open>src/main.rs\<close> cannot be proved from a machine's initial
  state. The synthesis takes the operand 3 of the second \<open>PUSH\<close> for a \<open>MUL\<close>, since it reads the
  program byte by byte, and the assignment looks for the factors on the initial stack, which is
  empty: it panics, in a debug build on the subtraction, in a release build on the index.\<close>

theorem example_witness_panics:
  assumes "prover cs asg cons" and "cons s = []" and "opcode_there fld main_program (st_pc st)"
    and "length (st_stack st) < 2" and "4 \<le> unat n"
  shows "fst (synthesize b H cs fld (with_witness main_program n st st') s) =
    Panic (wrap_panic b)"
  by (simp add: synthesis_result [OF assms(1,2)] example_panics [OF assms(3-5)])

section \<open>Witnesses\<close>

theorem example_witness_panics_witness:
  "fst (synthesize Debug (\<lambda>_. []) list_cs field257_ops
      (with_witness main_program 1000 (state257 [] [] 0 9) (state257 [16] [] 11 9)) ([], [])) =
    Panic ArithmeticOverflow"
proof -
  have there: "opcode_there field257_ops main_program (st_pc (state257 [] [] 0 9))"
    by (simp add: state257_def main_program_def)
  have "fst (synthesize Debug (\<lambda>_. []) list_cs field257_ops
      (with_witness main_program 1000 (state257 [] [] 0 9) (state257 [16] [] 11 9)) ([], [])) =
    Panic (wrap_panic Debug)"
    by (rule example_witness_panics [OF list_prover.prover_axioms _ there]) (simp_all add: state257_def)
  then show ?thesis by (simp add: wrap_panic_def)
qed

theorem runs_unprovable_witness:
  "\<exists>c'. vm_execute Release zero_digest [] [0x01, 5, 0xFF] (context_new 1000) = Some (Ok (), c') \<and>
    \<not> accepts Release (\<lambda>_. []) list_cs field257_ops list_asg snd ([], [])
      (with_witness [0x01, 5, 0xFF] 1000 (state257 [] [] 0 229) (state257 [5] [] 2 224))"
proof -
  obtain c' where run: "vm_execute Release zero_digest [] [0x01, 5, 0xFF] (context_new 1000) = Some (Ok (), c')"
    and gas: "gas_remaining c' = 995"
    using push_stop_run by blast
  have bounded: "vec_bounded [0x01 :: u8, 5, 0xFF]" by (simp add: vec_bounded_def)
  have gas': "gas_remaining (context_new 1000) = 1000" by (simp add: context_new_def)
  have codes: "from_u64 field257_ops 1000 = 229" "from_u64 field257_ops 995 = 224"
    by (simp_all add: field257_ops_def)
  have "\<not> accepts Release (\<lambda>_. []) list_cs field257_ops list_asg snd ([], [])
      (with_witness [0x01, 5, 0xFF] 1000 (state257 [] [] 0 229) (state257 [5] [] 2 224))"
    by (rule runs_unprovable [OF list_prover.prover_axioms bounded run])
      (simp_all add: carries_gas_def gas gas' codes state257_def vm_running_def context_new_def)
  with run show ?thesis by blast
qed

text \<open>A library that synthesises the circuit in the list constraint system and hands the assignment
  out as the proof.\<close>

definition synthesis_env ::
  "(field257 vm_circuit, unit, unit, unit, field257 list, field257, synthesis_error,
    (digest, field257 list) lru_cache) proof_env" where
  "synthesis_env =
     \<lparr>generate_parameters = (\<lambda>_ _. Ok ()), params_vk = (\<lambda>_. ()),
      create_proof = (\<lambda>circ _ _.
        case synthesize Debug (\<lambda>_. []) list_cs field257_ops circ ([], []) of
          (Ok _, s) \<Rightarrow> Ok (fst s) | (Err e, _) \<Rightarrow> Err e | (Panic p, _) \<Rightarrow> Panic p),
      check_proof = (\<lambda>_ _ _. Ok False),
      proof_a = (\<lambda>_. []), proof_b = (\<lambda>_. []), proof_c = (\<lambda>_. []),
      input_bytes = (\<lambda>_. []), blake2s = (\<lambda>xs. xs),
      cache_new = lru_new, cache_put = lru_insert, cache_find = (\<lambda>h c. cached c h)\<rparr>"

lemma synthesis_env_synthesises:
  "proves_by_synthesis synthesis_env Debug (\<lambda>_. []) list_cs field257_ops ([], []) (\<lambda>e. e)"
  by (auto simp: proves_by_synthesis_def synthesis_env_def split: outcome.split prod.split)

definition sample_zkvm ::
  "(field257, unit, unit, (digest, field257 list) lru_cache) zkvm" where
  "sample_zkvm =
     \<lparr>zk_program = [0x01, 5, 0xFF], zk_context = vm_new,
      zk_system = \<lparr>params = (), verifying_key = (), proof_cache = lru_new 1000\<rparr>,
      zk_circuit = Some (vm_circuit_new [0x01, 5, 0xFF] 1000), zk_state = zkvm_state_default\<rparr>"

lemma sample_zkvm_new: "zkvm_new synthesis_env () [0x01, 5, 0xFF] = Ok sample_zkvm"
  by (simp add: zkvm_new_def setup_system_def synthesis_env_def sample_zkvm_def)

theorem zkvm_never_proves_witness:
  "fst (generate_proof synthesis_env () sample_zkvm) = Err (ZkProofError AssignmentMissing)"
proof -
  obtain res z' where res: "generate_proof synthesis_env () sample_zkvm = (res, z')" by fastforce
  have "zk_reachable Debug zero_digest synthesis_env [0x01, 5, 0xFF] sample_zkvm"
    using sample_zkvm_new by (rule zk_new)
  from zkvm_never_proves [OF list_prover.prover_axioms synthesis_env_synthesises this res] res
  show ?thesis by (simp add: sample_zkvm_def)
qed

theorem execution_record_witness:
  "\<exists>res z'. zkvm_execute Release zero_digest [] sample_zkvm = Some (res :: (unit zkvm_error, unit) outcome, z') \<and>
     zk_circuit z' = zk_circuit sample_zkvm"
proof -
  have "vec_bounded (zk_program sample_zkvm)" by (simp add: sample_zkvm_def vec_bounded_def)
  from execution_record [OF this, where b = Release and H = zero_digest and ks = "[]" and 'e = unit]
  show ?thesis by auto
qed

end
