(* ===== verification/Machine_Tests.thy ===== *)
theory Machine_Tests
  imports Zkvm
begin

text \<open>
  The tests of the machine, \<open>tests/vm_tests.rs\<close> and \<open>test_vm_execution\<close> of \<open>src/lib.rs\<close>, on the
  model: each test is a predicate that says whether it passes, with the bytes and the assertions of
  its source, and \<open>machine_test_results\<close> decides all of them, in both builds and for every hash
  function with 64-byte digests.
\<close>

section \<open>The tests\<close>

text \<open>\<open>VM::new(program)\<close>, then \<open>execute()\<close>: an assertion on the machine after a normal end, or on the
  error.\<close>

definition run_program :: "build \<Rightarrow> (u8 list \<Rightarrow> u8 list) \<Rightarrow> u8 list \<Rightarrow>
    ((vm_error, unit) outcome \<times> vm_context) option" where
  "run_program b H prog = vm_execute b H [] prog vm_new"

definition passes_ok :: "(vm_context \<Rightarrow> bool) \<Rightarrow> ((vm_error, unit) outcome \<times> vm_context) option \<Rightarrow> bool" where
  "passes_ok P run = (case run of Some (Ok _, c) \<Rightarrow> P c | _ \<Rightarrow> False)"

definition passes_err :: "(vm_error \<Rightarrow> bool) \<Rightarrow> ((vm_error, unit) outcome \<times> vm_context) option \<Rightarrow> bool" where
  "passes_err P run = (case run of Some (Err e, _) \<Rightarrow> P e | _ \<Rightarrow> False)"

definition is_int :: "i64 \<Rightarrow> val option \<Rightarrow> bool" where
  "is_int n v = (case v of Some (VInt i) \<Rightarrow> i = n | _ \<Rightarrow> False)"

definition test_basic_arithmetic :: "build \<Rightarrow> (u8 list \<Rightarrow> u8 list) \<Rightarrow> bool" where
  "test_basic_arithmetic b H =
     passes_ok (\<lambda>c. length (get_stack c) = 1 \<and> is_int 16 (index (get_stack c) 0))
       (run_program b H [0x01, 0x05, 0x01, 0x03, 0x02, 0x01, 0x02, 0x03, 0xFF])"

definition test_memory_operations :: "build \<Rightarrow> (u8 list \<Rightarrow> u8 list) \<Rightarrow> bool" where
  "test_memory_operations b H =
     passes_ok (\<lambda>c. length (get_stack c) = 1 \<and> is_int 97 (index (get_stack c) 0) \<and>
         map_len (get_memory c) = 2 \<and> is_int 42 (get_memory c 0) \<and> is_int 55 (get_memory c 1))
       (run_program b H [0x01, 0x2A, 0x04, 0x00, 0x01, 0x37, 0x04, 0x01, 0x05, 0x00, 0x05, 0x01, 0x02, 0xFF])"

definition test_stack_underflow :: "build \<Rightarrow> (u8 list \<Rightarrow> u8 list) \<Rightarrow> bool" where
  "test_stack_underflow b H = passes_err (\<lambda>e. e = StackUnderflow) (run_program b H [0x02, 0xFF])"

definition test_stack_overflow :: "build \<Rightarrow> (u8 list \<Rightarrow> u8 list) \<Rightarrow> bool" where
  "test_stack_overflow b H =
     passes_err (\<lambda>e. e = StackOverflow)
       (run_program b H (concat (map (\<lambda>i. [0x01, of_nat i]) [0..<1025]) @ [0xFF]))"

definition test_invalid_opcode :: "build \<Rightarrow> (u8 list \<Rightarrow> u8 list) \<Rightarrow> bool" where
  "test_invalid_opcode b H =
     passes_err (\<lambda>e. case e of InvalidOpcode _ \<Rightarrow> True | _ \<Rightarrow> False) (run_program b H [0xFE, 0xFF])"

definition test_gas_accounting :: "build \<Rightarrow> (u8 list \<Rightarrow> u8 list) \<Rightarrow> bool" where
  "test_gas_accounting b H =
     passes_ok (\<lambda>c. 1000000 - get_gas_remaining c = 31)
       (run_program b H [0x01, 0x05, 0x01, 0x03, 0x02, 0x04, 0x00, 0xFF])"

definition created_code :: "u8 list" where
  "created_code = [0x01, 0x05, 0x01, 0x03, 0x02, 0xFF]"

definition test_contract_creation :: "build \<Rightarrow> (u8 list \<Rightarrow> u8 list) \<Rightarrow> bool" where
  "test_contract_creation b H =
     passes_ok (\<lambda>c. length (get_stack c) = 2 \<and>
         (case get_stack c ! 0 of
            VContract k \<Rightarrow> contract_code k = created_code \<and> contract_balance k = 100
          | _ \<Rightarrow> False))
       (run_program b H ([0x01, of_nat (length created_code), 0x01, 0x64, 0x0B] @ created_code @ [0xFF]))"

definition called_code :: "u8 list" where
  "called_code = [0x01, 0x05, 0x01, 0x03, 0x02, 0x0D, 0xFF]"

text \<open>The test reads the frames with \<open>get_call_frames\<close>, which \<open>VM\<close> does not have; here they are those of
  the context.\<close>

definition test_contract_call :: "build \<Rightarrow> (u8 list \<Rightarrow> u8 list) \<Rightarrow> bool" where
  "test_contract_call b H =
     passes_ok (\<lambda>c. length (call_stack c) = 1 \<and> return_data (call_stack c ! 0) = [8])
       (run_program b H ([0x01, of_nat (length called_code), 0x01, 0x64, 0x0B] @ called_code @
          [0x01, 0x0A, 0x01, 0x00, 0x0C, 0xFF]))"

definition test_sha3_hash :: "build \<Rightarrow> (u8 list \<Rightarrow> u8 list) \<Rightarrow> bool" where
  "test_sha3_hash b H =
     passes_ok (\<lambda>c. length (get_stack c) = 1 \<and>
         (case get_stack c ! 0 of VBytes h \<Rightarrow> length h = 32 | _ \<Rightarrow> False))
       (run_program b H [0x01, 0x05, 0x04, 0x00, 0x01, 0x20, 0x01, 0x00, 0x0E, 0xFF])"

definition test_state_root :: "build \<Rightarrow> (u8 list \<Rightarrow> u8 list) \<Rightarrow> bool" where
  "test_state_root b H =
     passes_ok (\<lambda>c. get_state_root c \<noteq> replicate 32 0)
       (run_program b H [0x01, 0x05, 0x04, 0x00, 0x01, 0x03, 0x04, 0x01, 0xFF])"

definition test_vm_execution :: "build \<Rightarrow> (u8 list \<Rightarrow> u8 list) \<Rightarrow> bool" where
  "test_vm_execution b H =
     passes_ok (\<lambda>c. get_stack c \<noteq> [] \<and> is_int 8 (index (get_stack c) 0))
       (run_program b H [0x01, 0x05, 0x01, 0x03, 0x02, 0x04, 0x00, 0x05, 0x00, 0xFF])"

section \<open>Their results\<close>

text \<open>A run is evaluated on the interpreter, which needs no program counter.\<close>

definition fresh_machine :: machine where
  "fresh_machine = \<lparr>mc_stack = [], mc_memory = Map.empty, mc_frames = [], mc_gas = 1000000\<rparr>"

definition interp_program :: "build \<Rightarrow> (u8 list \<Rightarrow> u8 list) \<Rightarrow> u8 list \<Rightarrow> (vm_error, unit) outcome \<times> machine" where
  "interp_program b H prog = interp b H gas_config_default prog prog fresh_machine"

lemma run_program_interp:
  assumes "vec_bounded prog"
  shows "\<exists>r c. run_program b H prog = Some (r, c) \<and> interp_program b H prog = (r, machine_of c)"
  using execute_interp [OF assms, of b H "[]" vm_new]
  by (simp add: run_program_def interp_program_def fresh_machine_def vm_new_def context_new_def
      bytes_left_def machine_of_def)

lemma passes_when_failed:
  assumes "vec_bounded prog" and "fst (interp_program b H prog) = Err e"
  shows "\<not> passes_ok P (run_program b H prog)" and "passes_err Q (run_program b H prog) = Q e"
  using run_program_interp [OF assms(1), of b H] assms(2) by (auto simp: passes_ok_def passes_err_def)

lemma passes_when_ended:
  assumes "vec_bounded prog" and "fst (interp_program b H prog) = Ok ()"
  shows "passes_ok (\<lambda>c. P (get_stack c)) (run_program b H prog) =
    P (rev (mc_stack (snd (interp_program b H prog))))"
  using run_program_interp [OF assms(1), of b H] assms(2) by (auto simp: passes_ok_def)

lemmas interp_eval =
  i_step_def i_exec_def i_push_def i_arith_def i_store_def i_create_def i_call_def i_int_def
  i_value_def i_address_def i_pay_def i_put_def andthen_def lift_outcome_def program_bytes_def
  op_price_def default_op_cost_def gas_config_default_def interp_program_def fresh_machine_def

text \<open>Many pushes fill the stack up to its limit.\<close>

lemma interp_pushes:
  assumes "3 * length xs \<le> mc_gas m" and "length (mc_stack m) + length xs \<le> 1024"
  shows "interp b H gas_config_default prog (concat (map (\<lambda>x. [0x01, x]) xs) @ rest) m =
    interp b H gas_config_default prog rest
      (m\<lparr>mc_stack := rev (map (\<lambda>x. VInt (ucast x)) xs) @ mc_stack m, mc_gas := mc_gas m - 3 * length xs\<rparr>)"
  using assms
proof (induction xs arbitrary: m)
  case (Cons x xs)
  have "i_step b H gas_config_default prog 0x01 (x # concat (map (\<lambda>x. [0x01, x]) xs) @ rest) m =
      (Ok (concat (map (\<lambda>x. [0x01, x]) xs) @ rest), pushed (ucast x) 3 m)"
    using Cons.prems
    by (simp add: i_step_def i_pay_def i_exec_def i_push_def andthen_def pushed_def machine_update_order)
  then show ?case
    using Cons.IH [of "pushed (ucast x) 3 m"] Cons.prems by (simp add: pushed_def)
qed simp

lemma overflow_program:
  "fst (interp_program b H (concat (map (\<lambda>i. [0x01, of_nat i]) [0..<1025]) @ [0xFF])) = Err StackOverflow"
proof -
  let ?xs = "map of_nat [0..<1024] :: u8 list" and ?x = "of_nat 1024 :: u8"
  let ?m = "fresh_machine"
  let ?full = "?m\<lparr>mc_stack := rev (map (\<lambda>x. VInt (ucast x)) ?xs) @ mc_stack ?m,
    mc_gas := mc_gas ?m - 3 * length ?xs\<rparr>"
  have "[0..<1025] = [0..<1024] @ [1024]" by (simp add: upt_Suc_append [of 0 1024, simplified])
  then have prog: "concat (map (\<lambda>i. [0x01, of_nat i]) [0..<1025]) @ [0xFF :: u8] =
      concat (map (\<lambda>x. [0x01, x]) ?xs) @ [0x01, ?x, 0xFF]"
    by (simp add: comp_def)
  have "interp b H gas_config_default prog (concat (map (\<lambda>x. [0x01, x]) ?xs) @ [0x01, ?x, 0xFF]) ?m =
      interp b H gas_config_default prog [0x01, ?x, 0xFF] ?full" for prog
    by (rule interp_pushes) (simp_all add: fresh_machine_def)
  moreover have "length (mc_stack ?full) = 1024" "3 \<le> mc_gas ?full" by (simp_all add: fresh_machine_def)
  then have "i_step b H gas_config_default prog 0x01 [?x, 0xFF] ?full =
      (Err StackOverflow, ?full\<lparr>mc_gas := mc_gas ?full - 3\<rparr>)" for prog
    by (simp add: i_step_def i_pay_def i_exec_def i_push_def andthen_def)
  then have "interp b H gas_config_default prog [0x01, ?x, 0xFF] ?full =
      (Err StackOverflow, ?full\<lparr>mc_gas := mc_gas ?full - 3\<rparr>)" for prog
    by (simp only: interp.simps(2)) simp
  ultimately show ?thesis unfolding prog interp_program_def by (simp only: fst_conv)
qed

lemma add_mul_results: "add_s b (5 :: i64) 3 = Some 8" "mul_s b (8 :: i64) 2 = Some 16"
  by (simp_all add: add_s_def mul_s_def)

lemma failing_runs:
  "fst (interp_program b H [0x01, 0x2A, 0x04, 0x00, 0x01, 0x37, 0x04, 0x01, 0x05, 0x00, 0x05, 0x01, 0x02, 0xFF]) =
     Err StackUnderflow"
  "fst (interp_program b H [0x01, 0x05, 0x01, 0x03, 0x02, 0x04, 0x00, 0xFF]) = Err StackUnderflow"
  "fst (interp_program b H [0x01, 0x05, 0x04, 0x00, 0x01, 0x20, 0x01, 0x00, 0x0E, 0xFF]) = Err StackUnderflow"
  "fst (interp_program b H [0x01, 0x05, 0x04, 0x00, 0x01, 0x03, 0x04, 0x01, 0xFF]) = Err StackUnderflow"
  "fst (interp_program b H [0x01, 0x05, 0x01, 0x03, 0x02, 0x04, 0x00, 0x05, 0x00, 0xFF]) = Err StackUnderflow"
  "fst (interp_program b H [0x02, 0xFF]) = Err StackUnderflow"
  "fst (interp_program b H [0xFE, 0xFF]) = Err (InvalidOpcode 0xFE)"
  "fst (interp_program b H ([0x01, of_nat (length called_code), 0x01, 0x64, 0x0B] @ called_code @
     [0x01, 0x0A, 0x01, 0x00, 0x0C, 0xFF])) = Err StackUnderflow"
  by (simp_all add: interp_eval add_mul_results called_code_def)

lemma ending_runs:
  "fst (interp_program b H [0x01, 0x05, 0x01, 0x03, 0x02, 0x01, 0x02, 0x03, 0xFF]) = Ok ()"
  "mc_stack (snd (interp_program b H [0x01, 0x05, 0x01, 0x03, 0x02, 0x01, 0x02, 0x03, 0xFF])) = [VInt 16]"
  "fst (interp_program b H ([0x01, of_nat (length created_code), 0x01, 0x64, 0x0B] @ created_code @ [0xFF])) = Ok ()"
  "mc_stack (snd (interp_program b H ([0x01, of_nat (length created_code), 0x01, 0x64, 0x0B] @
     created_code @ [0xFF]))) =
   [VContract (ContractData created_code Map.empty 100), VAddress (take 32 (H created_code))]"
  by (simp_all add: interp_eval add_mul_results created_code_def)

text \<open>Of the eleven tests of the machine, four pass and seven fail, in every build and for every
  hash function: those that \<open>STORE\<close> or \<open>LOAD\<close> with the address as an operand end with
  \<open>StackUnderflow\<close>, and so does the \<open>CALL\<close> of the contract that was just created, whose address is
  not on top; the creation test finds the address where it expects the contract.\<close>

theorem machine_test_results:
  "test_basic_arithmetic b H \<and> test_stack_underflow b H \<and> test_stack_overflow b H \<and>
   test_invalid_opcode b H \<and>
   \<not> test_memory_operations b H \<and> \<not> test_gas_accounting b H \<and> \<not> test_contract_creation b H \<and>
   \<not> test_contract_call b H \<and> \<not> test_sha3_hash b H \<and> \<not> test_state_root b H \<and>
   \<not> test_vm_execution b H"
proof -
  have short: "vec_bounded xs" if "length xs < 100" for xs :: "u8 list"
    using that by (simp add: vec_bounded_def)
  let ?pushes = "concat (map (\<lambda>i. [0x01, of_nat i]) [0..<1025]) @ [0xFF] :: u8 list"
  have "length ?pushes = 2051" by (simp add: length_concat comp_def sum_list_triv)
  then have "vec_bounded ?pushes" by (simp add: vec_bounded_def)
  note pushes = passes_when_failed(2) [OF this overflow_program]
  note ended = passes_when_ended [OF short, OF _ ending_runs(1)] passes_when_ended [OF short, OF _ ending_runs(3)]
  note failed = failing_runs [THEN passes_when_failed(1) [OF short, rotated]]
  note failed_err = failing_runs [THEN passes_when_failed(2) [OF short, rotated]]
  have "test_basic_arithmetic b H" "\<not> test_contract_creation b H"
    unfolding test_basic_arithmetic_def test_contract_creation_def
    using ended(1) [where P = "\<lambda>st. length st = 1 \<and> is_int 16 (index st 0)"]
      ended(2) [where P = "\<lambda>st. length st = 2 \<and> (case st ! 0 of
        VContract k \<Rightarrow> contract_code k = created_code \<and> contract_balance k = 100 | _ \<Rightarrow> False)"]
    unfolding ending_runs by (simp_all add: is_int_def index_def created_code_def)
  moreover have "test_stack_underflow b H" "test_invalid_opcode b H" "test_stack_overflow b H"
    unfolding test_stack_underflow_def test_invalid_opcode_def test_stack_overflow_def
    using failed_err(6,7) pushes by simp_all
  ultimately show ?thesis
    unfolding test_memory_operations_def test_gas_accounting_def test_contract_call_def
      test_sha3_hash_def test_state_root_def test_vm_execution_def
    using failed by (simp add: called_code_def)
qed

end
