(* ===== verification/Main_Program.thy ===== *)
theory Main_Program
  imports Zkvm
begin

text \<open>
  The driver of \<open>src/main.rs\<close>: it creates the facade for an example program, executes it, generates a
  proof and verifies it, and returns the first error. \<open>r\<close> and \<open>r'\<close> are the random numbers of the
  parameter generation and of the proof. Logging and the printed line are left out; the result of the
  verification is returned instead.
\<close>

definition main_run ::
  "build \<Rightarrow> (u8 list \<Rightarrow> u8 list) \<Rightarrow> addr32 list \<Rightarrow>
   ('f vm_circuit, 'r, 'par, 'vk, 'pf, 'f, 'e, 'cc) proof_env \<Rightarrow> 'r \<Rightarrow> 'r \<Rightarrow>
   ('e zkvm_error, bool) outcome option" where
  "main_run b H ks E r r' =
     (case zkvm_new E r main_program of
        Ok z \<Rightarrow>
          (case zkvm_execute b H ks z of
             None \<Rightarrow> None
           | Some (Ok _, z) \<Rightarrow>
               (case generate_proof E r' z of
                  (Ok d, z) \<Rightarrow> Some (verify_proof E z d)
                | (Err e, _) \<Rightarrow> Some (Err e)
                | (Panic p, _) \<Rightarrow> Some (Panic p))
           | Some (Err e, _) \<Rightarrow> Some (Err e)
           | Some (Panic p, _) \<Rightarrow> Some (Panic p))
      | Err e \<Rightarrow> Some (Err e)
      | Panic p \<Rightarrow> Some (Panic p))"

text \<open>The example program never gets to its proof. Once the parameters are generated, the execution
  ends with a stack underflow at the instruction that is commented to store the result at address 0,
  and \<open>main\<close> returns this error.\<close>

theorem main_fails:
  "main_run b H ks E r r' =
     Some (case generate_parameters E (vm_circuit_new main_program 1000) r of
         Ok _ \<Rightarrow> Err (ZkVMError StackUnderflow)
       | Err e \<Rightarrow> Err (ZkProofError e)
       | Panic p \<Rightarrow> Panic p)"
proof -
  obtain c where "vm_execute b H ks main_program (context_new 1000000) = Some (Err StackUnderflow, c)"
    using main_program_underflows [of b H ks] by auto
  then show ?thesis
    by (simp add: main_run_def zkvm_new_def setup_system_def zkvm_execute_def vm_new_def Let_def
        split: outcome.split)
qed

end
