(* ===== verification/Facade_Tests.thy ===== *)
theory Facade_Tests
  imports Main_Program
begin

text \<open>
  The tests of \<open>tests/proof_tests.rs\<close> and the property test of \<open>tests/integration_tests.rs\<close>: all of them
  make a facade, execute its program and ask for a proof. Each is a predicate that says whether the test
  passes; the random numbers of the libraries, the readings of the clock and the serialisation of proofs
  are arguments.
\<close>

section \<open>The tests\<close>

text \<open>Make a facade, execute it, generate a proof, and look at both with \<open>rest\<close>. Every result is unwrapped,
  so an error or a panic of a step fails the test.\<close>

definition prove_again ::
  "build \<Rightarrow> (u8 list \<Rightarrow> u8 list) \<Rightarrow> addr32 list \<Rightarrow>
   ('f vm_circuit, 'r, 'par, 'vk, 'pf, 'f, 'e, 'cc) proof_env \<Rightarrow> 'r \<Rightarrow>
   (('pf, 'f) proof_data \<Rightarrow> ('f, 'par, 'vk, 'cc) zkvm \<Rightarrow> bool) \<Rightarrow> ('f, 'par, 'vk, 'cc) zkvm \<Rightarrow> bool" where
  "prove_again b H ks E r rest z =
     (case zkvm_execute b H ks z :: (('e zkvm_error, unit) outcome \<times> _) option of
        Some (Ok _, z) \<Rightarrow>
          (case generate_proof E r z of (Ok d, z) \<Rightarrow> rest d z | _ \<Rightarrow> False)
      | _ \<Rightarrow> False)"

definition prove_first ::
  "build \<Rightarrow> (u8 list \<Rightarrow> u8 list) \<Rightarrow> addr32 list \<Rightarrow>
   ('f vm_circuit, 'r, 'par, 'vk, 'pf, 'f, 'e, 'cc) proof_env \<Rightarrow> (nat \<Rightarrow> 'r) \<Rightarrow> u8 list \<Rightarrow>
   (('pf, 'f) proof_data \<Rightarrow> ('f, 'par, 'vk, 'cc) zkvm \<Rightarrow> bool) \<Rightarrow> bool" where
  "prove_first b H ks E r prog rest =
     (case zkvm_new E (r 0) prog of Ok z \<Rightarrow> prove_again b H ks E (r 1) rest z | _ \<Rightarrow> False)"

definition test_proof_generation where
  "test_proof_generation b H ks E r =
     prove_first b H ks E r main_program (\<lambda>d z. public_inputs d \<noteq> [] \<and> length (pd_hash d) = 32)"

definition test_proof_verification where
  "test_proof_verification b H ks E r prog =
     prove_first b H ks E r prog (\<lambda>d z. verify_proof E z d = Ok True)"

definition test_invalid_proof_rejection where
  "test_invalid_proof_rejection b H ks E r =
     prove_first b H ks E r main_program (\<lambda>d z.
       case public_inputs d of
         [] \<Rightarrow> False
       | x # xs \<Rightarrow> verify_proof E z (d\<lparr>public_inputs := (x + x) # xs\<rparr>) = Ok False)"

text \<open>\<open>n\<close> more rounds of execution and proof; then the batch, or the proofs one by one, are verified.\<close>

fun prove_rounds where
  "prove_rounds b H ks E r check 0 ds z = check (rev ds) z"
| "prove_rounds b H ks E r check (Suc n) ds z =
     prove_again b H ks E (r n) (\<lambda>d. prove_rounds b H ks E r check n (d # ds)) z"

definition test_batch_verification where
  "test_batch_verification b H ks E r0 r =
     (case zkvm_new E r0 main_program of
        Ok z \<Rightarrow> prove_rounds b H ks E r (\<lambda>ds z. batch_verify_proofs E z ds = Ok True) 5 [] z
      | _ \<Rightarrow> False)"

definition test_concurrent_verification where
  "test_concurrent_verification b H ks E r0 r =
     (case zkvm_new E r0 main_program of
        Ok z \<Rightarrow> prove_rounds b H ks E r (\<lambda>ds z. \<forall>d \<in> set ds. verify_proof E z d = Ok True) 10 [] z
      | _ \<Rightarrow> False)"

definition test_proof_system_builder where
  "test_proof_system_builder b H ks E r0 r =
     (case build_system E (vm_circuit_new main_program 1000) r0
        (with_verification_batch_size 50 (with_parallel_verification True
          (with_cache_size 2000 builder_new))) of
        Ok _ \<Rightarrow> test_proof_verification b H ks E r main_program
      | _ \<Rightarrow> False)"

text \<open>The clock is read before and after each of the two verifications.\<close>

definition test_proof_caching where
  "test_proof_caching b H ks E r start1 end1 start2 end2 =
     prove_first b H ks E r main_program (\<lambda>d z.
       verify_proof E z d = Ok True \<and> verify_proof E z d = Ok True \<and>
       end2 - start2 < end1 - (start1 :: nat))"

text \<open>The bytes of a proof and the proof of bytes; \<open>None\<close> is an error.\<close>

definition test_proof_serialization where
  "test_proof_serialization b H ks E r serialize deserialize =
     prove_first b H ks E r main_program (\<lambda>d z.
       case serialize d of
         None \<Rightarrow> False
       | Some bytes \<Rightarrow>
           (case deserialize (bytes :: u8 list) of
              None \<Rightarrow> False
            | Some d' \<Rightarrow> verify_proof E z d' = Ok True))"

definition large_program :: "u8 list" where
  "large_program =
     concat (map (\<lambda>i. [0x01, of_nat i, 0x01, of_nat (i + 1), 0x02, 0x04, of_nat i]) [0..<100]) @ [0xFF]"

fun instruction_for :: "u8 \<times> u8 \<Rightarrow> u8 list" where
  "instruction_for (op, v) =
     (if op mod 5 = 0 then [0x01, v]
      else if op mod 5 = 1 then [0x02]
      else if op mod 5 = 2 then [0x03]
      else if op mod 5 = 3 then [0x04, v mod 16]
      else [0x05, v mod 16])"

definition create_valid_program :: "(u8 \<times> u8) list \<Rightarrow> u8 list" where
  "create_valid_program ops = concat (map instruction_for ops) @ [0xFF]"

definition test_random_valid_programs where
  "test_random_valid_programs b H ks E r ops =
     test_proof_verification b H ks E r (create_valid_program ops)"

section \<open>Their results\<close>

lemma never_proved:
  assumes "prover cs asg cons" and "proves_by_synthesis E b' H' cs fld s wrap"
    and "zk_reachable b H E prog z"
  shows "\<not> prove_again b H ks E r rest z"
  by (auto simp: prove_again_def dest!: zk_exec [OF assms(3)] generate_proof_fails [OF assms(1,2), rotated]
      split: option.splits prod.splits outcome.splits)

lemma never_proved_first:
  assumes "prover cs asg cons" and "proves_by_synthesis E b' H' cs fld s wrap"
  shows "\<not> prove_first b H ks E r prog rest"
  using never_proved [OF assms zk_new]
  by (auto simp: prove_first_def split: outcome.splits)

lemma never_proved_rounds:
  assumes "prover cs asg cons" and "proves_by_synthesis E b' H' cs fld s wrap"
    and "zkvm_new E r0 prog = Ok z" "0 < n"
  shows "\<not> prove_rounds b H ks E r check n ds z"
  using never_proved [OF assms(1,2) zk_new [OF assms(3)]] assms(4) by (cases n) simp_all

text \<open>All the tests that need a proof of a facade fail, whatever the random numbers, the hash function
  and the build, and the property test fails for every list of operations: the facade either does not
  execute its program or gives no proof. (The proof scheme is one that synthesises the circuit.)\<close>

theorem proof_tests_fail:
  assumes "prover cs asg cons" and "proves_by_synthesis E b' H' cs fld s wrap"
  shows "\<not> test_proof_generation b H ks E r \<and> \<not> test_proof_verification b H ks E r main_program \<and>
    \<not> test_invalid_proof_rejection b H ks E r \<and> \<not> test_batch_verification b H ks E r0 r \<and>
    \<not> test_concurrent_verification b H ks E r0 r \<and> \<not> test_proof_system_builder b H ks E r0 r \<and>
    \<not> test_proof_verification b H ks E r large_program \<and>
    \<not> test_proof_caching b H ks E r start1 end1 start2 end2 \<and>
    \<not> test_proof_serialization b H ks E r serialize deserialize \<and>
    \<not> test_random_valid_programs b H ks E r ops"
  using never_proved_first [OF assms] never_proved_rounds [OF assms]
  by (auto simp: test_proof_generation_def test_proof_verification_def test_invalid_proof_rejection_def
      test_batch_verification_def test_concurrent_verification_def test_proof_system_builder_def
      test_proof_caching_def test_proof_serialization_def test_random_valid_programs_def split: outcome.split)

theorem proof_tests_fail_witness:
  "\<not> test_random_valid_programs Debug zero_digest [] synthesis_env (\<lambda>_. ()) [(0, 5), (5, 3), (1, 0)]"
  using proof_tests_fail [OF list_prover.prover_axioms synthesis_env_synthesises] by blast

end
