(* ===== verification/Integration_Tests.thy ===== *)
theory Integration_Tests
  imports Machine_Tests Facade_Tests
begin

text \<open>
  The other tests of \<open>tests/integration_tests.rs\<close>: they run programs through the facade and look at the
  machine afterwards, or at the error. The sources match the error of the machine where \<open>execute\<close>
  returns one of the facade; the predicates look at the error of the machine in it. The parameters of
  the proof system are generated first, by a library, which may fail.
\<close>

section \<open>The tests\<close>

definition facade_test ::
  "build \<Rightarrow> (u8 list \<Rightarrow> u8 list) \<Rightarrow> ('f vm_circuit, 'r, 'par, 'vk, 'pf, 'f, 'e, 'cc) proof_env \<Rightarrow> 'r \<Rightarrow>
   u8 list \<Rightarrow> (('e zkvm_error, unit) outcome \<Rightarrow> ('f, 'par, 'vk, 'cc) zkvm \<Rightarrow> bool) \<Rightarrow> bool" where
  "facade_test b H E r prog P =
     (case zkvm_new E r prog of
        Ok z \<Rightarrow> (case zkvm_execute b H [] z of Some (res, z') \<Rightarrow> P res z' | None \<Rightarrow> False)
      | _ \<Rightarrow> False)"

definition integration_stack_underflow where
  "integration_stack_underflow b H E r =
     facade_test b H E r [0x02, 0xFF] (\<lambda>res z.
       case res of Err (ZkVMError StackUnderflow) \<Rightarrow> True | _ \<Rightarrow> False)"

definition integration_invalid_opcode where
  "integration_invalid_opcode b H E r =
     facade_test b H E r [0xFE, 0xFF] (\<lambda>res z.
       case res of Err (ZkVMError (InvalidOpcode op)) \<Rightarrow> True | _ \<Rightarrow> False)"

definition integration_memory_operations where
  "integration_memory_operations b H E r =
     facade_test b H E r [0x01, 0x42, 0x04, 0x00, 0x05, 0x00, 0xFF] (\<lambda>res z. res = Ok () \<and>
       (let stk = get_stack (zk_context z) in length stk = 1 \<and> is_int 66 (index stk 0)))"

definition integration_arithmetic_operations where
  "integration_arithmetic_operations b H E r =
     facade_test b H E r [0x01, 0x05, 0x01, 0x03, 0x02, 0x01, 0x02, 0x03, 0xFF] (\<lambda>res z. res = Ok () \<and>
       (let stk = get_stack (zk_context z) in length stk = 1 \<and> is_int 16 (index stk 0)))"

section \<open>Their results\<close>

text \<open>The facade runs its machine.\<close>

lemma facade_test_runs:
  "facade_test b H E r prog P \<longleftrightarrow>
     (\<exists>z res c. zkvm_new E r prog = Ok z \<and> run_program b H prog = Some (res, c) \<and>
        (case res of
           Ok _ \<Rightarrow> P (Ok ()) (z\<lparr>zk_context := c, zk_state := record_run c (zk_state z)\<rparr>)
         | Err e \<Rightarrow> P (Err (ZkVMError e)) (z\<lparr>zk_context := c\<rparr>)
         | Panic p \<Rightarrow> P (Panic p) (z\<lparr>zk_context := c\<rparr>)))"
proof (cases "zkvm_new E r prog")
  case (Ok z)
  then have "zk_program z = prog" "zk_context z = vm_new"
    by (auto simp: zkvm_new_def Let_def bind_outcome_eq_Ok)
  with Ok show ?thesis
    by (simp add: facade_test_def zkvm_execute_def run_program_def Let_def split: option.split prod.split
        outcome.split)
qed (simp_all add: facade_test_def)

lemma facade_error:
  assumes "vec_bounded prog" and "fst (interp_program b H prog) = Err e"
  shows "facade_test b H E r prog P \<longleftrightarrow>
    (\<exists>z c. zkvm_new E r prog = Ok z \<and> run_program b H prog = Some (Err e, c) \<and>
       P (Err (ZkVMError e)) (z\<lparr>zk_context := c\<rparr>))"
  using run_program_interp [OF assms(1), of b H] assms(2) by (auto simp: facade_test_runs)

lemma interp_66:
  "fst (interp_program b H [0x01, 0x42, 0x04, 0x00, 0x05, 0x00, 0xFF]) = Err StackUnderflow"
  by (simp add: interp_eval)

text \<open>When the parameters can be generated, the two tests of errors and the arithmetic test pass; the test
  of the memory fails anyway, since \<open>STORE\<close> takes its address from the stack.\<close>

theorem integration_test_results:
  fixes E :: "('f vm_circuit, 'r, 'par, 'vk, 'pf, 'f, 'e, 'cc) proof_env"
  shows "(integration_stack_underflow b H E r \<longleftrightarrow> (\<exists>z. zkvm_new E r [0x02, 0xFF] = Ok z)) \<and>
    (integration_invalid_opcode b H E r \<longleftrightarrow> (\<exists>z. zkvm_new E r [0xFE, 0xFF] = Ok z)) \<and>
    (integration_arithmetic_operations b H E r \<longleftrightarrow>
      (\<exists>z. zkvm_new E r [0x01, 0x05, 0x01, 0x03, 0x02, 0x01, 0x02, 0x03, 0xFF] = Ok z)) \<and>
    \<not> integration_memory_operations b H E r"
proof -
  have short: "vec_bounded xs" if "length xs < 100" for xs :: "u8 list"
    using that by (simp add: vec_bounded_def)
  note failed = failing_runs(6,7) interp_66
  note error = failed [THEN facade_error [OF short, rotated], simplified list.size]
  have ran: "\<exists>c. run_program b H prog = Some (Err e, c)"
    if "length prog < 100" "fst (interp_program b H prog) = Err e" for prog e
    using run_program_interp [OF short [OF that(1)], of b H] that(2) by auto
  have "\<exists>c. run_program b H [0x01, 0x05, 0x01, 0x03, 0x02, 0x01, 0x02, 0x03, 0xFF] = Some (Ok (), c) \<and>
      get_stack c = [VInt 16]"
    using run_program_interp [OF short, of "[0x01, 0x05, 0x01, 0x03, 0x02, 0x01, 0x02, 0x03, 0xFF]" b H]
      ending_runs(1,2) [of b H] by (auto simp: get_stack_def machine_of_def)
  then have "integration_arithmetic_operations b H E r \<longleftrightarrow>
      (\<exists>z. zkvm_new E r [0x01, 0x05, 0x01, 0x03, 0x02, 0x01, 0x02, 0x03, 0xFF] = Ok z)"
    by (auto simp: integration_arithmetic_operations_def facade_test_runs is_int_def index_def)
  moreover have "integration_stack_underflow b H E r \<longleftrightarrow> (\<exists>z. zkvm_new E r [0x02, 0xFF] = Ok z)"
    "integration_invalid_opcode b H E r \<longleftrightarrow> (\<exists>z. zkvm_new E r [0xFE, 0xFF] = Ok z)"
    using ran [OF _ failed(1)] ran [OF _ failed(2)]
    by (auto simp: integration_stack_underflow_def integration_invalid_opcode_def error(1,2))
  moreover have "\<not> integration_memory_operations b H E r"
    by (simp add: integration_memory_operations_def error(3))
  ultimately show ?thesis by blast
qed

end
