(* ===== verification/Consensus.thy ===== *)
theory Consensus
  imports Messages
begin

text \<open>
  Model of \<open>src/network/consensus.rs\<close>: the consensus engine, which collects transactions and
  blocks, counts the votes of validators and finalises a block that has more than two thirds of
  them. Every \<open>async\<close> method takes the write lock for its whole body, so each one is one atomic
  step on the state; time is a number of nanoseconds read from a clock. Hash maps are iterated
  in an order given as an argument.
\<close>

section \<open>Model\<close>

record consensus_config =
  block_time :: nat
  max_block_size :: usize
  min_validators :: usize
  max_validators :: usize
  validator_stake_threshold :: u64

text \<open>\<open>uptime\<close> is an \<open>f64\<close> that no code reads; it is kept as its 64 bits.\<close>

record validator_info =
  val_address :: string
  stake :: u64
  last_proposed :: u64
  total_proposed :: u64
  total_validated :: u64
  uptime :: "64 word"

record consensus_state =
  current_round :: u64
  current_height :: u64
  validators :: "string \<rightharpoonup> validator_info"
  pending_transactions :: "transaction list"
  pending_blocks :: "digest \<rightharpoonup> block"
  finalized_blocks :: "u64 \<rightharpoonup> block"
  votes :: "digest \<rightharpoonup> string set"
  last_finalized_time :: nat

record consensus_status =
  st_height :: u64
  st_round :: u64
  st_pending_transactions :: nat
  st_pending_blocks :: nat
  st_active_validators :: nat
  st_last_finalized :: nat

type_synonym 'a consensus = "(consensus_state, network_error, 'a) comp"

definition consensus_config_default :: consensus_config where
  "consensus_config_default =
     \<lparr>block_time = 15 * 10 ^ 9, max_block_size = 1024 * 1024, min_validators = 4,
      max_validators = 100, validator_stake_threshold = 1000\<rparr>"

definition consensus_state_new :: "nat \<Rightarrow> consensus_state" where
  "consensus_state_new now =
     \<lparr>current_round = 0, current_height = 0, validators = Map.empty, pending_transactions = [],
      pending_blocks = Map.empty, finalized_blocks = Map.empty, votes = Map.empty,
      last_finalized_time = now\<rparr>"

text \<open>The two validations always accept.\<close>

definition validate_transaction :: "transaction \<Rightarrow> bool" where
  "validate_transaction tx = True"

definition validate_block :: "block \<Rightarrow> bool" where
  "validate_block b = True"

definition is_valid_validator :: "consensus_config \<Rightarrow> string \<Rightarrow> consensus_state \<Rightarrow> bool" where
  "is_valid_validator cfg v s =
     (case validators s v of
        Some info \<Rightarrow> validator_stake_threshold cfg \<le> stake info
      | None \<Rightarrow> False)"

text \<open>\<open>votes * 3 > total_validators * 2\<close> on \<open>usize\<close>; \<open>None\<close> is an overflow panic.\<close>

definition check_consensus :: "build \<Rightarrow> usize \<Rightarrow> usize \<Rightarrow> bool option" where
  "check_consensus b n m =
     Option.bind (mul_u b n 3) (\<lambda>x. map_option (\<lambda>y. y < x) (mul_u b m 2))"

definition process_transaction :: "transaction \<Rightarrow> unit consensus" where
  "process_transaction tx =
     andthen (guard_err (\<not> validate_transaction tx) (ConsensusError ''Invalid transaction'')) (\<lambda>_.
     updates (\<lambda>s. s\<lparr>pending_transactions := pending_transactions s @ [tx]\<rparr>))"

definition process_block :: "'k crypto_env \<Rightarrow> block \<Rightarrow> unit consensus" where
  "process_block E blk =
     andthen (guard_err (\<not> validate_block blk) (ConsensusError ''Invalid block'')) (\<lambda>_.
     andthen (or_panic UnwrapOnNone (block_hash E blk)) (\<lambda>h.
     andthen (updates (\<lambda>s. s\<lparr>pending_blocks := (pending_blocks s)(h \<mapsto> blk)\<rparr>)) (\<lambda>_.
     updates (\<lambda>s. s\<lparr>votes := (votes s)(h \<mapsto> {})\<rparr>))))"

definition finalize :: "nat \<Rightarrow> digest \<Rightarrow> consensus_state \<Rightarrow> consensus_state" where
  "finalize now h s =
     (case pending_blocks s h of
        Some blk \<Rightarrow> s\<lparr>pending_blocks := (pending_blocks s)(h := None),
          finalized_blocks := (finalized_blocks s)(number (header blk) \<mapsto> blk),
          last_finalized_time := now\<rparr>
      | None \<Rightarrow> s)"

definition submit_vote ::
  "build \<Rightarrow> consensus_config \<Rightarrow> nat \<Rightarrow> string \<Rightarrow> digest \<Rightarrow> unit consensus" where
  "submit_vote b cfg now v h =
     andthen (reads (is_valid_validator cfg v)) (\<lambda>valid.
     andthen (guard_err (\<not> valid) (ConsensusError ''Invalid validator'')) (\<lambda>_.
     andthen (reads (\<lambda>s. votes s h)) (\<lambda>vs.
     case vs of
       None \<Rightarrow> ret ()
     | Some V \<Rightarrow>
         andthen (updates (\<lambda>s. s\<lparr>votes := (votes s)(h \<mapsto> insert v V)\<rparr>)) (\<lambda>_.
         andthen (reads (\<lambda>s. check_consensus b (of_nat (card (insert v V)))
            (of_nat (map_len (validators s))))) (\<lambda>x.
         andthen (or_panic ArithmeticOverflow x) (\<lambda>quorum.
         if quorum then updates (finalize now h) else ret ()))))))"

text \<open>
  \<open>select_proposer\<close>: \<open>ks\<close> is the iteration order of the validators. The products are computed
  in \<open>u128\<close>, where they cannot overflow, so they are natural numbers here.
\<close>

fun sum_stakes :: "build \<Rightarrow> (string \<rightharpoonup> validator_info) \<Rightarrow> u64 \<Rightarrow> string list \<Rightarrow> u64 option" where
  "sum_stakes b vals acc [] = Some acc"
| "sum_stakes b vals acc (k # ks) =
     (case vals k of
        None \<Rightarrow> sum_stakes b vals acc ks
      | Some info \<Rightarrow> Option.bind (add_u b acc (stake info)) (\<lambda>acc'. sum_stakes b vals acc' ks))"

fun pick_proposer :: "(string \<rightharpoonup> validator_info) \<Rightarrow> nat \<Rightarrow> string list \<Rightarrow> string option" where
  "pick_proposer vals value [] = None"
| "pick_proposer vals value (k # ks) =
     (case vals k of
        None \<Rightarrow> pick_proposer vals value ks
      | Some info \<Rightarrow>
          if value < unat (stake info) then Some k
          else pick_proposer vals (value - unat (stake info)) ks)"

definition select_proposer :: "build \<Rightarrow> string list \<Rightarrow> string consensus" where
  "select_proposer b ks =
     andthen (reads (\<lambda>s. sum_stakes b (validators s) 0 ks)) (\<lambda>x.
     andthen (or_panic ArithmeticOverflow x) (\<lambda>total_stake.
     andthen (reads (\<lambda>s. map_len (validators s))) (\<lambda>n.
     andthen (reads current_round) (\<lambda>round.
     andthen (if n = 0 then abort DivideByZero else ret ()) (\<lambda>_.
     andthen (reads (\<lambda>s. pick_proposer (validators s) (unat round * unat total_stake mod n) ks)) (\<lambda>p.
     ok_or (ConsensusError ''No valid proposer found'') p))))))"

text \<open>
  The loop of \<open>create_block\<close>: take transactions from the front while they fit. It returns the
  transactions taken and leaves the others in the queue.
\<close>

fun collect_transactions ::
  "build \<Rightarrow> 'k crypto_env \<Rightarrow> usize \<Rightarrow> usize \<Rightarrow> transaction list \<Rightarrow>
   (network_error, transaction list) outcome \<times> transaction list" where
  "collect_transactions b E limit used [] = (Ok [], [])"
| "collect_transactions b E limit used (tx # queue) =
     (case ser_tx E tx of
        None \<Rightarrow> (Err (ConsensusError ''Serialization failed''), tx # queue)
      | Some bytes \<Rightarrow>
          (case add_u b used (of_nat (length bytes)) of
             None \<Rightarrow> (Panic ArithmeticOverflow, tx # queue)
           | Some used' \<Rightarrow>
               if limit < used' then (Ok [], tx # queue)
               else (case collect_transactions b E limit used' queue of
                   (Ok txs, queue') \<Rightarrow> (Ok (tx # txs), queue')
                 | (Err e, queue') \<Rightarrow> (Err e, queue')
                 | (Panic p, queue') \<Rightarrow> (Panic p, queue'))))"

definition get_parent_hash :: "'k crypto_env \<Rightarrow> digest consensus" where
  "get_parent_hash E =
     andthen (reads (\<lambda>s. finalized_blocks s (current_height s))) (\<lambda>x.
     case x of
       None \<Rightarrow> ret (default_hash E)
     | Some blk \<Rightarrow> or_panic UnwrapOnNone (block_hash E blk))"

text \<open>The engine computes the root of the transactions itself, as \<open>Block\<close> does.\<close>

definition engine_transactions_root :: "'k crypto_env \<Rightarrow> transaction list \<Rightarrow> digest option" where
  "engine_transactions_root E txs = map_option (blake3 E) (ser_all E txs)"

lemma engine_root_is_block_root [simp]: "engine_transactions_root = compute_transactions_root"
  by (simp add: fun_eq_iff engine_transactions_root_def compute_transactions_root_def)

definition create_block ::
  "build \<Rightarrow> consensus_config \<Rightarrow> 'k crypto_env \<Rightarrow> u64 \<Rightarrow> string \<Rightarrow> block consensus" where
  "create_block b cfg E now_secs proposer =
     andthen (zoom pending_transactions (\<lambda>q s. s\<lparr>pending_transactions := q\<rparr>)
        (collect_transactions b E (max_block_size cfg) 0)) (\<lambda>txs.
     andthen (get_parent_hash E) (\<lambda>parent.
     andthen (reads (\<lambda>s. add_u b (current_height s) 1)) (\<lambda>x.
     andthen (or_panic ArithmeticOverflow x) (\<lambda>num.
     andthen (or_panic UnwrapOnNone (engine_transactions_root E txs)) (\<lambda>root.
     ret \<lparr>header = \<lparr>parent_hash = parent, hd_timestamp = now_secs, number = num, author = proposer,
            transactions_root = root, hd_state_root = default_hash E,
            hd_receipts_root = default_hash E\<rparr>,
          transactions = txs, blk_state_root = default_hash E, blk_receipts_root = default_hash E\<rparr>)))))"

text \<open>\<open>process_round\<close> binds the created block to a variable that it does not use.\<close>

definition process_round ::
  "build \<Rightarrow> consensus_config \<Rightarrow> 'k crypto_env \<Rightarrow> u64 \<Rightarrow> string list \<Rightarrow> unit consensus" where
  "process_round b cfg E now_secs ks =
     andthen (reads (\<lambda>s. add_u b (current_round s) 1)) (\<lambda>x.
     andthen (or_panic ArithmeticOverflow x) (\<lambda>round.
     andthen (updates (\<lambda>s. s\<lparr>current_round := round\<rparr>)) (\<lambda>_.
     andthen (select_proposer b ks) (\<lambda>proposer.
     andthen (create_block b cfg E now_secs proposer) (\<lambda>blk.
     ret ())))))"

definition check_finalization :: "nat \<Rightarrow> unit consensus" where
  "check_finalization now =
     andthen (reads last_finalized_time) (\<lambda>t.
     guard_err (60 * 10 ^ 9 < now - t) (ConsensusError ''Finalization timeout''))"

text \<open>\<open>while len() > 10000 { pop_front(); }\<close>\<close>

function trim_queue :: "'a list \<Rightarrow> 'a list" where
  "trim_queue q = (if 10000 < length q then trim_queue (tl q) else q)"
  by pat_completeness auto
termination by (relation "measure length") auto

declare trim_queue.simps [simp del]

definition cleanup :: "unit consensus" where
  "cleanup =
     andthen (updates (\<lambda>s. s\<lparr>votes := (\<lambda>h. if pending_blocks s h = None then None else votes s h)\<rparr>)) (\<lambda>_.
     updates (\<lambda>s. s\<lparr>pending_transactions := trim_queue (pending_transactions s)\<rparr>))"

text \<open>One iteration of the loop of \<open>start\<close>; an error of a phase ends the loop.\<close>

definition consensus_tick ::
  "build \<Rightarrow> consensus_config \<Rightarrow> 'k crypto_env \<Rightarrow> u64 \<Rightarrow> nat \<Rightarrow> string list \<Rightarrow> unit consensus" where
  "consensus_tick b cfg E now_secs now ks =
     andthen (process_round b cfg E now_secs ks) (\<lambda>_.
     andthen (check_finalization now) (\<lambda>_.
     cleanup))"

definition get_status :: "nat \<Rightarrow> consensus_state \<Rightarrow> consensus_status" where
  "get_status now s =
     \<lparr>st_height = current_height s, st_round = current_round s,
      st_pending_transactions = length (pending_transactions s),
      st_pending_blocks = map_len (pending_blocks s),
      st_active_validators = map_len (validators s),
      st_last_finalized = now - last_finalized_time s\<rparr>"

section \<open>The interface of the quorum test\<close>

text \<open>
  What the engine needs of its test \<open>reached n m\<close> for \<open>n\<close> votes of \<open>m\<close> validators: it implies a
  two-thirds majority, and more votes never lose it. Two quorums then overlap in more than a
  third of the validators.
\<close>

locale quorum =
  fixes reached :: "nat \<Rightarrow> nat \<Rightarrow> bool"
  assumes two_thirds: "reached n m \<Longrightarrow> 2 * m < 3 * n"
    and more_votes: "reached n m \<Longrightarrow> n \<le> n' \<Longrightarrow> n' \<le> m \<Longrightarrow> reached n' m"
begin

lemma grows:
  assumes "reached (card V) (card U)" and "V \<subseteq> W" "W \<subseteq> U" "finite U"
  shows "reached (card W) (card U)"
  using assms by (meson card_mono finite_subset more_votes)

lemma overlap:
  assumes "finite U" "V \<subseteq> U" "W \<subseteq> U" "reached (card V) (card U)" "reached (card W) (card U)"
  shows "card U < 3 * card (V \<inter> W)"
proof -
  have fin: "finite V" "finite W" using assms(1-3) by (auto intro: finite_subset)
  have "card V + card W = card (V \<union> W) + card (V \<inter> W)" using fin by (rule card_Un_Int)
  moreover have "card (V \<union> W) \<le> card U" using assms(1-3) by (intro card_mono) auto
  ultimately show ?thesis using two_thirds [OF assms(4)] two_thirds [OF assms(5)] by linarith
qed

lemma honest_overlap:
  assumes "finite U" "V \<subseteq> U" "W \<subseteq> U" "reached (card V) (card U)" "reached (card W) (card U)"
    and "3 * card F \<le> card U" "finite F"
  shows "\<exists>v \<in> V \<inter> W. v \<notin> F"
proof (rule ccontr)
  assume "\<not> (\<exists>v \<in> V \<inter> W. v \<notin> F)"
  then have "V \<inter> W \<subseteq> F" by auto
  then have "card (V \<inter> W) \<le> card F" using assms(7) by (intro card_mono)
  with overlap [OF assms(1-5)] assms(6) show False by simp
qed

end

text \<open>The code's test, on numbers of validators for which its products cannot overflow.\<close>

definition reaches_quorum :: "build \<Rightarrow> nat \<Rightarrow> nat \<Rightarrow> bool" where
  "reaches_quorum b n m \<longleftrightarrow>
     n \<le> m \<and> m < 2 ^ 62 \<and> check_consensus b (of_nat n) (of_nat m) = Some True"

lemma check_consensus_nat:
  assumes "n < 2 ^ 62" and "m < 2 ^ 62"
  shows "check_consensus b (of_nat n) (of_nat m) = Some (2 * m < 3 * n)"
proof -
  have n: "unat (of_nat n :: usize) = n" and m: "unat (of_nat m :: usize) = m"
    using assms by (simp_all add: unsigned_of_nat take_bit_nat_eq_self)
  have "unat (of_nat n * 3 :: usize) = n * 3" "unat (of_nat m * 2 :: usize) = m * 2"
    using assms n m by (simp_all add: unat_mult_no_wrap)
  with assms n m show ?thesis
    by (simp add: check_consensus_def mul_u_def word_less_nat_alt mult.commute)
qed

lemma reaches_quorum_iff: "reaches_quorum b n m \<longleftrightarrow> n \<le> m \<and> m < 2 ^ 62 \<and> 2 * m < 3 * n"
proof (cases "n \<le> m \<and> m < 2 ^ 62")
  case True
  then have "check_consensus b (of_nat n) (of_nat m) = Some (2 * m < 3 * n)"
    by (intro check_consensus_nat) auto
  with True show ?thesis by (simp add: reaches_quorum_def)
qed (auto simp: reaches_quorum_def)

interpretation two_thirds: quorum "reaches_quorum b" for b
  by unfold_locales (auto simp: reaches_quorum_iff)

section \<open>What the steps do\<close>

lemma wp_process_transaction [wp_simps]:
  "wp (process_transaction tx) Q E F s =
     Q () (s\<lparr>pending_transactions := pending_transactions s @ [tx]\<rparr>)"
  by (simp add: process_transaction_def validate_transaction_def wp_simps)

lemma wp_process_block [wp_simps]:
  "wp (process_block Env blk) Q E F s =
     (case block_hash Env blk of
        None \<Rightarrow> F UnwrapOnNone s
      | Some h \<Rightarrow> Q () (s\<lparr>pending_blocks := (pending_blocks s)(h \<mapsto> blk), votes := (votes s)(h \<mapsto> {})\<rparr>))"
  by (simp add: process_block_def validate_block_def wp_simps split: option.split)

lemma wp_submit_vote [wp_simps]:
  "wp (submit_vote b cfg now v h) Q E F s =
     (if \<not> is_valid_validator cfg v s then E (ConsensusError ''Invalid validator'') s
      else (case votes s h of
          None \<Rightarrow> Q () s
        | Some V \<Rightarrow>
            (let s' = s\<lparr>votes := (votes s)(h \<mapsto> insert v V)\<rparr>
             in (case check_consensus b (of_nat (card (insert v V))) (of_nat (map_len (validators s))) of
                   None \<Rightarrow> F ArithmeticOverflow s'
                 | Some yes \<Rightarrow> Q () (if yes then finalize now h s' else s')))))"
  by (auto simp: submit_vote_def wp_simps Let_def split: option.split)

lemma trim_queue_eq: "trim_queue q = drop (length q - 10000) q"
proof (induction q rule: trim_queue.induct)
  case (1 q)
  show ?case
  proof (cases "10000 < length q")
    case True
    then obtain x xs where "q = x # xs" by (cases q) auto
    moreover have "length q - 10000 = Suc (length xs - 10000)"
      using True \<open>q = x # xs\<close> by simp
    ultimately show ?thesis
      using True 1 by (subst trim_queue.simps) simp
  next
    case False
    then show ?thesis by (subst trim_queue.simps) simp
  qed
qed

text \<open>\<open>process_round\<close>, \<open>check_finalization\<close> and \<open>cleanup\<close> touch neither validators nor blocks.\<close>

definition same_chain :: "consensus_state \<Rightarrow> consensus_state \<Rightarrow> bool" where
  "same_chain s s' \<longleftrightarrow>
     validators s' = validators s \<and> current_height s' = current_height s \<and>
     pending_blocks s' = pending_blocks s \<and> finalized_blocks s' = finalized_blocks s \<and>
     last_finalized_time s' = last_finalized_time s"

lemma same_chain_refl [simp]: "same_chain s s"
  by (simp add: same_chain_def)

lemma select_proposer_reads:
  "wp (select_proposer b ks) (\<lambda>_ s'. s' = s) (\<lambda>_ s'. s' = s) (\<lambda>_ s'. s' = s) s"
  by (auto simp: select_proposer_def wp_simps split: option.split)

lemma create_block_keeps:
  "wp (create_block b cfg Env now_secs p)
     (\<lambda>_ s'. \<exists>q. s' = s\<lparr>pending_transactions := q\<rparr>) (\<lambda>_ s'. \<exists>q. s' = s\<lparr>pending_transactions := q\<rparr>)
     (\<lambda>_ s'. \<exists>q. s' = s\<lparr>pending_transactions := q\<rparr>) s"
proof -
  obtain r q where run: "collect_transactions b Env (max_block_size cfg) 0 (pending_transactions s) = (r, q)"
    by fastforce
  show ?thesis
    by (cases r) (auto simp: create_block_def get_parent_hash_def wp_simps wp_def [of "collect_transactions _ _ _ _"]
        run split: option.split)
qed

end
