(* ===== verification/Consensus_Properties.thy ===== *)
theory Consensus_Properties
  imports Consensus
begin

text \<open>
  Properties of the consensus engine. Runs are sequences of its steps, in any order and with any
  outcome, from an engine that knows a given set of validators (no operation of the code adds
  one). A run also records, besides the state, which validator has cast a vote for which hash and
  which blocks have ever been finalised; these two histories are not part of the code.
\<close>

section \<open>Runs\<close>

inductive consensus_run ::
  "build \<Rightarrow> consensus_config \<Rightarrow> 'k crypto_env \<Rightarrow> (string \<rightharpoonup> validator_info) \<Rightarrow>
   consensus_state \<Rightarrow> (string \<times> digest) set \<Rightarrow> block set \<Rightarrow> bool"
  for b cfg E vals where
  run_start: "consensus_run b cfg E vals ((consensus_state_new now)\<lparr>validators := vals\<rparr>) {} {}"
| run_transaction: "consensus_run b cfg E vals s C F \<Longrightarrow> process_transaction tx s = (r, s') \<Longrightarrow>
    consensus_run b cfg E vals s' C F"
| run_block: "consensus_run b cfg E vals s C F \<Longrightarrow> process_block E blk s = (r, s') \<Longrightarrow>
    consensus_run b cfg E vals s' C F"
| run_vote: "consensus_run b cfg E vals s C F \<Longrightarrow> submit_vote b cfg now v h s = (r, s') \<Longrightarrow>
    consensus_run b cfg E vals s' (if is_valid_validator cfg v s then insert (v, h) C else C)
      (F \<union> ran (finalized_blocks s'))"
| run_round: "consensus_run b cfg E vals s C F \<Longrightarrow> process_round b cfg E now_secs ks s = (r, s') \<Longrightarrow>
    consensus_run b cfg E vals s' C F"
| run_cleanup: "consensus_run b cfg E vals s C F \<Longrightarrow> cleanup s = (r, s') \<Longrightarrow>
    consensus_run b cfg E vals s' C F"

definition voters :: "(string \<times> digest) set \<Rightarrow> digest \<Rightarrow> string set" where
  "voters C h = {v. (v, h) \<in> C}"

text \<open>The validators whose votes count.\<close>

definition eligible :: "consensus_config \<Rightarrow> (string \<rightharpoonup> validator_info) \<Rightarrow> string set" where
  "eligible cfg vals = {v. \<exists>info. vals v = Some info \<and> validator_stake_threshold cfg \<le> stake info}"

lemma valid_eligible: "is_valid_validator cfg v s \<longleftrightarrow> v \<in> eligible cfg (validators s)"
  by (auto simp: is_valid_validator_def eligible_def split: option.splits)

lemma eligible_dom: "eligible cfg vals \<subseteq> dom vals"
  by (auto simp: eligible_def)

definition consensus_inv ::
  "build \<Rightarrow> consensus_config \<Rightarrow> 'k crypto_env \<Rightarrow> (string \<rightharpoonup> validator_info) \<Rightarrow>
   consensus_state \<Rightarrow> (string \<times> digest) set \<Rightarrow> block set \<Rightarrow> bool" where
  "consensus_inv b cfg E vals s C F \<longleftrightarrow>
     validators s = vals \<and> current_height s = 0 \<and>
     (\<forall>h. voters C h \<subseteq> eligible cfg vals) \<and>
     (\<forall>h V. votes s h = Some V \<longrightarrow> V \<subseteq> voters C h) \<and>
     (\<forall>h blk. pending_blocks s h = Some blk \<longrightarrow> block_hash E blk = Some h) \<and>
     ran (finalized_blocks s) \<subseteq> F \<and>
     (\<forall>blk \<in> F. \<exists>h. block_hash E blk = Some h \<and>
        reaches_quorum b (card (voters C h)) (card (dom vals)))"

lemma process_round_keeps:
  "wp (process_round b cfg E now_secs ks)
     (\<lambda>_ s'. same_chain s s' \<and> votes s' = votes s) (\<lambda>_ s'. same_chain s s' \<and> votes s' = votes s)
     (\<lambda>_ s'. same_chain s s' \<and> votes s' = votes s) s"
proof -
  have create: "wp (andthen (create_block b cfg E now_secs p) (\<lambda>_. ret ()))
      (\<lambda>_ s'. same_chain s s' \<and> votes s' = votes s) (\<lambda>_ s'. same_chain s s' \<and> votes s' = votes s)
      (\<lambda>_ s'. same_chain s s' \<and> votes s' = votes s) (s\<lparr>current_round := n\<rparr>)" for p n
    unfolding wp_andthen wp_ret
    by (rule wp_mono [OF create_block_keeps]) (auto simp: same_chain_def)
  have select: "wp (select_proposer b ks)
      (\<lambda>p. wp (andthen (create_block b cfg E now_secs p) (\<lambda>_. ret ())) (\<lambda>_ s'. same_chain s s' \<and> votes s' = votes s)
        (\<lambda>_ s'. same_chain s s' \<and> votes s' = votes s) (\<lambda>_ s'. same_chain s s' \<and> votes s' = votes s))
      (\<lambda>_ s'. same_chain s s' \<and> votes s' = votes s) (\<lambda>_ s'. same_chain s s' \<and> votes s' = votes s)
      (s\<lparr>current_round := n\<rparr>)" for n
    by (rule wp_mono [OF select_proposer_reads]) (auto simp: create, auto simp: same_chain_def)
  show ?thesis
    by (simp add: process_round_def wp_simps select split: option.split)
qed

lemma cleanup_wp:
  "wp cleanup (\<lambda>_ s'. same_chain s s' \<and>
       votes s' = (\<lambda>h. if pending_blocks s h = None then None else votes s h))
     (\<lambda>_ _. False) (\<lambda>_ _. False) s"
  by (simp add: cleanup_def wp_simps same_chain_def)

lemma vote_inv:
  assumes inv: "consensus_inv b cfg E vals s C F" and fin: "finite (dom vals)"
    and small: "card (dom vals) < 2 ^ 62" and run: "submit_vote b cfg now v h s = (r, s')"
  shows "consensus_inv b cfg E vals s' (if is_valid_validator cfg v s then insert (v, h) C else C)
    (F \<union> ran (finalized_blocks s'))"
proof (cases "is_valid_validator cfg v s")
  case False
  then have "s' = s" using run by (simp add: submit_vote_def)
  with False inv show ?thesis by (auto simp: consensus_inv_def)
next
  case True
  let ?C = "insert (v, h) C"
  have vals: "validators s = vals" using inv by (simp add: consensus_inv_def)
  have grow: "voters C g \<subseteq> voters ?C g" for g by (auto simp: voters_def)
  have elig: "voters ?C g \<subseteq> eligible cfg vals" for g
    using inv True vals by (auto simp: consensus_inv_def voters_def valid_eligible)
  then have indom: "voters ?C g \<subseteq> dom vals" for g using eligible_dom by blast
  have old: "\<exists>g. block_hash E blk = Some g \<and> reaches_quorum b (card (voters ?C g)) (card (dom vals))"
    if "blk \<in> F" for blk
    using inv that two_thirds.grows [OF _ grow indom fin] unfolding consensus_inv_def by blast
  show ?thesis
  proof (cases "votes s h")
    case None
    then have "s' = s" using run True by (simp add: submit_vote_def)
    with True inv old elig grow show ?thesis
      by (auto simp: consensus_inv_def) blast
  next
    case (Some V)
    let ?s = "s\<lparr>votes := (votes s)(h \<mapsto> insert v V)\<rparr>"
    have V: "insert v V \<subseteq> voters ?C h"
    proof -
      have "V \<subseteq> voters C h" using inv Some by (simp add: consensus_inv_def)
      then show ?thesis by (auto simp: voters_def)
    qed
    have inv1: "consensus_inv b cfg E vals ?s ?C F"
      using inv V old elig grow Some by (auto simp: consensus_inv_def) blast+
    have "finite (insert v V)" using V indom fin by (meson finite_subset)
    moreover have "card (insert v V) \<le> card (dom vals)"
      using V indom fin by (meson card_mono order_trans)
    ultimately have check: "check_consensus b (of_nat (card (insert v V))) (of_nat (map_len (validators s))) =
        Some (reaches_quorum b (card (insert v V)) (card (dom vals)))"
      using small vals check_consensus_nat [of "card (insert v V)" "card (dom vals)" b]
      by (simp add: map_len_def reaches_quorum_def)
    have s': "s' = (if reaches_quorum b (card (insert v V)) (card (dom vals)) then finalize now h ?s else ?s)"
      using wp_all [of "submit_vote b cfg now v h" "\<lambda>t. t =
        (if reaches_quorum b (card (insert v V)) (card (dom vals)) then finalize now h ?s else ?s)"
        s r s'] run True Some check
      by (simp add: wp_simps Let_def)
    have ranF: "F \<union> ran (finalized_blocks ?s) = F" using inv1 by (auto simp: consensus_inv_def)
    show ?thesis
    proof (cases "reaches_quorum b (card (insert v V)) (card (dom vals)) \<and> pending_blocks s h \<noteq> None")
      case False
      then have "s' = ?s" using s' by (auto simp: finalize_def)
      with inv1 ranF True show ?thesis by simp
    next
      case quorum_met: True
      then obtain blk where blk: "pending_blocks s h = Some blk" by blast
      with inv have hash: "block_hash E blk = Some h" by (simp add: consensus_inv_def)
      have met: "reaches_quorum b (card (voters ?C h)) (card (dom vals))"
        using two_thirds.grows [OF _ V indom fin] quorum_met by blast
      have s'_eq: "s' = ?s\<lparr>pending_blocks := (pending_blocks s)(h := None),
          finalized_blocks := (finalized_blocks s)(number (header blk) \<mapsto> blk),
          last_finalized_time := now\<rparr>"
        using s' quorum_met blk by (simp add: finalize_def)
      then have "ran (finalized_blocks s') \<subseteq> insert blk F"
        using inv by (auto simp: consensus_inv_def ran_def split: if_splits)
      then have "g \<in> F \<union> ran (finalized_blocks s') \<Longrightarrow> g = blk \<or> g \<in> F" for g by blast
      with hash met old have "\<forall>g \<in> F \<union> ran (finalized_blocks s'). \<exists>k. block_hash E g = Some k \<and>
          reaches_quorum b (card (voters ?C k)) (card (dom vals))" by metis
      then show ?thesis
        using inv1 s'_eq True by (simp add: consensus_inv_def)
    qed
  qed
qed

lemma consensus_run_inv:
  assumes "consensus_run b cfg E vals s C F" and "finite (dom vals)" "card (dom vals) < 2 ^ 62"
  shows "consensus_inv b cfg E vals s C F"
  using assms(1)
proof (induction rule: consensus_run.induct)
  case (run_start now)
  then show ?case by (auto simp: consensus_inv_def consensus_state_new_def voters_def)
next
  case (run_transaction s C F tx r s')
  then have "s' = s\<lparr>pending_transactions := pending_transactions s @ [tx]\<rparr>"
    using wp_all [of "process_transaction tx" "\<lambda>s'. s' = s\<lparr>pending_transactions := pending_transactions s @ [tx]\<rparr>"]
    by (simp add: wp_simps)
  with run_transaction(3) show ?case by (simp add: consensus_inv_def valid_eligible)
next
  case (run_block s C F blk r s')
  show ?case
  proof (cases "block_hash E blk")
    case None
    then have "s' = s" using run_block(2) by (simp add: process_block_def validate_block_def)
    with run_block(3) show ?thesis by simp
  next
    case (Some h)
    then have "s' = s\<lparr>pending_blocks := (pending_blocks s)(h \<mapsto> blk), votes := (votes s)(h \<mapsto> {})\<rparr>"
      using run_block(2) by (simp add: process_block_def validate_block_def)
    with run_block(3) Some show ?thesis
      by (auto simp: consensus_inv_def valid_eligible)
  qed
next
  case (run_vote s C F now v h r s')
  then show ?case using vote_inv assms(2,3) by blast
next
  case (run_round s C F now_secs ks r s')
  with wp_all [OF process_round_keeps run_round(2)] show ?case
    by (auto simp: consensus_inv_def same_chain_def)
next
  case (run_cleanup s C F r s')
  then have "r = Ok ()" "same_chain s s'"
    "votes s' = (\<lambda>h. if pending_blocks s h = None then None else votes s h)"
    using cleanup_wp [of s] by (cases r; simp add: wp_def)+
  with run_cleanup(3) show ?case
    by (auto simp: consensus_inv_def same_chain_def split: if_splits)
qed

section \<open>Safety of finalisation\<close>

text \<open>C7: A block is only ever finalised with the votes of more than two thirds of all validators,
  each of them with at least the stake threshold and counted once, cast by \<open>submit_vote\<close> for the
  hash of exactly this block. This holds for every interleaving of the engine's operations.\<close>

theorem finalized_has_quorum:
  assumes "consensus_run b cfg E vals s C F" and "finite (dom vals)" "card (dom vals) < 2 ^ 62"
    and "blk \<in> F"
  shows "\<exists>h. block_hash E blk = Some h \<and> voters C h \<subseteq> eligible cfg vals \<and>
    2 * card (dom vals) < 3 * card (voters C h)"
proof -
  from consensus_run_inv [OF assms(1-3)] assms(4) obtain h where h: "block_hash E blk = Some h"
    "voters C h \<subseteq> eligible cfg vals" "reaches_quorum b (card (voters C h)) (card (dom vals))"
    by (auto simp: consensus_inv_def)
  with two_thirds.two_thirds [OF h(3)] show ?thesis by blast
qed

text \<open>C6: Accountable safety: if two finalised blocks have different hashes, more than a third of all
  validators voted for both. So as long as at most a third of them vote for two blocks of the
  same number, no two different blocks of the same number are ever finalised.\<close>

theorem accountable_safety:
  assumes "consensus_run b cfg E vals s C F" and "finite (dom vals)" "card (dom vals) < 2 ^ 62"
    and "blk \<in> F" "blk' \<in> F" and "block_hash E blk \<noteq> block_hash E blk'"
  shows "\<exists>h h'. block_hash E blk = Some h \<and> block_hash E blk' = Some h' \<and>
    card (dom vals) < 3 * card (voters C h \<inter> voters C h') \<and>
    (\<forall>B. finite B \<longrightarrow> 3 * card B \<le> card (dom vals) \<longrightarrow> (\<exists>v. v \<notin> B \<and> (v, h) \<in> C \<and> (v, h') \<in> C))"
proof -
  note inv = consensus_run_inv [OF assms(1-3)]
  from inv assms(4) obtain h where h: "block_hash E blk = Some h"
    "voters C h \<subseteq> eligible cfg vals" "reaches_quorum b (card (voters C h)) (card (dom vals))"
    by (auto simp: consensus_inv_def)
  from inv assms(5) obtain h' where h': "block_hash E blk' = Some h'"
    "voters C h' \<subseteq> eligible cfg vals" "reaches_quorum b (card (voters C h')) (card (dom vals))"
    by (auto simp: consensus_inv_def)
  have sub: "voters C h \<subseteq> dom vals" "voters C h' \<subseteq> dom vals"
    using h(2) h'(2) eligible_dom by blast+
  have "\<exists>v \<in> voters C h \<inter> voters C h'. v \<notin> B" if "finite B" "3 * card B \<le> card (dom vals)" for B
    using two_thirds.honest_overlap [OF assms(2) sub h(3) h'(3) that(2,1)] .
  with two_thirds.overlap [OF assms(2) sub h(3) h'(3)] h(1) h'(1) show ?thesis
    unfolding voters_def by blast
qed

text \<open>The chain never grows: whatever happens, \<open>current_height\<close> stays zero, so every block that
  \<open>process_round\<close> creates has number 1, and its parent is the block finalised under number 0,
  or the default hash if there is none.\<close>

theorem height_never_advances:
  assumes "consensus_run b cfg E vals s C F" and "finite (dom vals)" "card (dom vals) < 2 ^ 62"
    and "create_block b cfg E now_secs proposer s = (Ok blk, s')"
  shows "current_height s = 0 \<and> number (header blk) = 1 \<and>
    (finalized_blocks s 0 = None \<longrightarrow> parent_hash (header blk) = default_hash E)"
proof -
  have height: "current_height s = 0"
    using consensus_run_inv [OF assms(1-3)] by (simp add: consensus_inv_def)
  obtain r q where run: "collect_transactions b E (max_block_size cfg) 0 (pending_transactions s) = (r, q)"
    by fastforce
  have one: "add_u b (0 :: u64) 1 = Some 1" by (simp add: add_u_def)
  have "wp (create_block b cfg E now_secs proposer)
      (\<lambda>blk _. number (header blk) = 1 \<and>
        (finalized_blocks s 0 = None \<longrightarrow> parent_hash (header blk) = default_hash E))
      (\<lambda>_ _. True) (\<lambda>_ _. True) s"
    by (cases r) (auto simp: create_block_def get_parent_hash_def wp_simps
        wp_def [of "collect_transactions _ _ _ _"] run height one split: option.split)
  from wp_Ok [OF this assms(4)] height show ?thesis by simp
qed

section \<open>Voting\<close>

text \<open>What one vote does. A vote of an unknown or under-staked validator is an error and changes
  nothing; a vote for a hash without a vote set changes nothing. Otherwise the validator joins
  the set (voting twice has no effect on the count), and the block, if it is pending, is
  finalised and stops being pending at the moment the set exceeds two thirds of all
  validators.\<close>

theorem submit_vote_effect:
  assumes "finite (dom (validators s))" "map_len (validators s) < 2 ^ 62"
    and "\<And>V. votes s h = Some V \<Longrightarrow> V \<subseteq> dom (validators s)"
  shows "submit_vote b cfg now v h s =
    (if v \<notin> eligible cfg (validators s) then (Err (ConsensusError ''Invalid validator''), s)
     else (case votes s h of
         None \<Rightarrow> (Ok (), s)
       | Some V \<Rightarrow>
           (let s' = s\<lparr>votes := (votes s)(h \<mapsto> insert v V)\<rparr>
            in (Ok (), case pending_blocks s h of
                  Some blk \<Rightarrow>
                    if 2 * map_len (validators s) < 3 * card (insert v V)
                    then s'\<lparr>pending_blocks := (pending_blocks s)(h := None),
                      finalized_blocks := (finalized_blocks s)(number (header blk) \<mapsto> blk),
                      last_finalized_time := now\<rparr>
                    else s'
                | None \<Rightarrow> s'))))"
proof (cases "v \<in> eligible cfg (validators s) \<and> votes s h \<noteq> None")
  case False
  then show ?thesis by (auto simp: submit_vote_def valid_eligible split: option.split)
next
  case True
  then obtain V where V: "votes s h = Some V" by blast
  have "insert v V \<subseteq> dom (validators s)" using True V assms(3) eligible_dom by blast
  then have "card (insert v V) \<le> map_len (validators s)"
    using assms(1) by (simp add: map_len_def card_mono)
  then have "check_consensus b (of_nat (card (insert v V))) (of_nat (map_len (validators s))) =
      Some (2 * map_len (validators s) < 3 * card (insert v V))"
    using assms(2) by (intro check_consensus_nat) auto
  with True V show ?thesis
    by (auto simp: submit_vote_def valid_eligible finalize_def Let_def split: option.split)
qed

text \<open>Submitting a block again, with whatever hash it has, discards the votes it has collected: the
  count starts from the next vote alone, and a block that was finalised becomes pending again.\<close>

theorem resubmission_resets_votes:
  assumes "block_hash E blk = Some h" and "process_block E blk s = (r, s')"
    and "v \<in> eligible cfg (validators s)" "2 \<le> map_len (validators s)"
      "map_len (validators s) < 2 ^ 62"
  shows "r = Ok () \<and> votes s' h = Some {} \<and> pending_blocks s' h = Some blk \<and>
    (\<exists>s''. submit_vote b cfg now v h s' = (Ok (), s'') \<and> votes s'' h = Some {v} \<and>
       pending_blocks s'' h = Some blk \<and> finalized_blocks s'' = finalized_blocks s)"
proof -
  have s': "r = Ok ()" "s' = s\<lparr>pending_blocks := (pending_blocks s)(h \<mapsto> blk), votes := (votes s)(h \<mapsto> {})\<rparr>"
    using assms(1,2) by (auto simp: process_block_def validate_block_def)
  have "check_consensus b (of_nat 1) (of_nat (map_len (validators s))) =
      Some (2 * map_len (validators s) < 3 * 1)"
    using assms(5) by (intro check_consensus_nat) auto
  with assms(3,4) show ?thesis
    by (simp add: s' submit_vote_def valid_eligible)
qed

section \<open>Witnesses for runs\<close>

text \<open>One validator, who votes for two blocks.\<close>

definition sample_validators :: "string \<rightharpoonup> validator_info" where
  "sample_validators = [''v'' \<mapsto>
     \<lparr>val_address = ''v'', stake = 1000, last_proposed = 0, total_proposed = 0,
      total_validated = 0, uptime = 0\<rparr>]"

definition numbering_env :: "nat crypto_env" where
  "numbering_env = sample_env\<lparr>ser_header := (\<lambda>h. Some [ucast (number h)])\<rparr>"

definition numbered_block :: "u64 \<Rightarrow> block" where
  "numbered_block n = sample_block\<lparr>header := sample_header\<lparr>number := n\<rparr>\<rparr>"

lemma dom_sample_validators [simp]: "dom sample_validators = {''v''}"
  by (simp add: sample_validators_def)

lemma eligible_sample: "eligible consensus_config_default sample_validators = {''v''}"
  by (auto simp: eligible_def sample_validators_def consensus_config_default_def)

lemma sample_hash: "block_hash numbering_env (numbered_block n) = Some [ucast n]"
  by (simp add: block_hash_def numbering_env_def numbered_block_def sample_env_def)

abbreviation sample_run where
  "sample_run \<equiv> consensus_run Debug consensus_config_default numbering_env sample_validators"

text \<open>A block that is proposed and voted for is finalised.\<close>

lemma sample_finalizes:
  assumes "sample_run s C F"
  shows "\<exists>s'. sample_run s' (insert (''v'', [ucast n]) C) (insert (numbered_block n) F \<union> ran (finalized_blocks s'))
    \<and> finalized_blocks s' n = Some (numbered_block n)"
proof -
  have vals: "validators s = sample_validators"
    using consensus_run_inv [OF assms] by (simp add: consensus_inv_def)
  let ?s1 = "s\<lparr>pending_blocks := (pending_blocks s)([ucast n] \<mapsto> numbered_block n),
    votes := (votes s)([ucast n] \<mapsto> {})\<rparr>"
  have p: "process_block numbering_env (numbered_block n) s = (Ok (), ?s1)"
    by (simp add: process_block_def validate_block_def sample_hash)
  have valid: "is_valid_validator consensus_config_default ''v'' ?s1"
    by (simp add: valid_eligible vals eligible_sample)
  have num: "number (header (numbered_block n)) = n" by (simp add: numbered_block_def)
  obtain s' where v: "submit_vote Debug consensus_config_default 0 ''v'' [ucast n] ?s1 = (Ok (), s')"
    and f: "finalized_blocks s' n = Some (numbered_block n)"
    using valid vals num
    by (simp add: submit_vote_def map_len_def check_consensus_def mul_u_def finalize_def)
  have "sample_run s' (insert (''v'', [ucast n]) C) (F \<union> ran (finalized_blocks s'))"
    using run_vote [OF run_block [OF assms p] v] valid by simp
  moreover have "numbered_block n \<in> ran (finalized_blocks s')" using f by (auto simp: ran_def)
  then have "insert (numbered_block n) F \<union> ran (finalized_blocks s') = F \<union> ran (finalized_blocks s')"
    by blast
  ultimately show ?thesis using f by (intro exI [of _ s']) simp
qed

lemma sample_two_blocks:
  obtains s F where "sample_run s {(''v'', [2]), (''v'', [1])} F"
    "numbered_block 1 \<in> F" "numbered_block 2 \<in> F"
proof -
  obtain s1 F1 where "sample_run s1 {(''v'', [1])} F1" "numbered_block 1 \<in> F1"
    using sample_finalizes [OF run_start, of 1] by auto
  moreover from sample_finalizes [OF this(1), of 2] obtain s2
    where "sample_run s2 {(''v'', [2]), (''v'', [1])} (insert (numbered_block 2) F1 \<union> ran (finalized_blocks s2))"
    by auto
  ultimately show ?thesis using that by blast
qed

theorem finalized_has_quorum_witness:
  "\<exists>s C F h. sample_run s C F \<and> numbered_block 1 \<in> F \<and>
     block_hash numbering_env (numbered_block 1) = Some h \<and> 2 < 3 * card (voters C h)"
proof -
  obtain s F where run: "sample_run s {(''v'', [2]), (''v'', [1])} F" "numbered_block 1 \<in> F"
    by (rule sample_two_blocks)
  from finalized_has_quorum [OF run(1) _ _ run(2)] run show ?thesis by auto
qed

theorem accountable_safety_witness:
  "\<exists>s C F. sample_run s C F \<and> numbered_block 1 \<in> F \<and> numbered_block 2 \<in> F \<and>
     (''v'', [1]) \<in> C \<and> (''v'', [2]) \<in> C \<and>
     (\<exists>h h'. card (dom sample_validators) < 3 * card (voters C h \<inter> voters C h'))"
proof -
  obtain s F where run: "sample_run s {(''v'', [2]), (''v'', [1])} F"
    "numbered_block 1 \<in> F" "numbered_block 2 \<in> F"
    by (rule sample_two_blocks)
  from accountable_safety [OF run(1) _ _ run(2,3)] run show ?thesis
    by (simp add: sample_hash) blast
qed

theorem height_never_advances_witness:
  "\<exists>blk s'. create_block Debug consensus_config_default numbering_env 0 ''v''
     ((consensus_state_new 0)\<lparr>validators := sample_validators\<rparr>) = (Ok blk, s') \<and> number (header blk) = 1"
proof -
  obtain blk s' where blk: "create_block Debug consensus_config_default numbering_env 0 ''v''
     ((consensus_state_new 0)\<lparr>validators := sample_validators\<rparr>) = (Ok blk, s')"
    by (simp add: create_block_def consensus_state_new_def zoom_def andthen_def get_parent_hash_def
        add_u_def compute_transactions_root_def)
  from height_never_advances [OF run_start _ _ blk] blk show ?thesis by auto
qed

theorem submit_vote_effect_witness:
  "fst (submit_vote Debug consensus_config_default 0 ''v'' []
     ((consensus_state_new 0)\<lparr>validators := sample_validators\<rparr>)) = Ok ()"
  using submit_vote_effect [of "(consensus_state_new 0)\<lparr>validators := sample_validators\<rparr>" "[]"
      Debug consensus_config_default 0 "''v''"]
  by (simp add: consensus_state_new_def map_len_def eligible_sample)

theorem resubmission_resets_votes_witness:
  "votes (snd (submit_vote Debug consensus_config_default 0 ''v'' [1]
     (snd (process_block numbering_env (numbered_block 1)
       ((consensus_state_new 0)\<lparr>validators := sample_validators(''w'' \<mapsto> the (sample_validators ''v'')),
          votes := [[1] \<mapsto> {''w''}]\<rparr>))))) [1] = Some {''v''}"
proof -
  let ?vals = "sample_validators(''w'' \<mapsto> the (sample_validators ''v''))"
  let ?s = "(consensus_state_new 0)\<lparr>validators := ?vals, votes := [[1] \<mapsto> {''w''}]\<rparr>"
  have "map_len ?vals = 2" by (simp add: map_len_def)
  moreover have "''v'' \<in> eligible consensus_config_default ?vals"
    using eligible_sample by (auto simp: eligible_def)
  moreover note resubmission_resets_votes [OF sample_hash prod.collapse [symmetric], of "''v''"
      consensus_config_default ?s 1 Debug 0]
  ultimately show ?thesis by auto
qed

section \<open>Proposers\<close>

definition stake_of :: "(string \<rightharpoonup> validator_info) \<Rightarrow> string \<Rightarrow> nat" where
  "stake_of vals k = (case vals k of None \<Rightarrow> 0 | Some info \<Rightarrow> unat (stake info))"

text \<open>The first prefix of the order whose stakes sum up to more than the goal ends in the choice.\<close>

lemma pick_proposer_spec:
  assumes "set ks \<subseteq> dom vals"
  shows "(case pick_proposer vals goal_sum ks of
      None \<Rightarrow> sum_list (map (stake_of vals) ks) \<le> goal_sum
    | Some k \<Rightarrow> \<exists>us ws. ks = us @ k # ws \<and> sum_list (map (stake_of vals) us) \<le> goal_sum \<and>
        goal_sum < sum_list (map (stake_of vals) us) + stake_of vals k)"
  using assms
proof (induction ks arbitrary: goal_sum)
  case (Cons k ks)
  then obtain info where info: "vals k = Some info" by auto
  show ?case
  proof (cases "goal_sum < unat (stake info)")
    case True
    with info show ?thesis
      by (auto simp: stake_of_def intro: exI [of _ "[]"])
  next
    case False
    note IH = Cons.IH [of "goal_sum - unat (stake info)"]
    show ?thesis
    proof (cases "pick_proposer vals (goal_sum - unat (stake info)) ks")
      case None
      with IH Cons.prems info False show ?thesis by (simp add: stake_of_def)
    next
      case (Some p)
      with IH Cons.prems obtain us ws where "ks = us @ p # ws"
        "sum_list (map (stake_of vals) us) \<le> goal_sum - unat (stake info)"
        "goal_sum - unat (stake info) < sum_list (map (stake_of vals) us) + stake_of vals p"
        by auto
      moreover have "stake_of vals k = unat (stake info)" by (simp add: stake_of_def info)
      ultimately have "k # ks = (k # us) @ p # ws \<and>
          sum_list (map (stake_of vals) (k # us)) \<le> goal_sum \<and>
          goal_sum < sum_list (map (stake_of vals) (k # us)) + stake_of vals p"
        using False by auto
      moreover have "pick_proposer vals goal_sum (k # ks) = Some p" using Some info False by simp
      ultimately show ?thesis by (simp only: option.case) blast
    qed
  qed
qed simp

lemma sum_stakes_Release:
  "set ks \<subseteq> dom vals \<Longrightarrow> \<exists>t. sum_stakes Release vals acc ks = Some t"
  by (induction ks arbitrary: acc) (auto split: option.split)

lemma select_proposer_eq:
  assumes "iterates (validators s) ks" and "ks \<noteq> []"
    and "sum_stakes b (validators s) 0 ks = Some total_stake"
  shows "select_proposer b ks s = ok_or (ConsensusError ''No valid proposer found'')
    (pick_proposer (validators s) (unat (current_round s) * unat total_stake mod length ks) ks) s"
  using assms by (simp add: select_proposer_def iterates_len [OF assms(1), symmetric])



text \<open>An engine as \<open>new\<close> makes it panics in its first round, with a division by zero: the
  validator set is empty, and no operation of the engine adds a validator.\<close>

theorem fresh_engine_panics:
  "fst (consensus_tick b cfg E now_secs now' [] (consensus_state_new now)) = Panic DivideByZero"
  by (simp add: consensus_tick_def process_round_def select_proposer_def consensus_state_new_def
      andthen_def map_len_def add_u_def)

section \<open>Created blocks\<close>

definition tx_size :: "'k crypto_env \<Rightarrow> transaction \<Rightarrow> nat" where
  "tx_size E tx = (case ser_tx E tx of None \<Rightarrow> 0 | Some bytes \<Rightarrow> length bytes)"

lemma collect_transactions_spec:
  assumes "\<forall>tx \<in> set q. tx_size E tx < 2 ^ 63" and "unat limit < 2 ^ 63" and "used \<le> limit"
    and "collect_transactions b E limit used q = (Ok txs, q')"
  shows "q = txs @ q' \<and> unat used + sum_list (map (tx_size E) txs) \<le> unat limit \<and>
    (q' \<noteq> [] \<longrightarrow> unat limit < unat used + sum_list (map (tx_size E) txs) + tx_size E (hd q'))"
  using assms
proof (induction q arbitrary: used txs)
  case (Cons tx q)
  then obtain bytes where bytes: "ser_tx E tx = Some bytes" by (auto split: option.splits)
  have len: "tx_size E tx = length bytes" by (simp add: tx_size_def bytes)
  with Cons.prems(1) have "length bytes < 2 ^ 63" by auto
  then have nat: "unat (of_nat (length bytes) :: usize) = length bytes"
    by (simp add: unsigned_of_nat take_bit_nat_eq_self)
  have "unat used < 2 ^ 63" using Cons.prems(2,3) by (simp add: word_le_nat_alt)
  with nat \<open>length bytes < 2 ^ 63\<close> have sum: "add_u b used (of_nat (length bytes)) = Some (used + of_nat (length bytes))"
    "unat (used + of_nat (length bytes)) = unat used + length bytes"
    by (simp_all add: add_u_exact unat_add_no_wrap)
  show ?case
  proof (cases "limit < used + of_nat (length bytes)")
    case True
    with Cons.prems bytes sum len show ?thesis by (auto simp: word_less_nat_alt word_le_nat_alt)
  next
    case False
    with Cons.prems(4) bytes sum obtain txs' where
      rec: "collect_transactions b E limit (used + of_nat (length bytes)) q = (Ok txs', q')"
      and txs: "txs = tx # txs'"
      by (auto split: prod.splits outcome.splits)
    from Cons.IH [OF _ Cons.prems(2) _ rec] Cons.prems(1) False sum len txs show ?thesis
      by (auto simp: not_less)
  qed
qed (simp add: word_le_nat_alt)

text \<open>A round takes the longest prefix of the transaction queue that fits into a block, in order,
  and stops at the first transaction that does not fit, which then stays in front. The block is
  not kept: pending and finalised blocks and votes are as before, so the transactions taken
  are in no part of the state any more.\<close>

theorem round_discards_transactions:
  assumes "process_round b cfg E now_secs ks s = (Ok (), s')"
    and "\<forall>tx \<in> set (pending_transactions s). tx_size E tx < 2 ^ 63"
    and "unat (max_block_size cfg) < 2 ^ 63"
  shows "\<exists>txs. pending_transactions s = txs @ pending_transactions s' \<and>
    sum_list (map (tx_size E) txs) \<le> unat (max_block_size cfg) \<and>
    (pending_transactions s' \<noteq> [] \<longrightarrow> unat (max_block_size cfg) <
       sum_list (map (tx_size E) txs) + tx_size E (hd (pending_transactions s'))) \<and>
    pending_blocks s' = pending_blocks s \<and> finalized_blocks s' = finalized_blocks s \<and>
    votes s' = votes s"
proof -
  have same: "same_chain s s' \<and> votes s' = votes s"
    using wp_all [OF process_round_keeps assms(1)] .
  obtain r q where run: "collect_transactions b E (max_block_size cfg) 0 (pending_transactions s) = (r, q)"
    by fastforce
  have "\<exists>txs. r = Ok txs \<and> pending_transactions s' = q"
  proof -
    from assms(1) obtain n p u where "select_proposer b ks (s\<lparr>current_round := n\<rparr>) = (Ok p, u)"
      and c: "\<exists>blk. create_block b cfg E now_secs p u = (Ok blk, s')"
      by (auto simp: process_round_def comp_Ok_iffs)
    with wp_Ok [OF select_proposer_reads] have "u = s\<lparr>current_round := n\<rparr>" by blast
    with c run show ?thesis
      by (cases r) (auto simp: create_block_def get_parent_hash_def comp_Ok_iffs zoom_def
          split: option.splits)
  qed
  then obtain txs where "r = Ok txs" and q: "pending_transactions s' = q" by blast
  from collect_transactions_spec [OF assms(2,3) _ run [unfolded \<open>r = Ok txs\<close>]] q same show ?thesis
    by (auto simp: same_chain_def)
qed

lemma sample_round:
  "\<exists>s'. process_round Debug consensus_config_default sample_env 0 [''v'']
     ((consensus_state_new 0)\<lparr>validators := sample_validators, pending_transactions := [sample_tx]\<rparr>) =
     (Ok (), s')"
  by (simp add: process_round_def andthen_def select_proposer_def create_block_def zoom_def
      get_parent_hash_def compute_transactions_root_def map_len_def consensus_state_new_def
      add_u_def consensus_config_default_def sample_env_def sample_validators_def)

theorem round_discards_transactions_witness:
  "\<exists>s'. process_round Debug consensus_config_default sample_env 0 [''v'']
     ((consensus_state_new 0)\<lparr>validators := sample_validators, pending_transactions := [sample_tx]\<rparr>) =
     (Ok (), s') \<and> pending_transactions s' = [] \<and> pending_blocks s' = Map.empty"
proof -
  let ?s = "(consensus_state_new 0)\<lparr>validators := sample_validators, pending_transactions := [sample_tx]\<rparr>"
  obtain s' where run: "process_round Debug consensus_config_default sample_env 0 [''v''] ?s = (Ok (), s')"
    using sample_round by blast
  have "tx_size sample_env sample_tx = 1" by (simp add: tx_size_def sample_env_def)
  with round_discards_transactions [OF run] obtain txs where
    txs: "[sample_tx] = txs @ pending_transactions s'" "pending_blocks s' = Map.empty"
    "pending_transactions s' \<noteq> [] \<longrightarrow> 1048576 < sum_list (map (tx_size sample_env) txs) +
      tx_size sample_env (hd (pending_transactions s'))"
    by (auto simp: consensus_config_default_def consensus_state_new_def)
  have "pending_transactions s' = []"
  proof (cases txs)
    case Nil
    with txs have "pending_transactions s' = [sample_tx]" by simp
    with txs Nil \<open>tx_size sample_env sample_tx = 1\<close> show ?thesis by simp
  next
    case (Cons tx us)
    with txs show ?thesis by simp
  qed
  with run txs show ?thesis by blast
qed

end
