(* ===== verification/Consensus_Liveness.thy ===== *)
theory Consensus_Liveness
  imports Consensus_Properties
begin

text \<open>
  The timer loop of the consensus engine (\<open>ConsensusEngine::start\<close>, \<open>src/network/consensus.rs\<close>)
  with the calls that other tasks make meanwhile, and what the engine needs to get anywhere: a
  quorum of votes finalises a pending block, and without a vote the loop ends within a minute.
\<close>

section \<open>The loop of the engine\<close>

text \<open>The calls of other tasks, with the clock a vote reads. Their results go to their callers; a call
  that panics leaves the state it has reached.\<close>

datatype engine_call = Submit_Transaction transaction | Submit_Block block | Submit_Vote nat string digest

fun do_call :: "build \<Rightarrow> consensus_config \<Rightarrow> 'k crypto_env \<Rightarrow> engine_call \<Rightarrow>
    consensus_state \<Rightarrow> consensus_state" where
  "do_call b cfg E (Submit_Transaction tx) s = snd (process_transaction tx s)"
| "do_call b cfg E (Submit_Block blk) s = snd (process_block E blk s)"
| "do_call b cfg E (Submit_Vote now v h) s = snd (submit_vote b cfg now v h s)"

text \<open>One pass of the loop: each phase takes the lock for itself, so calls come in before each. The
  pass reads the clock twice, in seconds for the block and in nanoseconds for the check, and
  \<open>process_round\<close> iterates the validators in some order.\<close>

record loop_pass =
  pass_secs :: u64
  pass_now :: nat
  pass_order :: "string list"
  before_round :: "engine_call list"
  before_check :: "engine_call list"
  before_cleanup :: "engine_call list"

definition interfere ::
  "build \<Rightarrow> consensus_config \<Rightarrow> 'k crypto_env \<Rightarrow> engine_call list \<Rightarrow> unit consensus" where
  "interfere b cfg E calls = updates (fold (do_call b cfg E) calls)"

definition consensus_pass ::
  "build \<Rightarrow> consensus_config \<Rightarrow> 'k crypto_env \<Rightarrow> loop_pass \<Rightarrow> unit consensus" where
  "consensus_pass b cfg E p =
     andthen (interfere b cfg E (before_round p)) (\<lambda>_.
     andthen (process_round b cfg E (pass_secs p) (pass_order p)) (\<lambda>_.
     andthen (interfere b cfg E (before_check p)) (\<lambda>_.
     andthen (check_finalization (pass_now p)) (\<lambda>_.
     andthen (interfere b cfg E (before_cleanup p)) (\<lambda>_.
     cleanup)))))"

text \<open>The loop has no exit of its own: it returns \<open>Ok\<close> here when it is still running after the given
  passes.\<close>

fun consensus_start ::
  "build \<Rightarrow> consensus_config \<Rightarrow> 'k crypto_env \<Rightarrow> loop_pass list \<Rightarrow> unit consensus" where
  "consensus_start b cfg E [] = ret ()"
| "consensus_start b cfg E (p # ps) =
     andthen (consensus_pass b cfg E p) (\<lambda>_. consensus_start b cfg E ps)"

text \<open>Undisturbed, a pass is the tick of the engine alone.\<close>

lemma undisturbed_pass:
  "consensus_pass b cfg E
     \<lparr>pass_secs = now_secs, pass_now = now, pass_order = ks, before_round = [], before_check = [],
      before_cleanup = []\<rparr> = consensus_tick b cfg E now_secs now ks"
  by (simp add: consensus_pass_def consensus_tick_def interfere_def fun_eq_iff andthen_def
      split: prod.split outcome.split)

section \<open>A quorum finalises\<close>

definition cast_votes ::
  "build \<Rightarrow> consensus_config \<Rightarrow> 'k crypto_env \<Rightarrow> (nat \<times> string) list \<Rightarrow> digest \<Rightarrow> consensus_state \<Rightarrow>
   consensus_state" where
  "cast_votes b cfg E vs h = fold (\<lambda>(now, v). do_call b cfg E (Submit_Vote now v h)) vs"

lemma cast_votes_simps [simp]:
  "cast_votes b cfg E [] h s = s"
  "cast_votes b cfg E ((now, v) # vs) h s =
     cast_votes b cfg E vs h (snd (submit_vote b cfg now v h s))"
  by (simp_all add: cast_votes_def)

text \<open>Votes for a block that is not pending change neither the chain nor the blocks.\<close>

lemma late_vote:
  assumes "pending_blocks s h = None"
  shows "pending_blocks (snd (submit_vote b cfg now v h s)) = pending_blocks s \<and>
    finalized_blocks (snd (submit_vote b cfg now v h s)) = finalized_blocks s"
proof -
  let ?Q = "\<lambda>s'. pending_blocks s' = pending_blocks s \<and> finalized_blocks s' = finalized_blocks s"
  have "wp (submit_vote b cfg now v h) (\<lambda>_. ?Q) (\<lambda>_. ?Q) (\<lambda>_. ?Q) s"
    using assms by (simp add: wp_simps Let_def finalize_def split: option.split)
  from wp_all [OF this prod.collapse [symmetric]] show ?thesis .
qed

lemma late_votes:
  "pending_blocks s h = None \<Longrightarrow>
   pending_blocks (cast_votes b cfg E vs h s) = pending_blocks s \<and>
   finalized_blocks (cast_votes b cfg E vs h s) = finalized_blocks s"
proof (induction vs arbitrary: s)
  case (Cons p vs)
  obtain now v where "p = (now, v)" by (cases p)
  with late_vote [OF Cons.prems, of b cfg now v] Cons.prems
    Cons.IH [of "snd (submit_vote b cfg now v h s)"] show ?case by simp
qed simp

lemma cast_votes_effect:
  assumes "finite (dom (validators s))" and "map_len (validators s) < 2 ^ 62"
    and "snd ` set vs \<subseteq> eligible cfg (validators s)"
    and "votes s h = Some V" and "V \<subseteq> dom (validators s)" and "pending_blocks s h = Some blk"
    and "3 * card V \<le> 2 * map_len (validators s)"
  shows "if 2 * map_len (validators s) < 3 * card (V \<union> snd ` set vs)
    then pending_blocks (cast_votes b cfg E vs h s) h = None \<and>
      finalized_blocks (cast_votes b cfg E vs h s) = (finalized_blocks s)(number (header blk) \<mapsto> blk)
    else pending_blocks (cast_votes b cfg E vs h s) h = Some blk \<and>
      finalized_blocks (cast_votes b cfg E vs h s) = finalized_blocks s"
  using assms
proof (induction vs arbitrary: s V)
  case (Cons p vs)
  obtain now v where p: "p = (now, v)" by (cases p)
  let ?n = "map_len (validators s)" and ?s = "snd (submit_vote b cfg now v h s)"
  have v: "v \<in> eligible cfg (validators s)" using Cons.prems(3) p by simp
  have vote: "submit_vote b cfg now v h s =
      (let s' = s\<lparr>votes := (votes s)(h \<mapsto> insert v V)\<rparr>
       in (Ok (), if 2 * ?n < 3 * card (insert v V)
          then s'\<lparr>pending_blocks := (pending_blocks s)(h := None),
            finalized_blocks := (finalized_blocks s)(number (header blk) \<mapsto> blk),
            last_finalized_time := now\<rparr>
          else s'))"
    using submit_vote_effect [OF Cons.prems(1,2), of h b cfg now v] Cons.prems(4-6) v by simp
  have all: "V \<union> snd ` set (p # vs) = insert v V \<union> snd ` set vs" using p by auto
  show ?case
  proof (cases "2 * ?n < 3 * card (insert v V)")
    case True
    have fin: "finite (V \<union> snd ` set (p # vs))"
      using Cons.prems(1,5) by (auto intro: finite_subset)
    have "card (insert v V) \<le> card (V \<union> snd ` set (p # vs))"
      by (rule card_mono [OF fin]) (use all in auto)
    then have "2 * ?n < 3 * card (V \<union> snd ` set (p # vs))" using True by linarith
    moreover have "pending_blocks ?s h = None" using vote True by (simp add: Let_def)
    ultimately show ?thesis
      using late_votes [of ?s h b cfg E vs] vote True p by (simp add: Let_def)
  next
    case False
    then have "?s = s\<lparr>votes := (votes s)(h \<mapsto> insert v V)\<rparr>" using vote by (simp add: Let_def)
    moreover have "insert v V \<subseteq> dom (validators s)" using Cons.prems(5) v eligible_dom by blast
    ultimately show ?thesis
      using Cons.IH [of "s\<lparr>votes := (votes s)(h \<mapsto> insert v V)\<rparr>" "insert v V"] Cons.prems False p all
      by simp
  qed
qed simp

text \<open>C8: Votes finalise a block exactly when they make a quorum: after a block is submitted and any
  validators with enough stake vote for its hash, in any order and however often each, the block is
  finalised under its number and no longer pending if they are more than two thirds of all
  validators, and otherwise it stays pending and no other block is finalised.\<close>

theorem quorum_finalises:
  assumes "finite (dom (validators s))" and "map_len (validators s) < 2 ^ 62"
    and "block_hash E blk = Some h" and "snd ` set vs \<subseteq> eligible cfg (validators s)"
  shows "let s' = cast_votes b cfg E vs h (snd (process_block E blk s))
    in if 2 * map_len (validators s) < 3 * card (snd ` set vs)
      then pending_blocks s' h = None \<and>
        finalized_blocks s' = (finalized_blocks s)(number (header blk) \<mapsto> blk)
      else pending_blocks s' h = Some blk \<and> finalized_blocks s' = finalized_blocks s"
proof -
  let ?s = "s\<lparr>pending_blocks := (pending_blocks s)(h \<mapsto> blk), votes := (votes s)(h \<mapsto> {})\<rparr>"
  have "snd (process_block E blk s) = ?s"
    using assms(3) by (simp add: process_block_def validate_block_def)
  then show ?thesis
    using cast_votes_effect [of ?s vs cfg h "{}" blk b E] assms by (simp add: Let_def)
qed

text \<open>Of four validators, two are no quorum and three are, and the same vote again adds nothing.\<close>

definition four_validators :: "string \<rightharpoonup> validator_info" where
  "four_validators v =
     (if v \<in> {''a'', ''b'', ''c'', ''d''}
      then Some \<lparr>val_address = v, stake = 1000, last_proposed = 0, total_proposed = 0,
        total_validated = 0, uptime = 0\<rparr> else None)"

lemma dom_four_validators [simp]: "dom four_validators = {''a'', ''b'', ''c'', ''d''}"
  by (auto simp: four_validators_def split: if_splits)

lemma eligible_four: "eligible consensus_config_default four_validators = {''a'', ''b'', ''c'', ''d''}"
  by (auto simp: eligible_def four_validators_def consensus_config_default_def split: if_splits)

theorem quorum_finalises_witness:
  "let s = (consensus_state_new 0)\<lparr>validators := four_validators\<rparr>;
       submitted = snd (process_block numbering_env (numbered_block 5) s);
       cast = (\<lambda>vs. cast_votes Debug consensus_config_default numbering_env vs [5] submitted)
   in finalized_blocks (cast [(1, ''a''), (2, ''b''), (3, ''a'')]) 5 = None \<and>
     finalized_blocks (cast [(1, ''a''), (2, ''d''), (3, ''c'')]) 5 = Some (numbered_block 5)"
proof -
  let ?s = "(consensus_state_new 0)\<lparr>validators := four_validators\<rparr>"
  have hash: "block_hash numbering_env (numbered_block 5) = Some [5]" by (simp add: sample_hash)
  have num: "number (header (numbered_block 5)) = 5" by (simp add: numbered_block_def)
  have size: "map_len four_validators = 4" by (simp add: map_len_def)
  note * = quorum_finalises [of ?s numbering_env "numbered_block 5" "[5]" _ consensus_config_default Debug, OF _ _ hash]
  show ?thesis
    using * [of "[(1, ''a''), (2, ''b''), (3, ''a'')]"] * [of "[(1, ''a''), (2, ''d''), (3, ''c'')]"]
    by (simp add: Let_def eligible_four num size consensus_state_new_def card_insert_if)
qed

section \<open>Without votes the loop ends\<close>

text \<open>The calls do not advance the time of the last finalisation beyond \<open>t\<close> unless they vote later.\<close>

definition votes_until :: "nat \<Rightarrow> engine_call list \<Rightarrow> bool" where
  "votes_until t calls \<longleftrightarrow>
     list_all (\<lambda>c. case c of Submit_Vote now v h \<Rightarrow> now \<le> t | _ \<Rightarrow> True) calls"

lemma last_finalized_vote:
  "last_finalized_time (snd (submit_vote b cfg now v h s)) \<in> {last_finalized_time s, now}"
proof -
  let ?Q = "\<lambda>s'. last_finalized_time s' \<in> {last_finalized_time s, now}"
  have "wp (submit_vote b cfg now v h) (\<lambda>_. ?Q) (\<lambda>_. ?Q) (\<lambda>_. ?Q) s"
    by (simp add: wp_simps Let_def finalize_def split: option.split)
  from wp_all [OF this prod.collapse [symmetric]] show ?thesis .
qed

lemma last_finalized_calls:
  "votes_until t calls \<Longrightarrow> last_finalized_time s \<le> t \<Longrightarrow>
   last_finalized_time (fold (do_call b cfg E) calls s) \<le> t"
proof (induction calls arbitrary: s)
  case (Cons c calls)
  have "last_finalized_time (do_call b cfg E c s) \<le> t"
  proof (cases c)
    case (Submit_Transaction tx)
    then show ?thesis
      using Cons.prems(2) by (simp add: process_transaction_def validate_transaction_def)
  next
    case (Submit_Block blk)
    then show ?thesis
      using Cons.prems(2) by (cases "block_hash E blk") (simp_all add: process_block_def validate_block_def)
  next
    case (Submit_Vote now v h)
    then have "now \<le> t" using Cons.prems(1) by (simp add: votes_until_def)
    with Submit_Vote Cons.prems(2) last_finalized_vote [of b cfg now v h s] show ?thesis by auto
  qed
  with Cons show ?case by (simp add: votes_until_def)
qed simp

definition quiet_until :: "nat \<Rightarrow> loop_pass \<Rightarrow> bool" where
  "quiet_until t p \<longleftrightarrow>
     votes_until t (before_round p) \<and> votes_until t (before_check p) \<and> votes_until t (before_cleanup p)"

lemma round_time:
  "wp (process_round b cfg E now_secs ks) (\<lambda>_ s'. last_finalized_time s' = last_finalized_time s)
     (\<lambda>_ _. True) (\<lambda>_ _. True) s"
  by (rule wp_mono [OF process_round_keeps]) (auto simp: same_chain_def)

lemma quiet_pass:
  assumes "last_finalized_time s \<le> t"
  shows "votes_until t (before_round p) \<Longrightarrow> votes_until t (before_check p) \<Longrightarrow>
    wp (consensus_pass b cfg E p)
      (\<lambda>_ s'. pass_now p \<le> t + 60 * 10 ^ 9 \<and>
        (votes_until t (before_cleanup p) \<longrightarrow> last_finalized_time s' \<le> t))
      (\<lambda>_ _. True) (\<lambda>_ _. True) s"
  unfolding consensus_pass_def interfere_def wp_andthen wp_updates
proof (rule wp_mono [OF round_time])
  fix u :: unit and s' :: consensus_state
  assume v: "votes_until t (before_round p)" "votes_until t (before_check p)"
    and "last_finalized_time s' = last_finalized_time (fold (do_call b cfg E) (before_round p) s)"
  then have "last_finalized_time s' \<le> t"
    using last_finalized_calls [OF v(1) assms] by simp
  note t1 = last_finalized_calls [OF v(2) this, of b cfg E]
  show "wp (check_finalization (pass_now p))
      (\<lambda>_ s'. wp cleanup (\<lambda>_ s'. pass_now p \<le> t + 60 * 10 ^ 9 \<and>
          (votes_until t (before_cleanup p) \<longrightarrow> last_finalized_time s' \<le> t))
        (\<lambda>_ _. True) (\<lambda>_ _. True) (fold (do_call b cfg E) (before_cleanup p) s'))
      (\<lambda>_ _. True) (\<lambda>_ _. True) (fold (do_call b cfg E) (before_check p) s')"
    using t1 last_finalized_calls [OF _ t1]
    by (auto simp: check_finalization_def cleanup_def wp_simps)
qed simp_all

lemma quiet_passes:
  assumes "last_finalized_time s \<le> t" and "list_all (quiet_until t) ps"
  shows "wp (consensus_start b cfg E ps) (\<lambda>_ s'. last_finalized_time s' \<le> t) (\<lambda>_ _. True) (\<lambda>_ _. True) s"
  using assms
proof (induction ps arbitrary: s)
  case (Cons p ps)
  then have "votes_until t (before_round p)" "votes_until t (before_check p)" "votes_until t (before_cleanup p)"
    by (simp_all add: quiet_until_def)
  then show ?case
    unfolding consensus_start.simps wp_andthen
    by (intro wp_mono [OF quiet_pass [OF Cons.prems(1)]]) (use Cons in auto)
qed (simp add: wp_simps)

text \<open>An engine whose rounds cannot fail, for the next \<open>n\<close> of them: there are validators, with a stake of at
  least one on average and no overflow in the sum; round and height are not at the end of their range; and
  what it has to serialise does serialise, in fewer than \<open>2^63\<close> bytes as everything in memory has.\<close>

definition engine_ready :: "consensus_config \<Rightarrow> 'k crypto_env \<Rightarrow> nat \<Rightarrow> consensus_state \<Rightarrow> bool" where
  "engine_ready cfg E n s \<longleftrightarrow>
     finite (dom (validators s)) \<and> validators s \<noteq> Map.empty \<and>
     map_len (validators s) \<le> sum (stake_of (validators s)) (dom (validators s)) \<and>
     sum (stake_of (validators s)) (dom (validators s)) < 2 ^ 64 \<and>
     unat (current_round s) + n < 2 ^ 64 \<and> current_height s \<noteq> - 1 \<and> unat (max_block_size cfg) < 2 ^ 63 \<and>
     (\<forall>tx. \<exists>bytes. ser_tx E tx = Some bytes \<and> length bytes < 2 ^ 63) \<and>
     (\<forall>blk \<in> ran (pending_blocks s) \<union> ran (finalized_blocks s). block_hash E blk \<noteq> None)"

lemma sum_stakes_exact:
  assumes "unat acc + sum_list (map (stake_of vals) ks) < 2 ^ 64"
  shows "sum_stakes b vals acc ks \<noteq> None"
  using assms
proof (induction ks arbitrary: acc)
  case (Cons k ks)
  show ?case
  proof (cases "vals k")
    case (Some info)
    then have "stake_of vals k = unat (stake info)" by (simp add: stake_of_def)
    with Cons.prems have "unat acc + unat (stake info) < 2 ^ 64" by simp
    then have "unat (acc + stake info) = unat acc + unat (stake info)"
      "add_u b acc (stake info) = Some (acc + stake info)"
      by (simp_all add: unat_add_no_wrap add_u_exact)
    with Cons Some \<open>stake_of vals k = _\<close> show ?thesis by simp
  qed (use Cons in \<open>simp add: stake_of_def\<close>)
qed simp

lemma collect_transactions_succeeds:
  assumes "\<forall>tx. \<exists>bytes. ser_tx E tx = Some bytes \<and> length bytes < 2 ^ 63"
    and "unat limit < 2 ^ 63" and "used \<le> limit"
  shows "\<exists>txs q. collect_transactions b E limit used queue = (Ok txs, q)"
  using assms(3)
proof (induction queue arbitrary: used)
  case (Cons tx queue)
  obtain bytes where bytes: "ser_tx E tx = Some bytes" "length bytes < 2 ^ 63" using assms(1) by blast
  have "unat used + unat (of_nat (length bytes) :: usize) < 2 ^ 64"
    using bytes(2) assms(2) Cons.prems by (simp add: unsigned_of_nat take_bit_nat_eq_self word_le_nat_alt)
  then have "add_u b used (of_nat (length bytes)) = Some (used + of_nat (length bytes))"
    by (simp add: add_u_exact)
  with bytes Cons.IH [of "used + of_nat (length bytes)"] show ?case by (auto simp: not_less)
qed simp

lemma ser_all_succeeds:
  assumes "\<forall>tx. ser_tx E tx \<noteq> None"
  shows "\<exists>bytes. ser_all E txs = Some bytes"
proof (induction txs)
  case (Cons tx txs)
  obtain b where "ser_tx E tx = Some b" using assms by fastforce
  with Cons show ?case by auto
qed simp

lemma proposer_found:
  assumes "engine_ready cfg E n s" and "iterates (validators s) ks"
  shows "\<exists>k. select_proposer b ks s = (Ok k, s)"
proof -
  have ks: "distinct ks" "set ks = dom (validators s)" using assms(2) by (simp_all add: iterates_def)
  then have stakes: "sum_list (map (stake_of (validators s)) ks) = sum (stake_of (validators s)) (dom (validators s))"
    by (simp add: sum_list_distinct_conv_sum_set)
  have "dom (validators s) \<noteq> {}" using assms(1) by (simp add: engine_ready_def)
  with ks(2) have "ks \<noteq> []" by (metis list.set(1))
  moreover have "length ks \<le> sum_list (map (stake_of (validators s)) ks)"
    "sum_list (map (stake_of (validators s)) ks) < 2 ^ 64"
    using assms stakes iterates_len [OF assms(2)] by (simp_all add: engine_ready_def)
  ultimately have ready: "ks \<noteq> []" "length ks \<le> sum_list (map (stake_of (validators s)) ks)"
    "sum_list (map (stake_of (validators s)) ks) < 2 ^ 64" by simp_all
  obtain total where total: "sum_stakes b (validators s) 0 ks = Some total"
    using sum_stakes_exact [of 0 "validators s" ks b] ready(3) by auto
  let ?goal = "unat (current_round s) * unat total mod length ks"
  have "?goal < length ks" using ready(1) by simp
  with ready(2) pick_proposer_spec [of ks "validators s" ?goal] ks(2)
  have "pick_proposer (validators s) ?goal ks \<noteq> None" by (auto split: option.splits)
  then show ?thesis using select_proposer_eq [OF assms(2) ready(1) total] by auto
qed

lemma round_succeeds:
  assumes "engine_ready cfg E (Suc n) s" and "iterates (validators s) ks"
  shows "wp (process_round b cfg E now_secs ks) (\<lambda>_. engine_ready cfg E n) (\<lambda>_ _. False) (\<lambda>_ _. False) s"
proof -
  have "unat (current_round s) + unat (1 :: u64) < 2 ^ 64" using assms(1) by (simp add: engine_ready_def)
  then have round: "add_u b (current_round s) 1 = Some (current_round s + 1)"
    "unat (current_round s + 1) = unat (current_round s) + 1"
    by (simp_all add: add_u_exact unat_add_no_wrap)
  let ?s = "s\<lparr>current_round := current_round s + 1\<rparr>"
  have ready: "engine_ready cfg E n ?s" using assms(1) round(2) by (simp add: engine_ready_def)
  obtain k where k: "select_proposer b ks ?s = (Ok k, ?s)"
    using proposer_found [OF ready, of ks b] assms(2) by auto
  have txs: "\<forall>tx. \<exists>bytes. ser_tx E tx = Some bytes \<and> length bytes < 2 ^ 63" "unat (max_block_size cfg) < 2 ^ 63"
    using assms(1) by (simp_all add: engine_ready_def)
  obtain taken q where collect:
    "collect_transactions b E (max_block_size cfg) 0 (pending_transactions s) = (Ok taken, q)"
    using collect_transactions_succeeds [OF txs, of 0 b "pending_transactions s"] by auto
  have "\<forall>tx. ser_tx E tx \<noteq> None" using txs(1) by fastforce
  then obtain bytes where root: "ser_all E taken = Some bytes" using ser_all_succeeds by blast
  have height: "current_height s \<noteq> - 1" using assms(1) by (simp add: engine_ready_def)
  have parent: "\<exists>h. block_hash E blk = Some h" if "finalized_blocks s (current_height s) = Some blk" for blk
    using assms(1) that by (auto simp: engine_ready_def ran_def)
  have "engine_ready cfg E n (?s\<lparr>pending_transactions := q\<rparr>)" using ready by (simp add: engine_ready_def)
  then show ?thesis
    using round k collect root height parent
    by (auto simp: process_round_def create_block_def get_parent_hash_def wp_simps add_u_one
        wp_def [of "select_proposer _ _"] wp_def [of "collect_transactions _ _ _ _"]
        compute_transactions_root_def split: option.split)
qed

lemma finalize_ready: "engine_ready cfg E n s \<Longrightarrow> engine_ready cfg E n (finalize now h s)"
  by (auto simp: finalize_def engine_ready_def ran_def split: option.split)

lemma call_ready:
  assumes "engine_ready cfg E n s"
  shows "engine_ready cfg E n (do_call b cfg E c s) \<and> validators (do_call b cfg E c s) = validators s"
proof (cases c)
  case (Submit_Transaction tx)
  with assms show ?thesis by (simp add: process_transaction_def validate_transaction_def engine_ready_def)
next
  case (Submit_Block blk)
  with assms show ?thesis
    by (cases "block_hash E blk") (auto simp: process_block_def validate_block_def engine_ready_def ran_def)
next
  case (Submit_Vote now v h)
  have votes: "engine_ready cfg E n (s\<lparr>votes := V\<rparr>)" for V using assms by (simp add: engine_ready_def)
  have vals: "validators (finalize now h s') = validators s'" for s'
    by (simp add: finalize_def split: option.split)
  let ?Q = "\<lambda>s'. engine_ready cfg E n s' \<and> validators s' = validators s"
  have "wp (submit_vote b cfg now v h) (\<lambda>_. ?Q) (\<lambda>_. ?Q) (\<lambda>_. ?Q) s"
    using assms by (simp add: wp_simps Let_def votes finalize_ready vals split: option.split)
  from wp_all [OF this prod.collapse [symmetric]] Submit_Vote show ?thesis by simp
qed

lemma calls_ready:
  "engine_ready cfg E n s \<Longrightarrow>
   engine_ready cfg E n (fold (do_call b cfg E) calls s) \<and> validators (fold (do_call b cfg E) calls s) = validators s"
  by (induction calls arbitrary: s) (simp_all add: call_ready)

lemma pass_succeeds_or_times_out:
  assumes "engine_ready cfg E (Suc n) s" and "iterates (validators s) (pass_order p)"
  shows "wp (consensus_pass b cfg E p) (\<lambda>_ s'. engine_ready cfg E n s' \<and> validators s' = validators s)
    (\<lambda>e _. e = ConsensusError ''Finalization timeout'') (\<lambda>_ _. False) s"
proof -
  let ?Q = "\<lambda>s'. engine_ready cfg E n s' \<and> validators s' = validators s"
  have calls: "?Q (fold (do_call b cfg E) cs s')" if "?Q s'" for cs s'
    using calls_ready [of cfg E n s' b cs] that by simp
  have "engine_ready cfg E n (s'\<lparr>votes := V, pending_transactions := q\<rparr>) = engine_ready cfg E n s'" for s' V q
    by (simp add: engine_ready_def)
  then have cleaned: "?Q (s'\<lparr>votes := V, pending_transactions := q\<rparr>)" if "?Q s'" for s' V q
    using that by simp
  let ?s = "fold (do_call b cfg E) (before_round p) s"
  have s: "engine_ready cfg E (Suc n) ?s" "validators ?s = validators s"
    using calls_ready [OF assms(1)] by simp_all
  have "wp (process_round b cfg E (pass_secs p) (pass_order p)) (\<lambda>_. ?Q) (\<lambda>_ _. False) (\<lambda>_ _. False) ?s"
    using round_succeeds [OF s(1), of "pass_order p" b "pass_secs p"] assms(2) s(2)
      process_round_keeps [of b cfg E "pass_secs p" "pass_order p" ?s]
    by (auto simp: wp_def same_chain_def split: prod.splits outcome.splits)
  from wp_mono [OF this] show ?thesis
    unfolding consensus_pass_def interfere_def wp_andthen wp_updates
    using calls cleaned by (auto simp: check_finalization_def cleanup_def wp_simps)
qed

lemma passes_succeed_or_time_out:
  assumes "engine_ready cfg E (length ps) s" and "list_all (\<lambda>p. iterates (validators s) (pass_order p)) ps"
  shows "wp (consensus_start b cfg E ps) (\<lambda>_ _. True) (\<lambda>e _. e = ConsensusError ''Finalization timeout'')
    (\<lambda>_ _. False) s"
  using assms
proof (induction ps arbitrary: s)
  case (Cons p ps)
  then have "engine_ready cfg E (Suc (length ps)) s" "iterates (validators s) (pass_order p)" by simp_all
  from wp_mono [OF pass_succeeds_or_times_out [OF this]] show ?case
    unfolding consensus_start.simps wp_andthen using Cons by auto
qed (simp add: wp_simps)

text \<open>C9: Without votes the engine stops: if the last finalisation and every vote cast so far are at most
  at time \<open>t\<close>, and a pass of the loop checks later than 60 seconds after \<open>t\<close>, then the loop has
  ended by that pass, whatever blocks and transactions arrive. If the rounds themselves cannot fail, it has
  ended with the error \<open>Finalization timeout\<close> and nothing else.\<close>

theorem silence_stops_engine:
  assumes "last_finalized_time s \<le> t" and "list_all (quiet_until t) ps"
    and "votes_until t (before_round p)" "votes_until t (before_check p)"
    and "t + 60 * 10 ^ 9 < pass_now p"
  shows "fst (consensus_start b cfg E (ps @ p # qs) s) \<noteq> Ok () \<and>
    (engine_ready cfg E (length (ps @ p # qs)) s \<and>
       list_all (\<lambda>p. iterates (validators s) (pass_order p)) (ps @ p # qs) \<longrightarrow>
     fst (consensus_start b cfg E (ps @ p # qs) s) = Err (ConsensusError ''Finalization timeout''))"
proof -
  have split: "consensus_start b cfg E (ps @ p # qs) =
      andthen (consensus_start b cfg E ps) (\<lambda>_. consensus_start b cfg E (p # qs))"
    by (induction ps) (simp_all add: andthen_assoc, simp add: andthen_def fun_eq_iff)
  have pass: "wp (consensus_pass b cfg E p) (\<lambda>_ _. False) (\<lambda>_ _. True) (\<lambda>_ _. True) s'"
    if "last_finalized_time s' \<le> t" for s'
    by (rule wp_mono [OF quiet_pass [OF that assms(3,4)]]) (use assms(5) in auto)
  have ends: "wp (consensus_start b cfg E (ps @ p # qs)) (\<lambda>_ _. False) (\<lambda>_ _. True) (\<lambda>_ _. True) s"
    unfolding split wp_andthen
  proof (rule wp_mono [OF quiet_passes [OF assms(1,2)]])
    fix u :: unit and s' :: consensus_state
    assume "last_finalized_time s' \<le> t"
    from pass [OF this]
    show "wp (consensus_start b cfg E (p # qs)) (\<lambda>_ _. False) (\<lambda>_ _. True) (\<lambda>_ _. True) s'"
      unfolding consensus_start.simps wp_andthen by (rule wp_mono) auto
  qed simp_all
  show ?thesis
    using ends passes_succeed_or_time_out [of cfg E "ps @ p # qs" s b]
    by (auto simp: wp_def split: prod.splits outcome.splits)
qed

text \<open>An engine with one validator that never votes, checked every 15 seconds, ends with the timeout in
  the fifth pass at the latest.\<close>

definition idle_pass :: "nat \<Rightarrow> loop_pass" where
  "idle_pass i =
     \<lparr>pass_secs = 0, pass_now = i * 15 * 10 ^ 9, pass_order = [''v''], before_round = [],
      before_check = [], before_cleanup = []\<rparr>"

theorem silence_stops_engine_witness:
  "fst (consensus_start Debug consensus_config_default (numbering_env\<lparr>ser_tx := \<lambda>_. Some [2]\<rparr>)
     (map idle_pass [1, 2, 3, 4] @ [idle_pass 5])
     ((consensus_state_new 0)\<lparr>validators := sample_validators\<rparr>)) =
   Err (ConsensusError ''Finalization timeout'')"
proof -
  let ?s = "(consensus_state_new 0)\<lparr>validators := sample_validators\<rparr>"
    and ?E = "numbering_env\<lparr>ser_tx := \<lambda>_. Some [2]\<rparr>"
  let ?ps = "map idle_pass [1, 2, 3, 4]"
  have "engine_ready consensus_config_default ?E (length (?ps @ idle_pass 5 # [])) ?s"
    by (auto simp: engine_ready_def sample_validators_def consensus_state_new_def map_len_def stake_of_def
        consensus_config_default_def)
  moreover have "list_all (\<lambda>p. iterates (validators ?s) (pass_order p)) (?ps @ idle_pass 5 # [])"
    by (simp add: iterates_def sample_validators_def idle_pass_def)
  moreover have "last_finalized_time ?s \<le> 0" "list_all (quiet_until 0) ?ps" "votes_until 0 (before_round (idle_pass 5))"
    "votes_until 0 (before_check (idle_pass 5))" "0 + 60 * 10 ^ 9 < pass_now (idle_pass 5)"
    by (simp_all add: consensus_state_new_def idle_pass_def quiet_until_def votes_until_def)
  note silence_stops_engine [OF this, of Debug consensus_config_default ?E "[]"]
  ultimately show ?thesis by blast
qed

end
