(* ===== verification/Peers.thy ===== *)
theory Peers
  imports Rust_Prelude
begin

text \<open>
  Model of \<open>src/network/peer.rs\<close>: peers with latency statistics and a reputation, and the manager
  that keeps a bounded set of them. Identifiers, addresses and channels come from libraries and
  are compared, stored or handed on only; identifiers have a type parameter \<open>'i\<close>, the channel a parameter
  \<open>'c\<close>. Instants are natural numbers of nanoseconds.
\<close>

section \<open>Model\<close>

datatype peer_status = Connected | Disconnected | Banned | Syncing

record 'i peer_info =
  peer_id :: 'i
  peer_addr :: "string option"
  peer_status :: peer_status
  last_seen :: nat

record peer_capabilities =
  protocols :: "string list"
  cap_version :: u32
  cap_chain_id :: u64
  head_block :: u64
  total_difficulty :: u64

record ping_stats =
  last_ping :: "nat option"
  last_pong :: "nat option"
  min_latency :: "u64 option"
  max_latency :: "u64 option"
  avg_latency :: "u64 option"
  ping_count :: u64

record ('i, 'c) peer =
  info :: "'i peer_info"
  message_tx :: 'c
  capabilities :: peer_capabilities
  reputation :: i32
  connection_time :: nat
  ping_stats :: ping_stats

definition ping_stats_default :: ping_stats where
  "ping_stats_default = \<lparr>last_ping = None, last_pong = None, min_latency = None, max_latency = None,
     avg_latency = None, ping_count = 0\<rparr>"

definition peer_new :: "nat \<Rightarrow> nat \<Rightarrow> 'i \<Rightarrow> string option \<Rightarrow> 'c \<Rightarrow> ('i, 'c) peer" where
  "peer_new now now' i addr tx =
     \<lparr>info = \<lparr>peer_id = i, peer_addr = addr, peer_status = Connected, last_seen = now\<rparr>,
      message_tx = tx,
      capabilities = \<lparr>protocols = [], cap_version = 0, cap_chain_id = 0, head_block = 0,
                      total_difficulty = 0\<rparr>,
      reputation = 0, connection_time = now',
      ping_stats = ping_stats_default\<rparr>"

text \<open>Sending on the channel, a \<open>tokio\<close> sender, is an argument; it acts on a state \<open>'w\<close> and its error
  returns the message.\<close>

definition peer_send_message ::
  "('c \<Rightarrow> u8 list \<Rightarrow> ('w, u8 list, unit) comp) \<Rightarrow> u8 list \<Rightarrow> ('i, 'c) peer \<Rightarrow> ('w, u8 list, unit) comp" where
  "peer_send_message send msg p = send (message_tx p) msg"

text \<open>The methods on the statistics are computations on \<open>ping_stats\<close>, the only field they touch.
  They cannot fail, only panic, so their error type is \<open>unit\<close>.\<close>

definition update_ping :: "build \<Rightarrow> nat \<Rightarrow> (ping_stats, unit, unit) comp" where
  "update_ping b now =
     andthen (updates (\<lambda>st. st\<lparr>last_ping := Some now\<rparr>)) (\<lambda>_.
     andthen (reads (\<lambda>st. add_u b (ping_count st) 1)) (\<lambda>x.
     andthen (or_panic ArithmeticOverflow x) (\<lambda>n.
     updates (\<lambda>st. st\<lparr>ping_count := n\<rparr>))))"

text \<open>\<open>duration_since\<close> saturates at zero; \<open>as_millis() as u64\<close>.\<close>

definition latency_ms :: "nat \<Rightarrow> nat \<Rightarrow> u64" where
  "latency_ms now ping_time = of_nat ((now - ping_time) div 10 ^ 6)"

definition divide_u :: "u64 \<Rightarrow> u64 \<Rightarrow> (ping_stats, unit, u64) comp" where
  "divide_u x n = (if n = 0 then abort DivideByZero else ret (x div n))"

definition update_avg :: "build \<Rightarrow> u64 \<Rightarrow> (ping_stats, unit, unit) comp" where
  "update_avg b lat =
     andthen (reads avg_latency) (\<lambda>x.
     andthen
       (case x of
          Some avg \<Rightarrow>
            andthen (reads ping_count) (\<lambda>n.
            andthen (or_panic ArithmeticOverflow (sub_u b n 1)) (\<lambda>n1.
            andthen (or_panic ArithmeticOverflow (mul_u b avg n1)) (\<lambda>y.
            andthen (or_panic ArithmeticOverflow (add_u b y lat)) (\<lambda>z.
            divide_u z n))))
        | None \<Rightarrow> ret lat) (\<lambda>avg.
     updates (\<lambda>st. st\<lparr>avg_latency := Some avg\<rparr>)))"

definition update_pong :: "build \<Rightarrow> nat \<Rightarrow> (ping_stats, unit, unit) comp" where
  "update_pong b now =
     andthen (reads last_ping) (\<lambda>p.
     andthen
       (case p of
          Some ping_time \<Rightarrow>
            (let lat = latency_ms now ping_time in
             andthen (updates (\<lambda>st. st\<lparr>min_latency := Some (case min_latency st of
                Some m \<Rightarrow> min m lat | None \<Rightarrow> lat)\<rparr>)) (\<lambda>_.
             andthen (updates (\<lambda>st. st\<lparr>max_latency := Some (case max_latency st of
                Some m \<Rightarrow> max m lat | None \<Rightarrow> lat)\<rparr>)) (\<lambda>_.
             update_avg b lat)))
        | None \<Rightarrow> ret ()) (\<lambda>_.
     updates (\<lambda>st. st\<lparr>last_pong := Some now\<rparr>)))"

definition update_reputation :: "i32 \<Rightarrow> ('i, 'c) peer \<Rightarrow> ('i, 'c) peer" where
  "update_reputation delta p =
     (let p' = p\<lparr>reputation := sat_add_s (reputation p) delta\<rparr>
      in if sint (reputation p') < - 100 then p'\<lparr>info := (info p')\<lparr>peer_status := Banned\<rparr>\<rparr>
         else p')"

definition update_capabilities :: "peer_capabilities \<Rightarrow> ('i, 'c) peer \<Rightarrow> ('i, 'c) peer" where
  "update_capabilities c p = p\<lparr>capabilities := c\<rparr>"

definition is_synced :: "('i, 'c) peer \<Rightarrow> bool" where
  "is_synced p \<longleftrightarrow> peer_status (info p) = Connected \<and> 0 < head_block (capabilities p)"

definition is_banned :: "('i, 'c) peer \<Rightarrow> bool" where
  "is_banned p \<longleftrightarrow> peer_status (info p) = Banned"

text \<open>\<open>duration_since\<close> saturates at zero, in nanoseconds.\<close>

definition connection_duration :: "nat \<Rightarrow> ('i, 'c) peer \<Rightarrow> nat" where
  "connection_duration now p = now - connection_time p"

definition last_seen_duration :: "nat \<Rightarrow> ('i, 'c) peer \<Rightarrow> nat" where
  "last_seen_duration now p = now - last_seen (info p)"

section \<open>The manager\<close>

record ('i, 'c) peer_manager =
  peers :: "'i \<rightharpoonup> ('i, 'c) peer"
  banned_peers :: "'i set"
  max_peers :: usize

definition peer_manager_new :: "usize \<Rightarrow> ('i, 'c) peer_manager" where
  "peer_manager_new n = \<lparr>peers = Map.empty, banned_peers = {}, max_peers = n\<rparr>"

definition add_peer :: "('i, 'c) peer \<Rightarrow> (('i, 'c) peer_manager, string, unit) comp" where
  "add_peer p =
     andthen (reads (\<lambda>m. unat (max_peers m) \<le> map_len (peers m))) (\<lambda>full.
     andthen (guard_err full ''Max peers reached'') (\<lambda>_.
     andthen (reads (\<lambda>m. peer_id (info p) \<in> banned_peers m)) (\<lambda>banned.
     andthen (guard_err banned ''Peer is banned'') (\<lambda>_.
     updates (\<lambda>m. m\<lparr>peers := (peers m)(peer_id (info p) \<mapsto> p)\<rparr>)))))"

definition remove_peer :: "'i \<Rightarrow> ('i, 'c) peer_manager \<Rightarrow> ('i, 'c) peer_manager" where
  "remove_peer i m = m\<lparr>peers := (peers m)(i := None)\<rparr>"

definition set_status :: "peer_status \<Rightarrow> ('i, 'c) peer \<Rightarrow> ('i, 'c) peer" where
  "set_status st p = p\<lparr>info := (info p)\<lparr>peer_status := st\<rparr>\<rparr>"

definition update_peer_status ::
  "'i \<Rightarrow> peer_status \<Rightarrow> ('i, 'c) peer_manager \<Rightarrow> ('i, 'c) peer_manager" where
  "update_peer_status i st m =
     (case peers m i of
        Some p \<Rightarrow> m\<lparr>peers := (peers m)(i \<mapsto> set_status st p)\<rparr>
      | None \<Rightarrow> m)"

definition ban_peer :: "'i \<Rightarrow> ('i, 'c) peer_manager \<Rightarrow> ('i, 'c) peer_manager" where
  "ban_peer i m =
     (let m1 = update_peer_status i Banned m;
          m2 = m1\<lparr>banned_peers := insert i (banned_peers m1)\<rparr>
      in remove_peer i m2)"

definition unban_peer :: "'i \<Rightarrow> ('i, 'c) peer_manager \<Rightarrow> ('i, 'c) peer_manager" where
  "unban_peer i m = m\<lparr>banned_peers := banned_peers m - {i}\<rparr>"

definition get_peer :: "'i \<Rightarrow> ('i, 'c) peer_manager \<Rightarrow> ('i, 'c) peer option" where
  "get_peer i m = peers m i"

text \<open>\<open>get_peer_mut\<close> hands out a reference; what the caller does through it is the argument \<open>f\<close>.\<close>

definition modify_peer ::
  "'i \<Rightarrow> (('i, 'c) peer \<Rightarrow> ('i, 'c) peer) \<Rightarrow> ('i, 'c) peer_manager \<Rightarrow> ('i, 'c) peer_manager" where
  "modify_peer i f m =
     (case peers m i of Some p \<Rightarrow> m\<lparr>peers := (peers m)(i \<mapsto> f p)\<rparr> | None \<Rightarrow> m)"

text \<open>\<open>ks\<close> is the iteration order of the map.\<close>

definition get_peers :: "'i list \<Rightarrow> ('i, 'c) peer_manager \<Rightarrow> ('i, 'c) peer list" where
  "get_peers ks m = List.map_filter (peers m) ks"

definition get_synced_peers :: "'i list \<Rightarrow> ('i, 'c) peer_manager \<Rightarrow> ('i, 'c) peer list" where
  "get_synced_peers ks m = filter is_synced (get_peers ks m)"

definition cleanup_disconnected_peers :: "('i, 'c) peer_manager \<Rightarrow> ('i, 'c) peer_manager" where
  "cleanup_disconnected_peers m =
     m\<lparr>peers := (\<lambda>i. case peers m i of
        Some p \<Rightarrow> if peer_status (info p) \<noteq> Disconnected then Some p else None
      | None \<Rightarrow> None)\<rparr>"

section \<open>The interface of a bounded registry\<close>

text \<open>
  The peer manager and the network manager both keep a set of members under a limit. \<open>join\<close>
  admits at most its own argument, and nobody when the limit is reached; every other operation
  admits nobody. Then the limit holds at all times.
\<close>

locale bounded_registry =
  fixes members :: "'s \<Rightarrow> 'i set"
    and limit :: "'s \<Rightarrow> nat"
    and join :: "'p \<Rightarrow> 's \<Rightarrow> 's"
    and other :: "'s \<Rightarrow> 's \<Rightarrow> bool"
  assumes join_limit: "limit (join p s) = limit s"
    and join_one: "\<exists>i. members (join p s) \<subseteq> insert i (members s)"
    and join_full: "limit s \<le> card (members s) \<Longrightarrow> members (join p s) \<subseteq> members s"
    and other_limit: "other s s' \<Longrightarrow> limit s' = limit s"
    and other_members: "other s s' \<Longrightarrow> members s' \<subseteq> members s"
begin

definition bounded :: "'s \<Rightarrow> bool" where
  "bounded s \<longleftrightarrow> finite (members s) \<and> card (members s) \<le> limit s"

lemma join_bounded:
  assumes "bounded s"
  shows "bounded (join p s)"
proof (cases "limit s \<le> card (members s)")
  case True
  with join_full assms show ?thesis
    unfolding bounded_def join_limit by (meson card_mono finite_subset order_trans)
next
  case False
  obtain i where i: "members (join p s) \<subseteq> insert i (members s)" using join_one by blast
  have fin: "finite (insert i (members s))" using assms by (simp add: bounded_def)
  have "card (members (join p s)) \<le> card (insert i (members s))"
    using i fin by (rule card_mono [rotated])
  also have "\<dots> \<le> Suc (card (members s))" using assms by (simp add: bounded_def card_insert_if)
  finally show ?thesis
    using False i fin unfolding bounded_def join_limit by (auto intro: finite_subset)
qed

lemma other_bounded:
  assumes "bounded s" and "other s s'"
  shows "bounded s'"
  using assms other_limit [OF assms(2)] other_members [OF assms(2)]
  unfolding bounded_def by (metis card_mono finite_subset le_trans)

end

text \<open>The calls of the manager other than \<open>add_peer\<close>; callers of \<open>get_peer_mut\<close> keep the identifier.\<close>

inductive pm_call :: "('i, 'c) peer_manager \<Rightarrow> ('i, 'c) peer_manager \<Rightarrow> bool" where
  pm_remove: "pm_call m (remove_peer i m)"
| pm_ban: "pm_call m (ban_peer i m)"
| pm_unban: "pm_call m (unban_peer i m)"
| pm_status: "pm_call m (update_peer_status i st m)"
| pm_modify: "(\<And>p. peer_id (info (f p)) = peer_id (info p)) \<Longrightarrow> pm_call m (modify_peer i f m)"
| pm_cleanup: "pm_call m (cleanup_disconnected_peers m)"

lemmas pm_defs =
  remove_peer_def ban_peer_def unban_peer_def update_peer_status_def modify_peer_def
  cleanup_disconnected_peers_def set_status_def Let_def

lemma add_peer_state:
  "snd (add_peer p m) =
     (if map_len (peers m) < unat (max_peers m) \<and> peer_id (info p) \<notin> banned_peers m
      then m\<lparr>peers := (peers m)(peer_id (info p) \<mapsto> p)\<rparr> else m)"
  by (cases "unat (max_peers m) \<le> map_len (peers m)") (auto simp: add_peer_def andthen_def)

interpretation pm: bounded_registry "\<lambda>m. dom (peers m)" "\<lambda>m. unat (max_peers m)"
  "\<lambda>p m. snd (add_peer p m)" pm_call
proof
  fix p :: "('i, 'c) peer" and m
  show "unat (max_peers (snd (add_peer p m))) = unat (max_peers m)"
    by (simp add: add_peer_state)
  show "\<exists>i. dom (peers (snd (add_peer p m))) \<subseteq> insert i (dom (peers m))"
    by (auto simp: add_peer_state)
  assume "unat (max_peers m) \<le> card (dom (peers m))"
  then show "dom (peers (snd (add_peer p m))) \<subseteq> dom (peers m)"
    by (auto simp: add_peer_state map_len_def)
next
  fix m m' :: "('i, 'c) peer_manager"
  assume "pm_call m m'"
  then show "unat (max_peers m') = unat (max_peers m)"
    by cases (auto simp: pm_defs split: option.splits)
next
  fix m m' :: "('i, 'c) peer_manager"
  assume "pm_call m m'"
  then show "dom (peers m') \<subseteq> dom (peers m)"
    by cases (auto simp: pm_defs split: option.splits if_splits)
qed

inductive pm_reachable :: "usize \<Rightarrow> ('i, 'c) peer_manager \<Rightarrow> bool" for n where
  pm_new: "pm_reachable n (peer_manager_new n)"
| pm_add: "pm_reachable n m \<Longrightarrow> add_peer p m = (r, m') \<Longrightarrow> pm_reachable n m'"
| pm_other: "pm_reachable n m \<Longrightarrow> pm_call m m' \<Longrightarrow> pm_reachable n m'"

definition pm_inv :: "('i, 'c) peer_manager \<Rightarrow> bool" where
  "pm_inv m \<longleftrightarrow> dom (peers m) \<inter> banned_peers m = {} \<and>
     (\<forall>i p. peers m i = Some p \<longrightarrow> peer_id (info p) = i)"

lemma pm_add_inv: "pm_inv m \<Longrightarrow> pm_inv (snd (add_peer p m))"
  by (auto simp: pm_inv_def add_peer_state)

lemma pm_call_inv: "pm_call m m' \<Longrightarrow> pm_inv m \<Longrightarrow> pm_inv m'"
  by (induction rule: pm_call.induct)
    (auto simp: pm_inv_def pm_defs disjoint_iff domIff split: option.splits if_splits)

section \<open>Properties\<close>

text \<open>Whatever calls are made, the manager never holds more peers than its maximum, never holds a
  peer that it has banned, and stores every peer under its own identifier. (Callers that change
  a peer through \<open>get_peer_mut\<close> must keep its identifier.)\<close>

theorem peer_manager_invariants:
  assumes "pm_reachable n m"
  shows "map_len (peers m) \<le> unat n \<and> finite (dom (peers m)) \<and>
    dom (peers m) \<inter> banned_peers m = {} \<and> (\<forall>i p. peers m i = Some p \<longrightarrow> peer_id (info p) = i)"
proof -
  have "pm.bounded m \<and> pm_inv m \<and> max_peers m = n"
    using assms
  proof (induction rule: pm_reachable.induct)
    case pm_new
    show ?case
      by (simp add: bounded_registry.bounded_def [OF pm.bounded_registry_axioms] pm_inv_def
          peer_manager_new_def)
  next
    case (pm_add m p r m')
    then have m': "m' = snd (add_peer p m)" by simp
    have "max_peers (snd (add_peer p m)) = max_peers m" by (simp add: add_peer_state)
    with pm_add(3) pm.join_bounded [of m p] pm_add_inv [of m p] show ?case by (simp add: m')
  next
    case (pm_other m m')
    from pm_other(2) have "max_peers m' = max_peers m"
      by cases (auto simp: pm_defs split: option.splits)
    with pm_other pm.other_bounded pm_call_inv show ?case by metis
  qed
  then show ?thesis
    by (auto simp: bounded_registry.bounded_def [OF pm.bounded_registry_axioms] pm_inv_def map_len_def)
qed

theorem peer_manager_invariants_witness:
  "map_len (peers (snd (add_peer (peer_new 0 0 (2 :: nat) None ())
     (snd (add_peer (peer_new 0 0 1 None ()) (peer_manager_new 1)))))) \<le> 1"
proof -
  have "pm_reachable 1 (snd (add_peer (peer_new 0 0 (2 :: nat) None ())
     (snd (add_peer (peer_new 0 0 1 None ()) (peer_manager_new 1)))))"
    by (rule pm_add [OF pm_add [OF pm_new prod.collapse [symmetric]] prod.collapse [symmetric]])
  from peer_manager_invariants [OF this] show ?thesis by simp
qed

definition clamp_i32 :: "int \<Rightarrow> int" where
  "clamp_i32 x = max (- (2 ^ 31)) (min (2 ^ 31 - 1) x)"

text \<open>Reputation adds up with saturation at the limits of \<open>i32\<close>. Every update that leaves it
  below -100 marks the peer as banned, but exactly -100 does not, and an update never lifts a
  ban. The mark is all that happens: a manager that holds the peer keeps it, does not enter it
  among the banned identifiers, and would admit it again.\<close>

theorem reputation_update:
  "sint (reputation (update_reputation d p)) = clamp_i32 (sint (reputation p) + sint d) \<and>
    (is_banned (update_reputation d p) \<longleftrightarrow>
       is_banned p \<or> clamp_i32 (sint (reputation p) + sint d) < - 100) \<and>
    banned_peers (modify_peer i (update_reputation d) m) = banned_peers m \<and>
    dom (peers (modify_peer i (update_reputation d) m)) = dom (peers m)"
proof -
  have "sint (sat_add_s (reputation p) d) = clamp_i32 (sint (reputation p) + sint d)"
    unfolding sat_add_s_def clamp_i32_def
    by (simp add: signed_of_int signed_take_bit_int_eq_self max_def min_def)
  moreover have "dom (peers (modify_peer i (update_reputation d) m)) = dom (peers m)"
    "banned_peers (modify_peer i (update_reputation d) m) = banned_peers m"
    by (auto simp: modify_peer_def split: option.splits)
  ultimately show ?thesis by (simp add: update_reputation_def Let_def is_banned_def)
qed

section \<open>Latency statistics\<close>

text \<open>The statistics after any sequence of pings and pongs that return in a debug build.\<close>

inductive stats_reachable :: "ping_stats \<Rightarrow> bool" where
  stats_new: "stats_reachable ping_stats_default"
| stats_ping: "stats_reachable st \<Longrightarrow> update_ping Debug now st = (Ok (), st') \<Longrightarrow> stats_reachable st'"
| stats_pong: "stats_reachable st \<Longrightarrow> update_pong Debug now st = (Ok (), st') \<Longrightarrow> stats_reachable st'"

definition stats_inv :: "ping_stats \<Rightarrow> bool" where
  "stats_inv st \<longleftrightarrow>
     (last_ping st \<noteq> None \<longrightarrow> ping_count st \<noteq> 0) \<and>
     (case (min_latency st, avg_latency st, max_latency st) of
        (None, None, None) \<Rightarrow> True
      | (Some lo, Some avg, Some hi) \<Rightarrow> lo \<le> avg \<and> avg \<le> hi
      | _ \<Rightarrow> False)"

lemma average_between:
  fixes a l n :: nat
  assumes "0 < n" "lo \<le> a" "a \<le> hi" "lo \<le> l" "l \<le> hi"
  shows "lo \<le> (a * (n - 1) + l) div n" "(a * (n - 1) + l) div n \<le> hi"
proof -
  obtain k where n: "n = Suc k" using assms(1) by (cases n) auto
  have eqs: "lo * n = lo + lo * k" "hi * n = hi + hi * k" "a * (n - 1) + l = l + a * k"
    by (simp_all add: n)
  have "lo + lo * k \<le> l + a * k" "l + a * k \<le> hi + hi * k"
    using assms by (auto intro: add_mono mult_le_mono1)
  then have le: "lo * n \<le> a * (n - 1) + l" "a * (n - 1) + l \<le> hi * n"
    unfolding eqs .
  from le(1) show "lo \<le> (a * (n - 1) + l) div n"
    using assms(1) by (simp add: less_eq_div_iff_mult_less_eq)
  from le(2) show "(a * (n - 1) + l) div n \<le> hi"
    using assms(1) by (metis div_le_mono nonzero_mult_div_cancel_right not_gr_zero)
qed

lemma update_avg_between:
  assumes "ping_count st \<noteq> 0" and "avg_latency st = Some a"
    and "update_avg Debug lat st = (Ok (), st')"
    and "lo \<le> a" "a \<le> hi" "lo \<le> lat" "lat \<le> hi"
  shows "\<exists>a'. st' = st\<lparr>avg_latency := Some a'\<rparr> \<and> lo \<le> a' \<and> a' \<le> hi"
proof -
  let ?n = "ping_count st"
  from assms(1-3) obtain y z where
    y: "mul_u Debug a (?n - 1) = Some y" and z: "add_u Debug y lat = Some z"
    and st': "st' = st\<lparr>avg_latency := Some (z div ?n)\<rparr>"
    by (auto simp: update_avg_def comp_Ok_iffs divide_u_def sub_u_def split: if_splits)
  have n: "0 < unat ?n" "unat (?n - 1) = unat ?n - 1"
    using assms(1) by (simp_all add: unat_gt_0 unat_minus_one)
  have "unat z = unat a * (unat ?n - 1) + unat lat"
    using add_u_Debug_Some [OF z] y n
    by (auto simp: mul_u_def unat_mult_no_wrap not_le split: if_splits)
  with average_between [OF n(1), of "unat lo" "unat a" "unat hi" "unat lat"] assms(4-7) st'
  show ?thesis by (auto simp: word_le_nat_alt unat_div)
qed

lemma stats_inv_pong [simp]: "stats_inv (st\<lparr>last_pong := x\<rparr>) = stats_inv st"
  by (cases st) (simp add: stats_inv_def)

lemma update_pong_inv:
  assumes "stats_inv st" and "update_pong Debug now st = (Ok (), st')"
  shows "stats_inv st' \<and> ping_count st' = ping_count st"
proof (cases "last_ping st")
  case None
  with assms show ?thesis by (auto simp: update_pong_def)
next
  case (Some t)
  let ?lat = "latency_ms now t"
  define lo where "lo = (case min_latency st of Some m \<Rightarrow> min m ?lat | None \<Rightarrow> ?lat)"
  define hi where "hi = (case max_latency st of Some m \<Rightarrow> max m ?lat | None \<Rightarrow> ?lat)"
  let ?st = "st\<lparr>min_latency := Some lo, max_latency := Some hi\<rparr>"
  from assms(2) Some obtain st'' where avg: "update_avg Debug ?lat ?st = (Ok (), st'')"
    and st': "st' = st''\<lparr>last_pong := Some now\<rparr>"
    by (auto simp: update_pong_def comp_Ok_iffs Let_def lo_def hi_def)
  have n: "ping_count st \<noteq> 0" using assms(1) Some by (simp add: stats_inv_def)
  have "\<exists>a'. st'' = ?st\<lparr>avg_latency := Some a'\<rparr> \<and> lo \<le> a' \<and> a' \<le> hi"
  proof (cases "avg_latency st")
    case None
    with assms(1) have "min_latency st = None" "max_latency st = None"
      by (auto simp: stats_inv_def split: option.splits)
    with None avg show ?thesis by (auto simp: update_avg_def lo_def hi_def)
  next
    case (Some a)
    with assms(1) obtain m M where "min_latency st = Some m" "max_latency st = Some M" "m \<le> a" "a \<le> M"
      by (auto simp: stats_inv_def split: option.splits)
    then have "lo \<le> a" "a \<le> hi" "lo \<le> ?lat" "?lat \<le> hi"
      by (auto simp: lo_def hi_def min_le_iff_disj le_max_iff_disj)
    with update_avg_between [OF _ _ avg, of a lo hi] n Some show ?thesis by simp
  qed
  with st' n show ?thesis by (auto simp: stats_inv_def)
qed

text \<open>C36: In a debug build, whatever pings and pongs arrive in whatever order, the statistics are
  consistent: minimum, average and maximum latency are known together, and the average lies
  between the minimum and the maximum; the division by the number of pings never divides by
  zero.\<close>

theorem latency_statistics_consistent:
  assumes "stats_reachable st"
  shows "(case (min_latency st, avg_latency st, max_latency st) of
      (None, None, None) \<Rightarrow> True
    | (Some lo, Some avg, Some hi) \<Rightarrow> lo \<le> avg \<and> avg \<le> hi
    | _ \<Rightarrow> False) \<and> fst (update_pong Debug now st) \<noteq> Panic DivideByZero"
proof -
  have inv: "stats_inv st"
    using assms
  proof (induction rule: stats_reachable.induct)
    case stats_new
    show ?case by (simp add: stats_inv_def ping_stats_default_def)
  next
    case (stats_ping st now st')
    from stats_ping(2) obtain n where n: "add_u Debug (ping_count st) 1 = Some n"
      and "st' = st\<lparr>last_ping := Some now, ping_count := n\<rparr>"
      by (auto simp: update_ping_def comp_Ok_iffs)
    moreover have "n \<noteq> 0" using add_u_Debug_Some [OF n] by auto
    ultimately show ?case using stats_ping(3) by (simp add: stats_inv_def)
  next
    case (stats_pong st now st')
    then show ?case using update_pong_inv by blast
  qed
  have "wp (update_pong Debug now) (\<lambda>_ _. True) (\<lambda>_ _. True) (\<lambda>p _. p \<noteq> DivideByZero) st"
    using inv by (auto simp: update_pong_def update_avg_def divide_u_def Let_def wp_simps stats_inv_def
        split: option.split)
  then have "fst (update_pong Debug now st) \<noteq> Panic DivideByZero"
    by (auto simp: wp_def split: prod.splits)
  with inv show ?thesis by (simp add: stats_inv_def)
qed

definition ponged :: ping_stats where
  "ponged = snd (update_pong Debug 7000000 (snd (update_ping Debug 2000000
     ping_stats_default)))"

theorem latency_statistics_consistent_witness:
  "avg_latency ponged = Some 5 \<and> (\<exists>lo hi. min_latency ponged = Some lo \<and> max_latency ponged = Some hi \<and>
     lo \<le> (5 :: u64) \<and> 5 \<le> hi)"
proof -
  let ?s0 = "ping_stats_default"
  let ?s1 = "snd (update_ping Debug 2000000 ?s0)"
  have "update_ping Debug 2000000 ?s0 = (Ok (), ?s1)"
    by (simp add: update_ping_def ping_stats_default_def add_u_def)
  moreover have "update_pong Debug 7000000 ?s1 = (Ok (), ponged)"
    and avg: "avg_latency ponged = Some 5"
    by (simp_all add: ponged_def update_pong_def update_avg_def update_ping_def ping_stats_default_def add_u_def
        latency_ms_def Let_def andthen_def)
  ultimately have "stats_reachable ponged" by (blast intro: stats_new stats_ping stats_pong)
  from latency_statistics_consistent [OF this, of 0] avg show ?thesis
    by (cases "min_latency ponged"; cases "max_latency ponged") auto
qed

end
