(* ===== verification/State_Sync.thy ===== *)
theory State_Sync
  imports Messages
begin

text \<open>
  Model of \<open>src/network/sync.rs\<close>: requests for state that wait in a queue, are handed to peers with
  room for them, time out and are retried. Peers have a type parameter \<open>'p\<close>. Instants are natural
  numbers of nanoseconds and arguments of the operations, one for each call of \<open>Instant::now\<close>;
  \<open>ks\<close> is the order in which the hash map of the peers is iterated. The locks are held for the whole
  of each operation, so an operation is one atomic step.
\<close>

section \<open>Model\<close>

record sync_request =
  sr_block_number :: u64
  sr_account :: string
  sr_storage_keys :: "digest list"
  sr_timestamp :: nat

record sync_response =
  sp_block_number :: u64
  sp_account :: string
  sp_storage_keys :: "digest list"

datatype sync_status =
    SyncIdle
  | SyncSyncing (current_block: u64) (target_block: u64) (sync_peers: usize)
  | SyncFailed string

record 'p sync_state =
  sync_status :: sync_status
  pending_requests :: "'p \<rightharpoonup> sync_request list"
  completed_requests :: "sync_request set"
  failed_requests :: "sync_request \<rightharpoonup> u32"
  sync_queue :: "sync_request list"
  last_progress :: nat

record sync_config =
  sync_batch_size :: usize
  sync_timeout :: nat
  retry_limit :: u32

definition seconds :: "nat \<Rightarrow> nat" where
  "seconds n = n * 10 ^ 9"

definition state_sync_new :: "usize \<Rightarrow> sync_config" where
  "state_sync_new n = \<lparr>sync_batch_size = n, sync_timeout = seconds 30, retry_limit = 3\<rparr>"

definition sync_state_new :: "nat \<Rightarrow> 'p sync_state" where
  "sync_state_new now =
     \<lparr>sync_status = SyncIdle, pending_requests = Map.empty, completed_requests = {},
      failed_requests = Map.empty, sync_queue = [], last_progress = now\<rparr>"

definition start_sync :: "nat \<Rightarrow> 'p \<Rightarrow> ('p sync_state, network_error, unit) comp" where
  "start_sync now p =
     andthen (updates (\<lambda>s.
       if sync_status s = SyncIdle
       then s\<lparr>sync_status := SyncSyncing 0 0 1, last_progress := now\<rparr> else s)) (\<lambda>_.
     updates (\<lambda>s. s\<lparr>pending_requests := (pending_requests s)
       (p \<mapsto> (case pending_requests s p of None \<Rightarrow> [] | Some rs \<Rightarrow> rs))\<rparr>))"

subsection \<open>Timeouts\<close>

definition retry_count :: "sync_request \<Rightarrow> 'p sync_state \<Rightarrow> u32" where
  "retry_count r s = (case failed_requests s r of None \<Rightarrow> 0 | Some n \<Rightarrow> n)"

text \<open>\<open>entry(request).or_default() += 1\<close>\<close>

definition count_failure ::
  "build \<Rightarrow> sync_request \<Rightarrow> ('p sync_state, network_error, unit) comp" where
  "count_failure b r =
     andthen (reads (retry_count r)) (\<lambda>n.
     andthen (or_panic ArithmeticOverflow (add_u b n 1)) (\<lambda>n'.
     updates (\<lambda>s. s\<lparr>failed_requests := (failed_requests s)(r \<mapsto> n')\<rparr>)))"

definition requests_of :: "'p \<Rightarrow> 'p sync_state \<Rightarrow> sync_request list" where
  "requests_of p s = (case pending_requests s p of None \<Rightarrow> [] | Some rs \<Rightarrow> rs)"

definition set_requests :: "'p \<Rightarrow> sync_request list \<Rightarrow> 'p sync_state \<Rightarrow> 'p sync_state" where
  "set_requests p rs s = s\<lparr>pending_requests := (pending_requests s)(p \<mapsto> rs)\<rparr>"

fun requeue ::
  "build \<Rightarrow> 'p \<Rightarrow> sync_request list \<Rightarrow> ('p sync_state, network_error, unit) comp" where
  "requeue b p [] = ret ()"
| "requeue b p (r # rs) =
     andthen (count_failure b r) (\<lambda>_.
     andthen (updates (\<lambda>s. set_requests p (filter (\<lambda>r'. r' \<noteq> r) (requests_of p s)) s)) (\<lambda>_.
     andthen (updates (\<lambda>s. s\<lparr>sync_queue := sync_queue s @ [r]\<rparr>)) (\<lambda>_.
     requeue b p rs)))"

definition expired :: "sync_config \<Rightarrow> nat \<Rightarrow> sync_request \<Rightarrow> bool" where
  "expired cfg now r \<longleftrightarrow> sync_timeout cfg < now - sr_timestamp r"

fun requeue_expired ::
  "build \<Rightarrow> sync_config \<Rightarrow> nat \<Rightarrow> 'p list \<Rightarrow> ('p sync_state, network_error, unit) comp" where
  "requeue_expired b cfg now [] = ret ()"
| "requeue_expired b cfg now (p # ps) =
     andthen (reads (\<lambda>s. filter (expired cfg now) (requests_of p s))) (\<lambda>rs.
     andthen (requeue b p rs) (\<lambda>_. requeue_expired b cfg now ps))"

definition fail_stalled :: "nat \<Rightarrow> 'p sync_state \<Rightarrow> 'p sync_state" where
  "fail_stalled now s =
     (case sync_status s of
        SyncSyncing _ _ _ \<Rightarrow>
          if seconds 300 < now - last_progress s
          then s\<lparr>sync_status := SyncFailed ''Sync timed out''\<rparr> else s
      | _ \<Rightarrow> s)"

definition check_timeouts ::
  "build \<Rightarrow> sync_config \<Rightarrow> nat \<Rightarrow> 'p list \<Rightarrow> ('p sync_state, network_error, unit) comp" where
  "check_timeouts b cfg now ks =
     andthen (requeue_expired b cfg now ks) (\<lambda>_. updates (fail_stalled now))"

subsection \<open>The queue\<close>

definition retries_text :: "u32 \<Rightarrow> string" where
  "retries_text n = ''Request failed after '' @ decimal (unat n) @ '' retries''"

text \<open>\<open>pending_requests.iter_mut().find(|(_, requests)| requests.len() < batch_size)\<close>\<close>

definition available_peer :: "sync_config \<Rightarrow> 'p list \<Rightarrow> 'p sync_state \<Rightarrow> 'p option" where
  "available_peer cfg ks s =
     find (\<lambda>p. length (requests_of p s) < unat (sync_batch_size cfg)) ks"

function drain_queue ::
  "sync_config \<Rightarrow> 'p list \<Rightarrow> 'p sync_state \<Rightarrow> (network_error, unit) outcome \<times> 'p sync_state" where
  "drain_queue cfg ks s =
     (case sync_queue s of
        [] \<Rightarrow> (Ok (), s)
      | r # q \<Rightarrow>
          (let s = s\<lparr>sync_queue := q\<rparr> in
           if r \<in> completed_requests s then drain_queue cfg ks s
           else if retry_limit cfg \<le> retry_count r s
           then (Err (SyncError (retries_text (retry_count r s))), s)
           else (case available_peer cfg ks s of
               Some p \<Rightarrow> drain_queue cfg ks (set_requests p (requests_of p s @ [r]) s)
             | None \<Rightarrow> (Ok (), s\<lparr>sync_queue := sync_queue s @ [r]\<rparr>))))"
  by pat_completeness auto
termination
  by (relation "measure (\<lambda>(_, _, s). length (sync_queue s))") (auto simp: set_requests_def)

declare drain_queue.simps [simp del]

definition all_answered :: "'p sync_state \<Rightarrow> bool" where
  "all_answered s \<longleftrightarrow> sync_queue s = [] \<and> (\<forall>rs \<in> ran (pending_requests s). rs = [])"

definition finish_sync :: "'p sync_state \<Rightarrow> 'p sync_state" where
  "finish_sync s = (if all_answered s then s\<lparr>sync_status := SyncIdle\<rparr> else s)"

definition process_sync_queue ::
  "build \<Rightarrow> sync_config \<Rightarrow> nat \<Rightarrow> 'p list \<Rightarrow> ('p sync_state, network_error, unit) comp" where
  "process_sync_queue b cfg now ks =
     andthen (check_timeouts b cfg now ks) (\<lambda>_.
     andthen (drain_queue cfg ks) (\<lambda>_. updates finish_sync))"

subsection \<open>The handlers\<close>

definition handle_request ::
  "build \<Rightarrow> sync_config \<Rightarrow> nat \<Rightarrow> 'p list \<Rightarrow> sync_request \<Rightarrow> ('p sync_state, network_error, unit) comp"
where
  "handle_request b cfg now ks r =
     andthen (updates (\<lambda>s. s\<lparr>sync_queue := sync_queue s @ [r]\<rparr>)) (\<lambda>_.
     process_sync_queue b cfg now ks)"

text \<open>The request that a response is taken to answer; it gets the time of its arrival.\<close>

definition answered_request :: "nat \<Rightarrow> sync_response \<Rightarrow> sync_request" where
  "answered_request now resp =
     \<lparr>sr_block_number = sp_block_number resp, sr_account = sp_account resp,
      sr_storage_keys = sp_storage_keys resp, sr_timestamp = now\<rparr>"

definition complete_request :: "sync_request \<Rightarrow> 'p sync_state \<Rightarrow> 'p sync_state" where
  "complete_request r s =
     s\<lparr>completed_requests := insert r (completed_requests s),
       pending_requests := map_option (filter (\<lambda>r'. r' \<noteq> r)) \<circ> pending_requests s\<rparr>"

definition note_progress :: "nat \<Rightarrow> u64 \<Rightarrow> 'p sync_state \<Rightarrow> 'p sync_state" where
  "note_progress now blk s =
     (case sync_status s of
        SyncSyncing cur tgt n \<Rightarrow>
          if cur < blk then s\<lparr>sync_status := SyncSyncing blk tgt n, last_progress := now\<rparr> else s
      | _ \<Rightarrow> s)"

definition handle_response ::
  "build \<Rightarrow> sync_config \<Rightarrow> nat \<Rightarrow> nat \<Rightarrow> nat \<Rightarrow> 'p list \<Rightarrow> sync_response \<Rightarrow>
   ('p sync_state, network_error, unit) comp" where
  "handle_response b cfg now1 now2 now3 ks resp =
     andthen (updates (complete_request (answered_request now1 resp))) (\<lambda>_.
     andthen (updates (note_progress now2 (sp_block_number resp))) (\<lambda>_.
     process_sync_queue b cfg now3 ks))"

definition get_sync_status :: "'p sync_state \<Rightarrow> sync_status" where
  "get_sync_status s = sync_status s"

definition handle_sync_disconnected :: "'p \<Rightarrow> ('p sync_state, network_error, unit) comp" where
  "handle_sync_disconnected p =
     andthen (updates (\<lambda>s.
       s\<lparr>sync_queue := sync_queue s @ requests_of p s,
         pending_requests := (pending_requests s)(p := None)\<rparr>)) (\<lambda>_.
     updates (\<lambda>s.
       (case sync_status s of
          SyncSyncing cur tgt n \<Rightarrow> s\<lparr>sync_status := SyncSyncing cur tgt (sat_sub_u n 1)\<rparr>
        | _ \<Rightarrow> s)))"

end
