(* ===== verification/Network.thy ===== *)
theory Network
  imports Consensus Peers State_Sync
begin

text \<open>
  Model of \<open>src/network/mod.rs\<close>: the manager that owns the consensus engine and the state
  synchronisation, keeps the connected peers and dispatches what arrives. The swarm (\<open>libp2p\<close>) and
  the network behaviour, which is declared nowhere in the repository, are fields of the record
  \<open>network_env\<close> over a state \<open>'w\<close>. The requests and answers of \<open>message.rs\<close> have other fields than
  those of \<open>sync.rs\<close> and the code passes the one for the other, so their conversion, which may read the
  clock, is a field too.
\<close>

section \<open>Model\<close>

record network_config =
  listen_addr :: string
  bootstrap_peers :: "string list"
  nc_max_peers :: usize
  ping_interval :: nat
  nc_sync_batch_size :: usize
  nc_consensus :: consensus_config

record ('p, 'w) network_manager =
  nm_swarm :: 'w
  nm_peers :: "'p \<rightharpoonup> 'p peer_info"
  nm_sync_config :: sync_config
  nm_sync :: "'p sync_state"
  nm_consensus :: consensus_state
  nm_config :: network_config

record ('p, 'w, 'k, 'a) network_env =
  net_crypto :: "'k crypto_env"
  open_swarm :: "network_config \<Rightarrow> (network_error, 'w) outcome"
  parse_addr :: "string \<Rightarrow> 'a option"
  dial :: "'a \<Rightarrow> ('w, network_error, unit) comp"
  send_message :: "'p \<Rightarrow> message \<Rightarrow> ('w, network_error, unit) comp"
  as_sync_request :: "nat \<Rightarrow> state_request \<Rightarrow> sync_request"
  as_sync_response :: "state_response \<Rightarrow> sync_response"

text \<open>The clock readings of one handler, in the order it takes them, and the order in which it
  iterates the map of pending requests.\<close>

record 'p readings =
  clock1 :: nat
  clock2 :: nat
  clock3 :: nat
  peer_order :: "'p list"

datatype 'p swarm_event =
    NewListenAddr string
  | ConnectionEstablished 'p
  | ConnectionClosed 'p
  | OtherSwarmEvent

text \<open>What the loop of \<open>start\<close> receives; \<open>select!\<close> takes whichever source is ready.\<close>

datatype 'p arrival =
    SwarmArrival "'p readings" "'p swarm_event"
  | MessageArrival "'p readings" message

type_synonym ('p, 'w, 'a) network = "(('p, 'w) network_manager, network_error, 'a) comp"

definition network_new ::
  "('p, 'w, 'k, 'a) network_env \<Rightarrow> nat \<Rightarrow> nat \<Rightarrow> network_config \<Rightarrow>
   (network_error, ('p, 'w) network_manager) outcome" where
  "network_new E now now' cfg =
     bind_outcome (open_swarm E cfg) (\<lambda>w.
       Ok \<lparr>nm_swarm = w, nm_peers = Map.empty,
           nm_sync_config = state_sync_new (nc_sync_batch_size cfg), nm_sync = sync_state_new now,
           nm_consensus = consensus_state_new now', nm_config = cfg\<rparr>)"

definition on_sync :: "('p sync_state, network_error, 'b) comp \<Rightarrow> ('p, 'w, 'b) network" where
  "on_sync = zoom nm_sync (\<lambda>t s. s\<lparr>nm_sync := t\<rparr>)"

definition on_consensus :: "'b consensus \<Rightarrow> ('p, 'w, 'b) network" where
  "on_consensus = zoom nm_consensus (\<lambda>t s. s\<lparr>nm_consensus := t\<rparr>)"

definition on_swarm :: "('w, network_error, 'b) comp \<Rightarrow> ('p, 'w, 'b) network" where
  "on_swarm = zoom nm_swarm (\<lambda>t s. s\<lparr>nm_swarm := t\<rparr>)"

definition handle_message ::
  "build \<Rightarrow> ('p, 'w, 'k, 'a) network_env \<Rightarrow> 'p readings \<Rightarrow> message \<Rightarrow> ('p, 'w, unit) network" where
  "handle_message b E t msg =
     (case msg_type msg of
        BlockMsg blk \<Rightarrow> on_consensus (process_block (net_crypto E) blk)
      | TransactionMsg tx \<Rightarrow> on_consensus (process_transaction tx)
      | StateRequestMsg r \<Rightarrow>
          andthen (reads nm_sync_config) (\<lambda>cfg.
          on_sync (handle_request b cfg (clock2 t) (peer_order t) (as_sync_request E (clock1 t) r)))
      | StateResponseMsg r \<Rightarrow>
          andthen (reads nm_sync_config) (\<lambda>cfg.
          on_sync (handle_response b cfg (clock1 t) (clock2 t) (clock3 t) (peer_order t)
            (as_sync_response E r)))
      | _ \<Rightarrow> ret ())"

definition connected_info :: "nat \<Rightarrow> 'p \<Rightarrow> 'p peer_info" where
  "connected_info now p =
     \<lparr>peer_id = p, peer_addr = None, peer_status = Connected, last_seen = now\<rparr>"

definition handle_peer_connected :: "nat \<Rightarrow> nat \<Rightarrow> 'p \<Rightarrow> ('p, 'w, unit) network" where
  "handle_peer_connected now now' p =
     andthen (reads (\<lambda>s. unat (nc_max_peers (nm_config s)) \<le> map_len (nm_peers s))) (\<lambda>full.
     andthen (guard_err full (PeerError ''Max peers reached'')) (\<lambda>_.
     andthen (updates (\<lambda>s. s\<lparr>nm_peers := (nm_peers s)(p \<mapsto> connected_info now p)\<rparr>)) (\<lambda>_.
     on_sync (start_sync now' p))))"

definition handle_peer_disconnected :: "'p \<Rightarrow> ('p, 'w, unit) network" where
  "handle_peer_disconnected p =
     andthen (updates (\<lambda>s. s\<lparr>nm_peers := (nm_peers s)(p := None)\<rparr>)) (\<lambda>_.
     on_sync (handle_sync_disconnected p))"

definition handle_swarm_event :: "'p readings \<Rightarrow> 'p swarm_event \<Rightarrow> ('p, 'w, unit) network" where
  "handle_swarm_event t ev =
     (case ev of
        NewListenAddr _ \<Rightarrow> ret ()
      | ConnectionEstablished p \<Rightarrow> handle_peer_connected (clock1 t) (clock2 t) p
      | ConnectionClosed p \<Rightarrow> handle_peer_disconnected p
      | OtherSwarmEvent \<Rightarrow> ret ())"

definition handle_arrival ::
  "build \<Rightarrow> ('p, 'w, 'k, 'a) network_env \<Rightarrow> 'p arrival \<Rightarrow> ('p, 'w, unit) network" where
  "handle_arrival b E a =
     (case a of
        SwarmArrival t ev \<Rightarrow> handle_swarm_event t ev
      | MessageArrival t msg \<Rightarrow> handle_message b E t msg)"

text \<open>The loop, on what arrives until a source is closed; \<open>?\<close> leaves it at the first error.\<close>

fun event_loop ::
  "build \<Rightarrow> ('p, 'w, 'k, 'a) network_env \<Rightarrow> 'p arrival list \<Rightarrow> ('p, 'w, unit) network" where
  "event_loop b E [] = ret ()"
| "event_loop b E (a # as) = andthen (handle_arrival b E a) (\<lambda>_. event_loop b E as)"

text \<open>Addresses that cannot be parsed are skipped.\<close>

fun dial_all :: "('p, 'w, 'k, 'a) network_env \<Rightarrow> string list \<Rightarrow> ('p, 'w, unit) network" where
  "dial_all E [] = ret ()"
| "dial_all E (x # xs) =
     andthen (case parse_addr E x of None \<Rightarrow> ret () | Some addr \<Rightarrow> on_swarm (dial E addr)) (\<lambda>_.
     dial_all E xs)"

definition network_start ::
  "build \<Rightarrow> ('p, 'w, 'k, 'a) network_env \<Rightarrow> 'p arrival list \<Rightarrow> ('p, 'w, unit) network" where
  "network_start b E as =
     andthen (reads (\<lambda>s. bootstrap_peers (nm_config s))) (\<lambda>addrs.
     andthen (dial_all E addrs) (\<lambda>_. event_loop b E as))"

text \<open>\<open>ks\<close> is the iteration order of the peers.\<close>

fun send_all :: "('p, 'w, 'k, 'a) network_env \<Rightarrow> message \<Rightarrow> 'p list \<Rightarrow> ('p, 'w, unit) network" where
  "send_all E msg [] = ret ()"
| "send_all E msg (p # ps) = andthen (on_swarm (send_message E p msg)) (\<lambda>_. send_all E msg ps)"

definition broadcast ::
  "('p, 'w, 'k, 'a) network_env \<Rightarrow> 'p list \<Rightarrow> message \<Rightarrow> ('p, 'w, unit) network" where
  "broadcast E ks msg =
     andthen (reads (\<lambda>s. filter (\<lambda>p. nm_peers s p \<noteq> None) ks)) (send_all E msg)"

definition network_peers :: "'p list \<Rightarrow> ('p, 'w) network_manager \<Rightarrow> 'p peer_info list" where
  "network_peers ks s = List.map_filter (nm_peers s) ks"

definition network_sync_status :: "('p, 'w) network_manager \<Rightarrow> sync_status" where
  "network_sync_status s = sync_status (nm_sync s)"

definition network_consensus_status :: "nat \<Rightarrow> ('p, 'w) network_manager \<Rightarrow> consensus_status" where
  "network_consensus_status now s = get_status now (nm_consensus s)"

section \<open>The peers as a bounded registry\<close>

text \<open>What arrives other than a new connection.\<close>

inductive net_other ::
  "build \<Rightarrow> ('p, 'w, 'k, 'a) network_env \<Rightarrow> ('p, 'w) network_manager \<Rightarrow> ('p, 'w) network_manager \<Rightarrow> bool"
  for b E where
  other_message: "net_other b E s (snd (handle_message b E t msg s))"
| other_closed: "net_other b E s (snd (handle_peer_disconnected p s))"

lemma zoom_sel [simp]:
  "nm_peers (snd (on_sync m s)) = nm_peers s" "nm_config (snd (on_sync m s)) = nm_config s"
  "nm_consensus (snd (on_sync m s)) = nm_consensus s" "nm_sync_config (snd (on_sync m s)) = nm_sync_config s"
  "nm_sync (snd (on_sync m s)) = snd (m (nm_sync s))"
  "nm_peers (snd (on_consensus c s)) = nm_peers s" "nm_config (snd (on_consensus c s)) = nm_config s"
  "nm_consensus (snd (on_consensus c s)) = snd (c (nm_consensus s))"
  "nm_sync_config (snd (on_consensus c s)) = nm_sync_config s" "nm_sync (snd (on_consensus c s)) = nm_sync s"
  by (simp_all add: on_sync_def on_consensus_def zoom_def split: prod.split)

lemma on_sync_apply: "on_sync m s = (fst (m (nm_sync s)), s\<lparr>nm_sync := snd (m (nm_sync s))\<rparr>)"
  by (simp add: on_sync_def zoom_def split: prod.split)

lemma handle_message_state:
  "snd (handle_message b E t msg s) =
     (case msg_type msg of
        BlockMsg blk \<Rightarrow> snd (on_consensus (process_block (net_crypto E) blk) s)
      | TransactionMsg tx \<Rightarrow> snd (on_consensus (process_transaction tx) s)
      | StateRequestMsg r \<Rightarrow>
          snd (on_sync (handle_request b (nm_sync_config s) (clock2 t) (peer_order t)
            (as_sync_request E (clock1 t) r)) s)
      | StateResponseMsg r \<Rightarrow>
          snd (on_sync (handle_response b (nm_sync_config s) (clock1 t) (clock2 t) (clock3 t)
            (peer_order t) (as_sync_response E r)) s)
      | _ \<Rightarrow> s)"
  by (simp add: handle_message_def split: message_type.split)

lemma handle_message_peers [simp]:
  "nm_peers (snd (handle_message b E t msg s)) = nm_peers s"
  "nm_config (snd (handle_message b E t msg s)) = nm_config s"
  "nm_sync_config (snd (handle_message b E t msg s)) = nm_sync_config s"
  by (simp_all add: handle_message_state split: message_type.split)

lemma connected_state:
  "snd (handle_peer_connected now now' p s) =
     (if unat (nc_max_peers (nm_config s)) \<le> map_len (nm_peers s) then s
      else snd (on_sync (start_sync now' p)
        (s\<lparr>nm_peers := (nm_peers s)(p \<mapsto> connected_info now p)\<rparr>)))"
  by (simp add: handle_peer_connected_def)

lemma disconnected_state:
  "snd (handle_peer_disconnected p s) =
     snd (on_sync (handle_sync_disconnected p) (s\<lparr>nm_peers := (nm_peers s)(p := None)\<rparr>))"
  by (simp add: handle_peer_disconnected_def)

interpretation nm: bounded_registry "\<lambda>s. dom (nm_peers s)" "\<lambda>s. unat (nc_max_peers (nm_config s))"
  "\<lambda>(now, now', p) s. snd (handle_peer_connected now now' p s)" "net_other b E" for b E
proof (unfold_locales, goal_cases)
  case (2 x s)
  show ?case by (cases x) (auto simp: connected_state)
next
  case (3 s x)
  then show ?case by (cases x) (simp add: connected_state map_len_def)
qed (auto simp: connected_state disconnected_state split: if_splits elim!: net_other.cases)

end
