(* ===== verification/Sync_Properties.thy ===== *)
theory Sync_Properties
  imports State_Sync
begin

text \<open>
  Properties of the state synchronisation: the bound on the requests of a peer, that no request gets
  lost except by an error that names it, and what becomes of answers and timeouts.
\<close>

section \<open>What is outstanding\<close>

definition assigned_requests :: "'p sync_state \<Rightarrow> sync_request set" where
  "assigned_requests s = (\<Union>p. set (requests_of p s))"

definition outstanding :: "'p sync_state \<Rightarrow> sync_request set" where
  "outstanding s = set (sync_queue s) \<union> assigned_requests s"

definition tracked :: "'p sync_state \<Rightarrow> sync_request set" where
  "tracked s = outstanding s \<union> completed_requests s"

definition within_batches :: "sync_config \<Rightarrow> 'p sync_state \<Rightarrow> bool" where
  "within_batches cfg s \<longleftrightarrow> (\<forall>p. length (requests_of p s) \<le> unat (sync_batch_size cfg))"

lemma requests_of_set [simp]:
  "requests_of q (set_requests p rs s) = (if q = p then rs else requests_of q s)"
  by (simp add: requests_of_def set_requests_def)

lemma set_requests_sel [simp]:
  "sync_queue (set_requests p rs s) = sync_queue s"
  "completed_requests (set_requests p rs s) = completed_requests s"
  "failed_requests (set_requests p rs s) = failed_requests s"
  "sync_status (set_requests p rs s) = sync_status s"
  "last_progress (set_requests p rs s) = last_progress s"
  by (simp_all add: set_requests_def)

lemma requests_of_cong [simp]:
  "requests_of p (s\<lparr>sync_queue := q\<rparr>) = requests_of p s"
  "requests_of p (s\<lparr>sync_status := st\<rparr>) = requests_of p s"
  "requests_of p (s\<lparr>completed_requests := c\<rparr>) = requests_of p s"
  "requests_of p (s\<lparr>failed_requests := f\<rparr>) = requests_of p s"
  "requests_of p (s\<lparr>last_progress := t\<rparr>) = requests_of p s"
  by (simp_all add: requests_of_def)

lemma outstanding_cong [simp]:
  "outstanding (s\<lparr>sync_status := st\<rparr>) = outstanding s"
  "outstanding (s\<lparr>completed_requests := c\<rparr>) = outstanding s"
  "outstanding (s\<lparr>failed_requests := f\<rparr>) = outstanding s"
  "outstanding (s\<lparr>last_progress := t\<rparr>) = outstanding s"
  by (simp_all add: outstanding_def assigned_requests_def)

lemma within_batches_cong [simp]:
  "within_batches cfg (s\<lparr>sync_queue := q\<rparr>) = within_batches cfg s"
  "within_batches cfg (s\<lparr>sync_status := st\<rparr>) = within_batches cfg s"
  "within_batches cfg (s\<lparr>completed_requests := c\<rparr>) = within_batches cfg s"
  "within_batches cfg (s\<lparr>failed_requests := f\<rparr>) = within_batches cfg s"
  "within_batches cfg (s\<lparr>last_progress := t\<rparr>) = within_batches cfg s"
  by (simp_all add: within_batches_def)

lemma outstanding_iff:
  "r \<in> outstanding s \<longleftrightarrow> r \<in> set (sync_queue s) \<or> (\<exists>p. r \<in> set (requests_of p s))"
  by (simp add: outstanding_def assigned_requests_def)

text \<open>Moving requests about: nothing outstanding is dropped, no batch grows too large, and the
  answered requests and the status stay.\<close>

definition reshuffles :: "sync_config \<Rightarrow> 'p sync_state \<Rightarrow> 'p sync_state \<Rightarrow> bool" where
  "reshuffles cfg s s' \<longleftrightarrow>
     outstanding s \<subseteq> outstanding s' \<and> completed_requests s' = completed_requests s \<and>
     sync_status s' = sync_status s \<and> (within_batches cfg s \<longrightarrow> within_batches cfg s')"

lemma reshuffles_refl [simp]: "reshuffles cfg s s"
  by (simp add: reshuffles_def)

lemma reshuffles_trans: "reshuffles cfg s t \<Longrightarrow> reshuffles cfg t u \<Longrightarrow> reshuffles cfg s u"
  by (auto simp: reshuffles_def)

definition reshuffling :: "sync_config \<Rightarrow> ('p sync_state, 'e, 'a) comp \<Rightarrow> bool" where
  "reshuffling cfg m \<longleftrightarrow>
     (\<forall>s. wp m (\<lambda>_. reshuffles cfg s) (\<lambda>_ _. False) (\<lambda>_. reshuffles cfg s) s)"

lemma reshufflingD:
  "reshuffling cfg m \<Longrightarrow> reshuffles cfg s t \<Longrightarrow>
   wp m (\<lambda>_. reshuffles cfg s) (\<lambda>_ _. False) (\<lambda>_. reshuffles cfg s) t"
  unfolding reshuffling_def by (drule spec, erule wp_mono) (auto intro: reshuffles_trans)

lemma reshuffling_andthen:
  "reshuffling cfg m \<Longrightarrow> (\<And>a. reshuffling cfg (f a)) \<Longrightarrow> reshuffling cfg (andthen m f)"
  unfolding reshuffling_def [of _ "andthen _ _"] wp_andthen
  by (intro allI, rule wp_mono, erule reshufflingD) (auto intro: reshufflingD)

lemma count_failure_wp:
  "wp (count_failure b r) Q E F s =
     (case add_u b (retry_count r s) 1 of
        None \<Rightarrow> F ArithmeticOverflow s
      | Some n \<Rightarrow> Q () (s\<lparr>failed_requests := (failed_requests s)(r \<mapsto> n)\<rparr>))"
  by (simp add: count_failure_def wp_simps split: option.split)

lemma requeue_one_reshuffles:
  "reshuffling cfg (andthen (count_failure b r) (\<lambda>_.
     andthen (updates (\<lambda>s. set_requests p (filter (\<lambda>r'. r' \<noteq> r) (requests_of p s)) s)) (\<lambda>_.
     updates (\<lambda>s. s\<lparr>sync_queue := sync_queue s @ [r]\<rparr>))))"
proof -
  have "reshuffles cfg s (set_requests p (filter (\<lambda>r'. r' \<noteq> r) (requests_of p (s\<lparr>failed_requests := f\<rparr>)))
      (s\<lparr>failed_requests := f\<rparr>)\<lparr>sync_queue := sync_queue s @ [r]\<rparr>)" for s f
    by (auto simp: reshuffles_def outstanding_iff subset_iff within_batches_def
        intro: le_trans [OF length_filter_le])
  then show ?thesis
    by (simp add: reshuffling_def wp_andthen wp_updates count_failure_wp split: option.split)
qed

lemma requeue_reshuffles: "reshuffling cfg (requeue b p rs)"
proof (induction rs)
  case (Cons r rs)
  have "requeue b p (r # rs) = andthen (andthen (count_failure b r) (\<lambda>_.
     andthen (updates (\<lambda>s. set_requests p (filter (\<lambda>r'. r' \<noteq> r) (requests_of p s)) s)) (\<lambda>_.
     updates (\<lambda>s. s\<lparr>sync_queue := sync_queue s @ [r]\<rparr>)))) (\<lambda>_. requeue b p rs)"
    by (simp add: andthen_assoc)
  then show ?case by (simp only: reshuffling_andthen requeue_one_reshuffles Cons.IH)
qed (simp add: reshuffling_def wp_def)

lemma requeue_expired_reshuffles: "reshuffling cfg (requeue_expired b cfg' now ks)"
proof (induction ks)
  case (Cons p ks)
  show ?case
    unfolding requeue_expired.simps
    by (rule reshuffling_andthen) (auto intro: reshuffling_andthen requeue_reshuffles Cons.IH
        simp: reshuffling_def [of _ "reads _"] wp_reads)
qed (simp add: reshuffling_def wp_def)

text \<open>Draining the queue drops nothing but answered requests; an error names the one request it
  drops.\<close>

definition gives_up :: "sync_config \<Rightarrow> network_error \<Rightarrow> sync_request \<Rightarrow> 'p sync_state \<Rightarrow> bool" where
  "gives_up cfg e r s \<longleftrightarrow>
     retry_limit cfg \<le> retry_count r s \<and> e = SyncError (retries_text (retry_count r s))"

definition loses_one ::
  "sync_config \<Rightarrow> network_error \<Rightarrow> sync_request set \<Rightarrow> sync_request set \<Rightarrow> 'p sync_state \<Rightarrow> bool" where
  "loses_one cfg e R R' s \<longleftrightarrow> (\<exists>r. R - {r} \<subseteq> R' \<and> gives_up cfg e r s)"

lemma loses_one_mono:
  "loses_one cfg e R R' s \<Longrightarrow> Q \<subseteq> R \<union> Z \<Longrightarrow> R' \<union> Z \<subseteq> Q' \<Longrightarrow> loses_one cfg e Q Q' s"
  unfolding loses_one_def by (elim exE, rule_tac x = r in exI) blast

lemma drain_queue_spec:
  assumes "drain_queue cfg ks s = (res, s')"
  shows "completed_requests s' = completed_requests s \<and> sync_status s' = sync_status s \<and>
    failed_requests s' = failed_requests s \<and> last_progress s' = last_progress s \<and>
    (within_batches cfg s \<longrightarrow> within_batches cfg s') \<and>
    (case res of
       Ok _ \<Rightarrow> outstanding s - completed_requests s \<subseteq> outstanding s'
     | Err e \<Rightarrow> loses_one cfg e (outstanding s - completed_requests s) (outstanding s') s'
     | Panic _ \<Rightarrow> False)"
  using assms
proof (induction cfg ks s rule: drain_queue.induct)
  case (1 cfg ks s)
  note eq = drain_queue.simps [of cfg ks s]
  show ?case
  proof (cases "sync_queue s")
    case Nil
    with 1(3) show ?thesis by (auto simp: eq)
  next
    case (Cons r q)
    let ?s = "s\<lparr>sync_queue := q\<rparr>"
    have out: "outstanding s \<subseteq> insert r (outstanding ?s)"
      using Cons by (auto simp: outstanding_iff)
    consider (answered) "r \<in> completed_requests s"
      | (gave_up) "r \<notin> completed_requests s" "retry_limit cfg \<le> retry_count r ?s"
      | (assigned) p where "r \<notin> completed_requests s" "\<not> retry_limit cfg \<le> retry_count r ?s"
          "available_peer cfg ks ?s = Some p"
      | (no_peer) "r \<notin> completed_requests s" "\<not> retry_limit cfg \<le> retry_count r ?s"
          "available_peer cfg ks ?s = None"
      by fastforce
    then show ?thesis
    proof cases
      case answered
      with 1(3) Cons have "drain_queue cfg ks ?s = (res, s')" by (simp add: eq Let_def)
      from 1(1) [OF Cons refl _ this] answered out show ?thesis
        by (auto split: outcome.splits elim!: loses_one_mono [where Z = "{}"])
    next
      case gave_up
      with 1(3) Cons have "res = Err (SyncError (retries_text (retry_count r ?s)))" "s' = ?s"
        by (auto simp: eq Let_def)
      with gave_up(2) out show ?thesis by (auto simp: gives_up_def loses_one_def)
    next
      case (assigned p)
      let ?t = "set_requests p (requests_of p ?s @ [r]) ?s"
      from assigned 1(3) Cons have "drain_queue cfg ks ?t = (res, s')" by (simp add: eq Let_def)
      note IH = 1(2) [OF Cons refl _ _ assigned(3) this]
      have "outstanding s \<subseteq> outstanding ?t" using out by (auto simp: outstanding_iff subset_iff)
      moreover have "length (requests_of p ?s) < unat (sync_batch_size cfg)"
        using assigned(3) by (auto simp: available_peer_def find_Some_iff)
      ultimately show ?thesis
        using IH assigned(1,2)
        by (auto simp: within_batches_def split: outcome.splits elim!: loses_one_mono [where Z = "{}"])
    next
      case no_peer
      with 1(3) Cons have "res = Ok ()" "s' = ?s\<lparr>sync_queue := q @ [r]\<rparr>"
        by (simp_all add: eq Let_def)
      then show ?thesis using Cons by (auto simp: outstanding_iff)
    qed
  qed
qed

text \<open>The whole pass over the queue, including the timeouts. The status may also become \<open>Idle\<close> or
  failed.\<close>

lemma process_sync_queue_spec:
  "wp (process_sync_queue b cfg now ks)
     (\<lambda>_ s'. completed_requests s' = completed_requests s \<and>
        (within_batches cfg s \<longrightarrow> within_batches cfg s') \<and>
        outstanding s - completed_requests s \<subseteq> outstanding s' \<and>
        (sync_status s' = SyncIdle \<longrightarrow> sync_status s = SyncIdle \<or> outstanding s' = {}) \<and>
        (\<forall>cur tgt n. sync_status s' = SyncSyncing cur tgt n \<longrightarrow> sync_status s = SyncSyncing cur tgt n))
     (\<lambda>e s'. completed_requests s' = completed_requests s \<and>
        (within_batches cfg s \<longrightarrow> within_batches cfg s') \<and>
        loses_one cfg e (outstanding s - completed_requests s) (outstanding s') s' \<and>
        (\<forall>cur tgt n. sync_status s' = SyncSyncing cur tgt n \<longrightarrow> sync_status s = SyncSyncing cur tgt n))
     (\<lambda>_ s'. reshuffles cfg s s') s"
  unfolding process_sync_queue_def check_timeouts_def wp_andthen wp_updates
proof (rule wp_mono [OF reshufflingD [where cfg = cfg, OF requeue_expired_reshuffles reshuffles_refl]], goal_cases)
  case (1 u t)
  obtain res s' where d: "drain_queue cfg ks (fail_stalled now t) = (res, s')" by fastforce
  have stalled: "completed_requests (fail_stalled now t) = completed_requests t"
    "outstanding (fail_stalled now t) = outstanding t"
    "within_batches cfg (fail_stalled now t) = within_batches cfg t"
    "sync_status (fail_stalled now t) = SyncIdle \<longleftrightarrow> sync_status t = SyncIdle"
    "sync_status (fail_stalled now t) = SyncSyncing cur tgt n \<Longrightarrow> sync_status t = SyncSyncing cur tgt n"
    for cur tgt n
    by (auto simp: fail_stalled_def split: sync_status.splits if_splits)
  have fin: "completed_requests (finish_sync s') = completed_requests s'"
    "outstanding (finish_sync s') = outstanding s'"
    "within_batches cfg (finish_sync s') = within_batches cfg s'"
    "sync_status (finish_sync s') = (if all_answered s' then SyncIdle else sync_status s')"
    by (auto simp: finish_sync_def)
  have "requests_of p s' = []" if "all_answered s'" for p
    using that by (cases "pending_requests s' p") (auto simp: all_answered_def requests_of_def ran_def)
  then have empty: "all_answered s' \<Longrightarrow> outstanding s' = {}"
    by (auto simp: outstanding_iff all_answered_def)
  from drain_queue_spec [OF d] 1 show ?case
    using stalled fin empty
    by (cases res) (auto simp: wp_comp [of "drain_queue cfg ks", OF d] reshuffles_def wp_updates
        elim!: loses_one_mono [where Z = "{}"])
qed auto

section \<open>Calls and reachable states\<close>

text \<open>A call of a handler: the requests it brings, its outcome and the states around it.\<close>

inductive sync_call ::
  "build \<Rightarrow> sync_config \<Rightarrow> sync_request set \<Rightarrow> 'p sync_state \<Rightarrow> (network_error, unit) outcome \<Rightarrow>
   'p sync_state \<Rightarrow> bool" for b cfg where
  call_start: "start_sync now p s = (res, s') \<Longrightarrow> sync_call b cfg {} s res s'"
| call_request: "handle_request b cfg now ks r s = (res, s') \<Longrightarrow> sync_call b cfg {r} s res s'"
| call_response: "handle_response b cfg now1 now2 now3 ks resp s = (res, s') \<Longrightarrow>
    sync_call b cfg {} s res s'"
| call_disconnected: "handle_sync_disconnected p s = (res, s') \<Longrightarrow> sync_call b cfg {} s res s'"

inductive sync_reachable :: "build \<Rightarrow> sync_config \<Rightarrow> 'p sync_state \<Rightarrow> bool" for b cfg where
  sync_new: "sync_reachable b cfg (sync_state_new now)"
| sync_more: "sync_reachable b cfg s \<Longrightarrow> sync_call b cfg new s res s' \<Longrightarrow> sync_reachable b cfg s'"

text \<open>What a call may do, by its outcome.\<close>

definition call_effect ::
  "sync_config \<Rightarrow> sync_request set \<Rightarrow> 'p sync_state \<Rightarrow> (network_error, unit) outcome \<Rightarrow>
   'p sync_state \<Rightarrow> bool" where
  "call_effect cfg new s res s' \<longleftrightarrow>
     (within_batches cfg s \<longrightarrow> within_batches cfg s') \<and>
     ((\<exists>cur tgt n. sync_status s' = SyncSyncing cur tgt n \<and> 1 < unat n) \<longrightarrow>
      (\<exists>cur tgt n. sync_status s = SyncSyncing cur tgt n \<and> 1 < unat n)) \<and>
     (case res of
        Ok _ \<Rightarrow> tracked s \<union> new \<subseteq> tracked s'
      | Err e \<Rightarrow> loses_one cfg e (tracked s \<union> new) (tracked s') s'
      | Panic _ \<Rightarrow> tracked s \<union> new \<subseteq> tracked s')"

lemma call_effect_process:
  assumes "tracked s \<union> new \<subseteq> tracked t" and "within_batches cfg s \<longrightarrow> within_batches cfg t"
    and "\<And>cur tgt n. sync_status t = SyncSyncing cur tgt n \<Longrightarrow> \<exists>cur tgt. sync_status s = SyncSyncing cur tgt n"
    and "process_sync_queue b cfg now ks t = (res, s')"
  shows "call_effect cfg new s res s'"
proof -
  have "wp (process_sync_queue b cfg now ks) (\<lambda>_. call_effect cfg new s (Ok ()))
      (\<lambda>e. call_effect cfg new s (Err e)) (\<lambda>p. call_effect cfg new s (Panic p)) t"
  proof (rule wp_mono [OF process_sync_queue_spec], goal_cases)
    case (1 u s')
    with assms(1,2) show ?case
      unfolding call_effect_def tracked_def by (auto dest!: assms(3))
  next
    case (2 e s')
    with assms(1) have "loses_one cfg e (tracked s \<union> new) (tracked s') s'"
      by (auto simp: tracked_def elim!: loses_one_mono [where Z = "completed_requests t"])
    with 2 assms(2) show ?case
      unfolding call_effect_def by (auto dest!: assms(3))
  next
    case (3 p s')
    with assms(1,2) show ?case
      unfolding call_effect_def tracked_def reshuffles_def by (auto dest!: assms(3))
  qed
  with assms(4) show ?thesis by (cases res) (auto simp: wp_def)
qed

lemma complete_request_sel:
  "sync_queue (complete_request r s) = sync_queue s"
  "requests_of p (complete_request r s) = filter (\<lambda>r'. r' \<noteq> r) (requests_of p s)"
  "completed_requests (complete_request r s) = insert r (completed_requests s)"
  "sync_status (complete_request r s) = sync_status s"
  by (simp_all add: complete_request_def requests_of_def split: option.split)

lemma note_progress_sel:
  "outstanding (note_progress t blk s) = outstanding s"
  "completed_requests (note_progress t blk s) = completed_requests s"
  "within_batches cfg (note_progress t blk s) = within_batches cfg s"
  "sync_status (note_progress t blk s) = SyncSyncing cur tgt n \<Longrightarrow>
     \<exists>cur tgt. sync_status s = SyncSyncing cur tgt n"
  "sync_status (note_progress t blk s) = SyncIdle \<longleftrightarrow> sync_status s = SyncIdle"
  by (auto simp: note_progress_def split: sync_status.splits if_splits)

lemma sync_call_effect:
  assumes "sync_call b cfg new s res s'"
  shows "call_effect cfg new s res s'"
  using assms
proof cases
  case (call_start now p)
  then have "res = Ok ()" and s': "s' = (if sync_status s = SyncIdle
      then s\<lparr>sync_status := SyncSyncing 0 0 1, last_progress := now\<rparr> else s)\<lparr>pending_requests :=
        (pending_requests s)(p \<mapsto> (case pending_requests s p of None \<Rightarrow> [] | Some rs \<Rightarrow> rs))\<rparr>"
    by (auto simp: start_sync_def)
  moreover have "requests_of q s' = requests_of q s" for q
    by (auto simp: s' requests_of_def split: option.split)
  ultimately show ?thesis
    using call_start(1)
    by (auto simp: call_effect_def tracked_def outstanding_iff subset_iff within_batches_def split: if_splits)
next
  case (call_request now ks r)
  show ?thesis
    by (rule call_effect_process [where t = "s\<lparr>sync_queue := sync_queue s @ [r]\<rparr>"])
      (use call_request in \<open>auto simp: handle_request_def tracked_def outstanding_iff\<close>)
next
  case (call_response now1 now2 now3 ks resp)
  let ?r = "answered_request now1 resp"
  let ?t = "note_progress now2 (sp_block_number resp) (complete_request ?r s)"
  have "tracked s \<subseteq> tracked ?t"
    by (auto simp: tracked_def note_progress_sel outstanding_iff complete_request_sel)
  moreover have "within_batches cfg s \<Longrightarrow> within_batches cfg ?t"
    by (auto simp: within_batches_def note_progress_sel [unfolded within_batches_def] complete_request_sel
        intro: le_trans [OF length_filter_le])
  moreover have "\<exists>cur tgt. sync_status s = SyncSyncing cur tgt n"
    if "sync_status ?t = SyncSyncing cur tgt n" for cur tgt n
    using note_progress_sel(4) [OF that] by (simp add: complete_request_sel)
  moreover have "process_sync_queue b cfg now3 ks ?t = (res, s')"
    using call_response(2) by (simp add: handle_response_def)
  ultimately show ?thesis
    using call_response(1) by (auto intro: call_effect_process)
next
  case (call_disconnected p)
  let ?t = "s\<lparr>sync_queue := sync_queue s @ requests_of p s,
    pending_requests := (pending_requests s)(p := None)\<rparr>"
  have t: "requests_of q ?t = (if q = p then [] else requests_of q s)" for q
    by (simp add: requests_of_def)
  have "tracked s \<subseteq> tracked ?t"
    by (auto simp: tracked_def outstanding_iff t split: if_splits)
  moreover have "within_batches cfg s \<Longrightarrow> within_batches cfg ?t"
    by (simp add: within_batches_def t)
  moreover have "res = Ok ()" and "s' = (case sync_status ?t of
      SyncSyncing cur tgt n \<Rightarrow> ?t\<lparr>sync_status := SyncSyncing cur tgt (sat_sub_u n 1)\<rparr> | _ \<Rightarrow> ?t)"
    using call_disconnected(2) by (auto simp: handle_sync_disconnected_def split: sync_status.splits)
  ultimately show ?thesis
    using call_disconnected(1)
    by (auto simp: call_effect_def tracked_def sat_sub_u_def unat_minus_one split: sync_status.splits)
qed

section \<open>Properties\<close>

text \<open>Whatever calls are made, no peer has more than a batch of requests assigned, and the number
  of peers in the status is at most one: the peers after the first are never counted.\<close>

theorem sync_state_invariants:
  assumes "sync_reachable b cfg s"
  shows "length (requests_of p s) \<le> unat (sync_batch_size cfg) \<and>
    (case sync_status s of SyncSyncing _ _ n \<Rightarrow> unat n \<le> 1 | _ \<Rightarrow> True)"
proof -
  have "within_batches cfg s \<and> \<not> (\<exists>cur tgt n. sync_status s = SyncSyncing cur tgt n \<and> 1 < unat n)"
    using assms
  proof induction
    case (sync_new now)
    show ?case by (simp add: sync_state_new_def within_batches_def requests_of_def)
  next
    case (sync_more s new res s')
    with sync_call_effect [OF sync_more(2)] show ?case unfolding call_effect_def by blast
  qed
  then show ?thesis by (auto simp: within_batches_def not_less split: sync_status.splits)
qed

text \<open>C16: No request is lost silently. A call that returns normally keeps every request that was
  waiting, assigned or answered, and the one it brought; one that returns an error dropped at most
  one, which had reached the retry limit and whose number of retries is in the message.\<close>

theorem requests_never_lost:
  assumes "sync_call b cfg new s res s'"
  shows "(res = Ok () \<longrightarrow> tracked s \<union> new \<subseteq> tracked s') \<and>
    (\<forall>e. res = Err e \<longrightarrow> (\<exists>r. tracked s \<union> new - {r} \<subseteq> tracked s' \<and>
       retry_limit cfg \<le> retry_count r s' \<and> e = SyncError (retries_text (retry_count r s'))))"
  using sync_call_effect [OF assms]
  by (auto simp: call_effect_def loses_one_def gives_up_def)

text \<open>An answer does not settle its request. The code compares the request with one that carries
  the time of the answer's arrival, so unless a request was made at this very instant, every
  outstanding request stays outstanding, and a synchronisation with one is not \<open>Idle\<close> afterwards.\<close>

theorem response_settles_nothing:
  assumes "handle_response b cfg now1 now2 now3 ks resp s = (Ok (), s')"
    and "\<And>r. r \<in> outstanding s \<Longrightarrow> sr_timestamp r \<noteq> now1"
    and "outstanding s \<inter> completed_requests s = {}"
  shows "outstanding s \<subseteq> outstanding s' \<and>
    (sync_status s \<noteq> SyncIdle \<and> outstanding s \<noteq> {} \<longrightarrow> sync_status s' \<noteq> SyncIdle)"
proof -
  let ?r = "answered_request now1 resp"
  let ?t = "note_progress now2 (sp_block_number resp) (complete_request ?r s)"
  have "?r \<notin> outstanding s" using assms(2) [of ?r] by (auto simp: answered_request_def)
  then have "outstanding ?t = outstanding s" "outstanding ?t \<inter> completed_requests ?t = {}"
    using assms(3)
    by (auto simp: set_eq_iff note_progress_sel outstanding_iff complete_request_sel)
  moreover have "sync_status ?t = SyncIdle \<longleftrightarrow> sync_status s = SyncIdle"
    by (simp add: note_progress_sel complete_request_sel)
  moreover have "process_sync_queue b cfg now3 ks ?t = (Ok (), s')"
    using assms(1) by (simp add: handle_response_def)
  moreover note wp_Ok [OF process_sync_queue_spec this]
  ultimately show ?thesis by blast
qed

text \<open>A state in which one peer has one request.\<close>

definition sole_request :: "'p \<Rightarrow> sync_request \<Rightarrow> u32 \<Rightarrow> 'p sync_state \<Rightarrow> bool" where
  "sole_request p r n s \<longleftrightarrow>
     pending_requests s = [p \<mapsto> [r]] \<and> sync_queue s = [] \<and> r \<notin> completed_requests s \<and>
     retry_count r s = n"

lemma expiry_pass:
  assumes "sole_request p r n s" and "expired cfg now r" and "add_u b n 1 = Some n'"
    and "0 < unat (sync_batch_size cfg)"
  shows "\<exists>s'. process_sync_queue b cfg now [p] s =
      (if retry_limit cfg \<le> n' then Err (SyncError (retries_text n')) else Ok (), s') \<and>
    (if retry_limit cfg \<le> n' then tracked s' = completed_requests s \<and> r \<notin> tracked s'
     else sole_request p r n' s')"
proof -
  note s = assms(1) [unfolded sole_request_def]
  let ?t = "s\<lparr>failed_requests := (failed_requests s)(r \<mapsto> n'),
    pending_requests := [p \<mapsto> []], sync_queue := [r]\<rparr>"
  let ?u = "fail_stalled now ?t"
  have "requests_of p s = [r]" using s by (simp add: requests_of_def)
  then have req: "requeue_expired b cfg now [p] s = (Ok (), ?t)"
    using s assms(2,3)
    by (simp add: count_failure_def set_requests_def requests_of_def andthen_assoc andthen_ret_left)
  have u: "pending_requests ?u = [p \<mapsto> []]" "sync_queue ?u = [r]" "completed_requests ?u = completed_requests s"
    "failed_requests ?u = failed_requests ?t"
    by (auto simp: fail_stalled_def split: sync_status.split)
  have check: "check_timeouts b cfg now [p] s = (Ok (), ?u)"
    by (simp only: check_timeouts_def andthen_Ok [of "requeue_expired b cfg now [p]", OF req] updates_apply)
  let ?v = "?u\<lparr>sync_queue := []\<rparr>"
  have retry: "retry_count r ?v = n'" using u(4) by (simp add: retry_count_def)
  show ?thesis
  proof (cases "retry_limit cfg \<le> n'")
    case True
    then have drain: "drain_queue cfg [p] ?u = (Err (SyncError (retries_text n')), ?v)"
      using u s retry by (simp add: drain_queue.simps [of cfg "[p]" ?u] Let_def)
    have "outstanding ?v = {}"
      using u(1) by (auto simp: outstanding_iff requests_of_def split: if_splits)
    then show ?thesis
      unfolding process_sync_queue_def andthen_Ok [of "check_timeouts b cfg now [p]", OF check] andthen_Err [of "drain_queue cfg [p]", OF drain]
      using True s u(3) by (simp add: tracked_def)
  next
    case False
    let ?w = "set_requests p [r] ?v"
    have "available_peer cfg [p] ?v = Some p"
      using u(1) assms(4) by (simp add: available_peer_def requests_of_def)
    then have "drain_queue cfg [p] ?u = drain_queue cfg [p] ?w"
      using False u s retry
      by (simp add: drain_queue.simps [of cfg "[p]" ?u] Let_def) (simp add: requests_of_def)
    also have "\<dots> = (Ok (), ?w)" by (simp add: drain_queue.simps [of cfg "[p]" ?w])
    finally have drain: "drain_queue cfg [p] ?u = (Ok (), ?w)" .
    have "finish_sync ?w = ?w"
      by (auto simp: finish_sync_def all_answered_def set_requests_def ran_def)
    moreover have "sole_request p r n' ?w"
      using u s retry by (simp add: sole_request_def set_requests_def retry_count_def)
    ultimately show ?thesis
      unfolding process_sync_queue_def andthen_Ok [of "check_timeouts b cfg now [p]", OF check] andthen_Ok [of "drain_queue cfg [p]", OF drain]
      using False by simp
  qed
qed

text \<open>A request that has timed out once is not given another chance. It keeps its old timestamp
  when it is handed out again, so it counts as timed out at every later pass over the queue, however
  soon: with the limits of \<open>new\<close>, the third pass after the timeout fails with three retries and
  drops the request, even if no time has passed since the first.\<close>

theorem expired_request_given_up:
  assumes "cfg = state_sync_new n" and "0 < unat n" and "sole_request p r 0 s"
    and "expired cfg now1 r" and "now1 \<le> now2" and "now2 \<le> now3"
  shows "\<exists>s1 s2 s3. process_sync_queue b cfg now1 [p] s = (Ok (), s1) \<and>
    process_sync_queue b cfg now2 [p] s1 = (Ok (), s2) \<and>
    process_sync_queue b cfg now3 [p] s2 = (Err (SyncError ''Request failed after 3 retries''), s3) \<and>
    r \<notin> tracked s3"
proof -
  have ex: "expired cfg now2 r" "expired cfg now3 r"
    using assms(4-6) by (auto simp: expired_def)
  have lim: "retry_limit cfg = 3" "0 < unat (sync_batch_size cfg)"
    using assms(1,2) by (simp_all add: state_sync_new_def)
  have small: "\<not> (3 :: u32) \<le> 1" "\<not> (3 :: u32) \<le> 2"
    by (simp_all add: word_le_nat_alt)
  have add: "add_u b (0 :: u32) 1 = Some 1" "add_u b (1 :: u32) 1 = Some 2" "add_u b (2 :: u32) 1 = Some 3"
    by (simp_all add: add_u_def)
  obtain s1 where 1: "process_sync_queue b cfg now1 [p] s = (Ok (), s1)" "sole_request p r 1 s1"
    using expiry_pass [OF assms(3,4) add(1) lim(2)] by (auto simp: lim(1) small)
  obtain s2 where 2: "process_sync_queue b cfg now2 [p] s1 = (Ok (), s2)" "sole_request p r 2 s2"
    using expiry_pass [OF 1(2) ex(1) add(2) lim(2)] by (auto simp: lim(1) small)
  obtain s3 where "process_sync_queue b cfg now3 [p] s2 = (Err (SyncError (retries_text 3)), s3)"
      "r \<notin> tracked s3"
    using expiry_pass [OF 2(2) ex(2) add(3) lim(2)] by (auto simp: lim(1))
  moreover have "retries_text 3 = ''Request failed after 3 retries''"
    by code_simp
  ultimately show ?thesis using 1(1) 2(1) by auto
qed

section \<open>Witnesses\<close>

definition sample_request :: "nat \<Rightarrow> sync_request" where
  "sample_request t =
     \<lparr>sr_block_number = 1, sr_account = ''test'', sr_storage_keys = [], sr_timestamp = t\<rparr>"

definition sample_sync :: "nat sync_state" where
  "sample_sync =
     \<lparr>sync_status = SyncSyncing 0 0 1, pending_requests = [0 \<mapsto> [sample_request 5]],
      completed_requests = {}, failed_requests = Map.empty, sync_queue = [], last_progress = 5\<rparr>"

lemma sample_started:
  "handle_request Debug (state_sync_new 10) 5 [0] (sample_request 5)
     (snd (start_sync 5 0 (sync_state_new 0))) = (Ok (), sample_sync)"
proof -
  let ?s = "\<lparr>sync_status = SyncSyncing 0 0 1, pending_requests = [0 \<mapsto> []],
    completed_requests = {}, failed_requests = Map.empty, sync_queue = [sample_request 5],
    last_progress = 5\<rparr> :: nat sync_state"
  have "fst (available_peer (state_sync_new 10) [0] (?s\<lparr>sync_queue := []\<rparr>), 1 :: nat) = Some 0"
    by (simp add: available_peer_def requests_of_def state_sync_new_def)
  then have "drain_queue (state_sync_new 10) [0] ?s = drain_queue (state_sync_new 10) [0] sample_sync"
    by (simp add: drain_queue.simps [of _ _ ?s] Let_def retry_count_def state_sync_new_def set_requests_def
        requests_of_def sample_sync_def)
  also have "\<dots> = (Ok (), sample_sync)"
    by (simp add: drain_queue.simps sample_sync_def)
  finally have "drain_queue (state_sync_new 10) [0] ?s = (Ok (), sample_sync)" .
  moreover have "finish_sync sample_sync = sample_sync"
    by (simp add: finish_sync_def all_answered_def sample_sync_def ran_def)
  ultimately show ?thesis
    by (simp add: handle_request_def start_sync_def sync_state_new_def process_sync_queue_def
        check_timeouts_def requests_of_def fail_stalled_def seconds_def andthen_def)
qed

lemma sample_reachable: "sync_reachable Debug (state_sync_new 10) sample_sync"
proof -
  have "sync_call Debug (state_sync_new 10) {} (sync_state_new 0) (Ok ())
      (snd (start_sync 5 (0 :: nat) (sync_state_new 0)))"
    by (rule call_start [where now = 5 and p = 0]) (simp add: start_sync_def)
  from sync_more [OF sync_more [OF sync_new this] call_request [OF sample_started]] show ?thesis .
qed

theorem sync_state_invariants_witness:
  "length (requests_of 0 sample_sync) \<le> 10"
  using sync_state_invariants [OF sample_reachable, of 0] by (simp add: state_sync_new_def)

theorem requests_never_lost_witness:
  "sample_request 5 \<in> tracked sample_sync"
  using requests_never_lost [OF call_request [OF sample_started]] by simp

definition sample_answer :: sync_response where
  "sample_answer = \<lparr>sp_block_number = 1, sp_account = ''test'', sp_storage_keys = []\<rparr>"

theorem response_settles_nothing_witness:
  "\<exists>s'. handle_response Debug (state_sync_new 10) 9 9 9 [0] sample_answer sample_sync = (Ok (), s') \<and>
     sample_request 5 \<in> outstanding s' \<and> sync_status s' \<noteq> SyncIdle"
proof -
  let ?t = "note_progress 9 1 (complete_request (answered_request 9 sample_answer) sample_sync)"
  have t: "requests_of 0 ?t = [sample_request 5]" "sync_queue ?t = []" "last_progress ?t \<le> 9"
    "sync_status ?t = SyncSyncing 1 0 1"
    by (simp_all add: note_progress_def complete_request_def sample_sync_def requests_of_def
        answered_request_def sample_request_def)
  have "requeue_expired Debug (state_sync_new 10) 9 [0] ?t = (Ok (), ?t)"
    using t(1) by (simp add: expired_def state_sync_new_def sample_request_def seconds_def)
  moreover have "drain_queue (state_sync_new 10) [0] u = (Ok (), u)" if "sync_queue u = []"
    for u :: "nat sync_state"
    using that by (simp add: drain_queue.simps)
  moreover have "fail_stalled 9 ?t = ?t"
    using t(4) by (simp add: fail_stalled_def seconds_def)
  ultimately have run: "handle_response Debug (state_sync_new 10) 9 9 9 [0] sample_answer sample_sync =
      (Ok (), finish_sync ?t)"
    using t(2) by (simp add: handle_response_def process_sync_queue_def check_timeouts_def andthen_def
        sample_answer_def)
  have "outstanding sample_sync = {sample_request 5}"
    by (auto simp: outstanding_iff sample_sync_def requests_of_def split: if_splits)
  moreover have "completed_requests sample_sync = {}" "sync_status sample_sync \<noteq> SyncIdle"
    by (simp_all add: sample_sync_def)
  ultimately show ?thesis
    using response_settles_nothing [OF run] run by (simp add: sample_request_def)
qed

theorem expired_request_given_up_witness:
  "\<exists>s1 s2 s3. process_sync_queue Debug (state_sync_new 10) (seconds 31) [0] sample_sync = (Ok (), s1) \<and>
    process_sync_queue Debug (state_sync_new 10) (seconds 31) [0] s1 = (Ok (), s2) \<and>
    process_sync_queue Debug (state_sync_new 10) (seconds 31) [0] s2 =
      (Err (SyncError ''Request failed after 3 retries''), s3)"
proof -
  have "sole_request 0 (sample_request 5) 0 sample_sync"
    by (simp add: sole_request_def sample_sync_def retry_count_def)
  moreover have "expired (state_sync_new 10) (seconds 31) (sample_request 5)"
    by (simp add: expired_def state_sync_new_def seconds_def sample_request_def)
  ultimately show ?thesis
    using expired_request_given_up [of "state_sync_new 10" 10 0 "sample_request 5" sample_sync
        "seconds 31" "seconds 31" "seconds 31" Debug]
    by auto
qed

end
