(* ===== verification/Network_Properties.thy ===== *)
theory Network_Properties
  imports Network Sync_Properties
begin

text \<open>
  Properties of the network manager: what holds after any arrivals, what the node never does with
  what it receives, and what ends its event loop.
\<close>

section \<open>What a pass over the queue keeps\<close>

definition registered :: "'p set \<Rightarrow> 'p sync_state \<Rightarrow> bool" where
  "registered D s \<longleftrightarrow> dom (pending_requests s) = D"

lemma registered_cong [simp]:
  "registered D (s\<lparr>sync_queue := q\<rparr>) = registered D s"
  "registered D (s\<lparr>sync_status := st\<rparr>) = registered D s"
  "registered D (s\<lparr>failed_requests := f\<rparr>) = registered D s"
  by (simp_all add: registered_def)

lemma registered_set: "p \<in> D \<Longrightarrow> registered D s \<Longrightarrow> registered D (set_requests p rs s)"
  by (auto simp: registered_def set_requests_def)

lemma registered_count [preserving]: "preserves (registered D) (count_failure b r)"
  unfolding count_failure_def by (intro preserving preserves_updates) simp

lemma registered_requeue [preserving]: "p \<in> D \<Longrightarrow> preserves (registered D) (requeue b p rs)"
  by (induction rs) (auto intro!: preserving preserves_updates registered_set)

lemma registered_requeue_expired [preserving]:
  "set ks \<subseteq> D \<Longrightarrow> preserves (registered D) (requeue_expired b cfg now ks)"
  by (induction ks) (auto intro!: preserving)

lemma registered_drain:
  "set ks \<subseteq> D \<Longrightarrow> registered D s \<Longrightarrow> registered D (snd (drain_queue cfg ks s))"
proof (induction cfg ks s rule: drain_queue.induct)
  case (1 cfg ks s)
  note eq = drain_queue.simps [of cfg ks s]
  show ?case
  proof (cases "sync_queue s")
    case Nil
    with 1(4) show ?thesis by (simp add: eq)
  next
    case (Cons r q)
    have "p \<in> D" if "available_peer cfg ks (s\<lparr>sync_queue := q\<rparr>) = Some p" for p
      using that 1(3) by (auto simp: available_peer_def find_Some_iff)
    with Cons 1 show ?thesis
      by (auto simp: eq Let_def registered_set split: option.split)
  qed
qed

lemma registered_pass [preserving]:
  assumes "set ks \<subseteq> D"
  shows "preserves (registered D) (process_sync_queue b cfg now ks)"
proof -
  have "preserves (registered D) (drain_queue cfg ks)"
    using registered_drain [OF assms] by (rule preservesI)
  with assms show ?thesis
    unfolding process_sync_queue_def check_timeouts_def
    by (auto intro!: preserving preserves_updates simp: fail_stalled_def finish_sync_def split: sync_status.split)
qed

lemma registered_handlers [preserving]:
  assumes "set ks \<subseteq> D"
  shows "preserves (registered D) (handle_request b cfg now ks r)"
    and "preserves (registered D) (handle_response b cfg now1 now2 now3 ks resp)"
  unfolding handle_request_def handle_response_def using assms
  by (auto intro!: preserving preserves_updates
      simp: complete_request_def note_progress_def registered_def split: sync_status.split)

lemma registered_start: "registered D s \<Longrightarrow> registered (insert p D) (snd (start_sync now p s))"
  by (auto simp: start_sync_def registered_def)

lemma registered_disconnected: "registered D s \<Longrightarrow> registered (D - {p}) (snd (handle_sync_disconnected p s))"
  by (auto simp: handle_sync_disconnected_def registered_def split: sync_status.splits)

section \<open>What holds after any arrivals\<close>

text \<open>The maps are iterated over keys they have.\<close>

fun iterates_keys :: "'p arrival \<Rightarrow> ('p, 'w) network_manager \<Rightarrow> bool" where
  "iterates_keys (SwarmArrival t ev) s = True"
| "iterates_keys (MessageArrival t msg) s = (set (peer_order t) \<subseteq> dom (pending_requests (nm_sync s)))"

inductive net_reachable ::
  "build \<Rightarrow> ('p, 'w, 'k, 'a) network_env \<Rightarrow> network_config \<Rightarrow> ('p, 'w) network_manager \<Rightarrow> bool"
  for b E cfg where
  net_new: "network_new E now now' cfg = Ok s \<Longrightarrow> net_reachable b E cfg s"
| net_arrival: "net_reachable b E cfg s \<Longrightarrow> iterates_keys a s \<Longrightarrow> handle_arrival b E a s = (r, s') \<Longrightarrow>
    net_reachable b E cfg s'"

lemma arrival_cases:
  assumes "handle_arrival b E a s = (r, s')"
  obtains (message) t msg where "a = MessageArrival t msg" "s' = snd (handle_message b E t msg s)"
  | (connected) t p where "a = SwarmArrival t (ConnectionEstablished p)"
      "s' = snd (handle_peer_connected (clock1 t) (clock2 t) p s)"
  | (closed) t p where "a = SwarmArrival t (ConnectionClosed p)" "s' = snd (handle_peer_disconnected p s)"
  | (nothing) "s' = s"
  using assms
  by (auto simp: handle_arrival_def handle_swarm_event_def split: arrival.splits swarm_event.splits)

definition peers_inv :: "('p, 'w) network_manager \<Rightarrow> bool" where
  "peers_inv s \<longleftrightarrow> registered (dom (nm_peers s)) (nm_sync s) \<and>
     (\<forall>p i. nm_peers s p = Some i \<longrightarrow> peer_id i = p \<and> peer_status i = Connected)"

lemma connected_config [simp]:
  "nm_config (snd (handle_peer_connected now now' p s)) = nm_config s"
  "nm_sync_config (snd (handle_peer_connected now now' p s)) = nm_sync_config s"
  by (simp_all add: connected_state)

lemma disconnected_config [simp]:
  "nm_config (snd (handle_peer_disconnected p s)) = nm_config s"
  "nm_sync_config (snd (handle_peer_disconnected p s)) = nm_sync_config s"
  by (simp_all add: disconnected_state)

lemma peers_inv_connected:
  "peers_inv s \<Longrightarrow> peers_inv (snd (handle_peer_connected now now' p s))"
  using registered_start [of "dom (nm_peers s)" "nm_sync s" p now']
  by (auto simp: connected_state peers_inv_def connected_info_def)

lemma peers_inv_disconnected: "peers_inv s \<Longrightarrow> peers_inv (snd (handle_peer_disconnected p s))"
  using registered_disconnected [of "dom (nm_peers s)" "nm_sync s" p]
  by (auto simp: disconnected_state peers_inv_def)

lemma peers_inv_message:
  assumes "peers_inv s" and "set (peer_order t) \<subseteq> dom (pending_requests (nm_sync s))"
  shows "peers_inv (snd (handle_message b E t msg s))"
proof -
  from assms have "set (peer_order t) \<subseteq> dom (nm_peers s)" and r: "registered (dom (nm_peers s)) (nm_sync s)"
    by (simp_all add: peers_inv_def registered_def)
  note registered_handlers [OF this(1), THEN preservesD, OF r]
  with assms(1) r show ?thesis
    by (simp add: handle_message_state peers_inv_def split: message_type.split)
qed

lemma net_reachable_inv:
  assumes "net_reachable b E cfg s"
  shows "peers_inv s \<and> nm.bounded s \<and> nm_config s = cfg"
  using assms
proof induction
  case (net_new now now' s)
  then show ?case
    by (cases "open_swarm E cfg")
      (auto simp: network_new_def peers_inv_def registered_def sync_state_new_def nm.bounded_def)
next
  case (net_arrival s a r s')
  from net_arrival(3) show ?case
  proof (cases rule: arrival_cases)
    case (message t msg)
    with net_arrival show ?thesis
      by (auto intro: peers_inv_message nm.other_bounded other_message)
  next
    case (connected t p)
    with net_arrival nm.join_bounded [of s "(clock1 t, clock2 t, p)"] show ?thesis
      by (simp add: peers_inv_connected)
  next
    case (closed t p)
    with net_arrival show ?thesis
      by (auto intro: peers_inv_disconnected nm.other_bounded other_closed)
  qed (use net_arrival in simp)
qed

text \<open>The votes, the height and the round: nothing that arrives touches them.\<close>

definition consensus_idle :: "consensus_state \<Rightarrow> bool" where
  "consensus_idle c \<longleftrightarrow> finalized_blocks c = Map.empty \<and> (\<forall>h V. votes c h = Some V \<longrightarrow> V = {}) \<and>
     validators c = Map.empty \<and> current_height c = 0 \<and> current_round c = 0"

lemma idle_consensus_calls [preserving]:
  "preserves consensus_idle (process_block E blk)" "preserves consensus_idle (process_transaction tx)"
  unfolding process_block_def process_transaction_def
  by (auto intro!: preserving preserves_updates simp: consensus_idle_def)

section \<open>Properties\<close>

text \<open>C22: After any sequence of arrivals, failed handlers included, the manager holds at most its
  maximum of peers, stores each under its own identifier and as connected, and the state
  synchronisation has a batch for exactly the connected peers.\<close>

theorem network_invariants:
  assumes "net_reachable b E cfg s"
  shows "map_len (nm_peers s) \<le> unat (nc_max_peers cfg) \<and> finite (dom (nm_peers s)) \<and>
    dom (pending_requests (nm_sync s)) = dom (nm_peers s) \<and>
    (\<forall>p i. nm_peers s p = Some i \<longrightarrow> peer_id i = p \<and> peer_status i = Connected)"
  using net_reachable_inv [OF assms]
  by (auto simp: peers_inv_def registered_def nm.bounded_def map_len_def)

text \<open>C28: A node never finalises a block. No message carries a vote and the loop never runs a round of
  the consensus engine, so after any arrivals no block is final, no vote is counted, and height and
  round are zero.\<close>

theorem network_never_finalises:
  assumes "net_reachable b E cfg s"
  shows "finalized_blocks (nm_consensus s) = Map.empty \<and>
    (\<forall>h V. votes (nm_consensus s) h = Some V \<longrightarrow> V = {}) \<and>
    current_height (nm_consensus s) = 0 \<and> current_round (nm_consensus s) = 0"
proof -
  have "consensus_idle (nm_consensus s)"
    using assms
  proof induction
    case (net_new now now' s)
    then show ?case
      by (cases "open_swarm E cfg") (auto simp: network_new_def consensus_idle_def consensus_state_new_def)
  next
    case (net_arrival s a r s')
    note idle = idle_consensus_calls [THEN preservesD, OF net_arrival.IH]
    from net_arrival(3) show ?case
      by (cases rule: arrival_cases)
        (use idle net_arrival.IH in \<open>auto simp: handle_message_state connected_state disconnected_state
          split: message_type.splits\<close>)
  qed
  then show ?thesis by (auto simp: consensus_idle_def)
qed

section \<open>What ends the loop\<close>

lemma event_loop_append:
  "event_loop b E (xs @ ys) s = andthen (event_loop b E xs) (\<lambda>_. event_loop b E ys) s"
proof (induction xs arbitrary: s)
  case (Cons x xs)
  then have "event_loop b E (xs @ ys) = andthen (event_loop b E xs) (\<lambda>_. event_loop b E ys)"
    by (rule ext)
  then show ?case by (simp only: append_Cons event_loop.simps andthen_assoc)
qed (simp add: andthen_def)

lemma event_loop_Cons_Ok: "handle_arrival b E a s = (Ok (), s') \<Longrightarrow> event_loop b E (a # as) s = event_loop b E as s'"
  by (simp add: andthen_Ok)

lemma event_loop_Cons_Err: "handle_arrival b E a s = (Err e, s') \<Longrightarrow> event_loop b E (a # as) s = (Err e, s')"
  by (simp add: andthen_Err)

definition connection :: "'p readings \<times> 'p \<Rightarrow> 'p arrival" where
  "connection x = SwarmArrival (fst x) (ConnectionEstablished (snd x))"

lemma connection_handled:
  "handle_arrival b E (connection (t, p)) s =
     (if unat (nc_max_peers (nm_config s)) \<le> map_len (nm_peers s)
      then (Err (PeerError ''Max peers reached''), s)
      else (Ok (), snd (handle_peer_connected (clock1 t) (clock2 t) p s)))"
  by (simp add: connection_def handle_arrival_def handle_swarm_event_def handle_peer_connected_def
      on_sync_apply start_sync_def)

lemma connections_accepted:
  assumes "distinct (map snd tps)" and "set (map snd tps) \<inter> dom (nm_peers s) = {}" and "finite (dom (nm_peers s))"
    and "map_len (nm_peers s) + length tps \<le> unat (nc_max_peers (nm_config s))"
  shows "\<exists>s'. event_loop b E (map connection tps) s = (Ok (), s') \<and> nm_config s' = nm_config s \<and>
    dom (nm_peers s') = dom (nm_peers s) \<union> set (map snd tps)"
  using assms
proof (induction tps arbitrary: s)
  case (Cons x tps)
  obtain t p where x: "x = (t, p)" by fastforce
  let ?s = "snd (handle_peer_connected (clock1 t) (clock2 t) p s)"
  have room: "\<not> unat (nc_max_peers (nm_config s)) \<le> map_len (nm_peers s)" using Cons.prems(4) by simp
  then have peers: "nm_peers ?s = (nm_peers s)(p \<mapsto> connected_info (clock1 t) p)"
    by (simp add: connected_state)
  from Cons.prems(2) x have "p \<notin> dom (nm_peers s)" by auto
  with Cons.prems(3) have "map_len (nm_peers ?s) = Suc (map_len (nm_peers s))"
    unfolding peers by (rule map_len_update_new)
  then have "map_len (nm_peers ?s) + length tps \<le> unat (nc_max_peers (nm_config ?s))"
    using Cons.prems(4) by (simp del: not_le)
  moreover have "set (map snd tps) \<inter> dom (nm_peers ?s) = {}" "finite (dom (nm_peers ?s))"
    using Cons.prems(1-3) unfolding peers by (auto simp: x)
  moreover have "distinct (map snd tps)" using Cons.prems(1) by simp
  ultimately obtain s' where "event_loop b E (map connection tps) ?s = (Ok (), s')"
    "nm_config s' = nm_config ?s" "dom (nm_peers s') = dom (nm_peers ?s) \<union> set (map snd tps)"
    using Cons.IH [of ?s] by blast
  moreover have "event_loop b E (map connection (x # tps)) s = event_loop b E (map connection tps) ?s"
    unfolding list.map x by (rule event_loop_Cons_Ok) (simp add: connection_handled room)
  ultimately have "event_loop b E (map connection (x # tps)) s = (Ok (), s')" "nm_config s' = nm_config s"
    "dom (nm_peers s') = dom (nm_peers s) \<union> set (map snd (x # tps))"
    by (simp_all add: peers x)
  then show ?case by blast
qed simp

text \<open>C38: One connection too many stops the node. After the maximum of connections, the next one, even
  of a peer that is connected already, makes the handler return an error that leaves the event loop:
  \<open>start\<close> returns it, and nothing that arrives later is handled.\<close>

theorem connection_limit_stops_node:
  assumes "network_new E now now' cfg = Ok s" and "distinct (map snd tps)"
    and "length tps = unat (nc_max_peers cfg)"
  shows "\<exists>s'. dom (nm_peers s') = set (map snd tps) \<and>
    (\<forall>t p rest. event_loop b E (map connection tps @ connection (t, p) # rest) s =
       (Err (PeerError ''Max peers reached''), s'))"
proof -
  have s: "nm_peers s = Map.empty" "nm_config s = cfg"
    using assms(1) by (cases "open_swarm E cfg"; auto simp: network_new_def)+
  then obtain s' where run: "event_loop b E (map connection tps) s = (Ok (), s')"
    and cfg: "nm_config s' = cfg" and dom: "dom (nm_peers s') = set (map snd tps)"
    using connections_accepted [OF assms(2), of s b E] assms(3) by (auto simp: map_len_def)
  have "map_len (nm_peers s') = unat (nc_max_peers cfg)"
    using dom distinct_card [OF assms(2)] assms(3) by (simp add: map_len_def)
  then have "event_loop b E (connection (t, p) # rest) s' = (Err (PeerError ''Max peers reached''), s')"
    for t p rest
    by (intro event_loop_Cons_Err) (simp add: connection_handled cfg)
  then show ?thesis
    using dom by (intro exI [of _ s']) (simp add: event_loop_append andthen_Ok [of "event_loop b E (map connection tps)", OF run])
qed

definition is_state_answer :: "message \<Rightarrow> bool" where
  "is_state_answer msg \<longleftrightarrow> (\<exists>resp. msg_type msg = StateResponseMsg resp)"

lemma sole_request_answered:
  assumes "sole_request p r n s" and "sr_timestamp r \<noteq> now"
  shows "sole_request p r n (note_progress now' blk (complete_request (answered_request now resp) s))"
proof -
  have "r \<noteq> answered_request now resp" using assms(2) by (auto simp: answered_request_def)
  moreover have "pending_requests (note_progress now' blk s) = pending_requests s"
    "sync_queue (note_progress now' blk s) = sync_queue s"
    "completed_requests (note_progress now' blk s) = completed_requests s"
    "retry_count r (note_progress now' blk s) = retry_count r s" for s :: "'a sync_state"
    by (auto simp: note_progress_def retry_count_def split: sync_status.split)
  ultimately show ?thesis
    using assms(1) by (auto simp: sole_request_def complete_request_def retry_count_def fun_eq_iff)
qed

lemma late_answer_handled:
  assumes "sole_request p r n (nm_sync s)" and "nm_sync_config s = cfg" and "0 < unat (sync_batch_size cfg)"
    and "is_state_answer msg" and "peer_order t = [p]"
    and "expired cfg (clock1 t) r" and "clock1 t \<le> clock3 t" and "add_u b n 1 = Some n'"
  shows "\<exists>s'. handle_arrival b E (MessageArrival t msg) s =
      (if retry_limit cfg \<le> n' then Err (SyncError (retries_text n')) else Ok (), s') \<and>
    nm_sync_config s' = cfg \<and>
    (if retry_limit cfg \<le> n' then r \<notin> tracked (nm_sync s') else sole_request p r n' (nm_sync s'))"
proof -
  from assms(4) obtain resp where resp: "msg_type msg = StateResponseMsg resp"
    by (auto simp: is_state_answer_def)
  let ?q = "as_sync_response E resp"
  let ?t = "note_progress (clock2 t) (sp_block_number ?q)
    (complete_request (answered_request (clock1 t) ?q) (nm_sync s))"
  have "sr_timestamp r \<noteq> clock1 t" and ex: "expired cfg (clock3 t) r"
    using assms(6,7) by (auto simp: expired_def)
  then have "sole_request p r n ?t" using assms(1) by (intro sole_request_answered)
  from expiry_pass [OF this ex assms(8,3)] obtain u where
    u: "process_sync_queue b cfg (clock3 t) [p] ?t =
      (if retry_limit cfg \<le> n' then Err (SyncError (retries_text n')) else Ok (), u)"
      "if retry_limit cfg \<le> n' then r \<notin> tracked u else sole_request p r n' u"
    by (auto split: if_splits)
  have "handle_arrival b E (MessageArrival t msg) s =
      on_sync (handle_response b cfg (clock1 t) (clock2 t) (clock3 t) [p] ?q) s"
    using assms(2,5) resp by (simp add: handle_arrival_def handle_message_def)
  also have "\<dots> = (if retry_limit cfg \<le> n' then Err (SyncError (retries_text n')) else Ok (), s\<lparr>nm_sync := u\<rparr>)"
    using u(1) by (simp add: on_sync_apply handle_response_def)
  finally show ?thesis
    using u(2) assms(2) by (intro exI [of _ "s\<lparr>nm_sync := u\<rparr>"]) (simp split: if_splits)
qed

text \<open>C21: A peer that does not answer in time stops the node. When its only request is older than the
  timeout, three answers that arrive, be it for that very request, make the handler fail: the loop
  of \<open>start\<close> ends with the error of the retry limit, the request is lost and nothing that arrives
  later is handled.\<close>

theorem late_answers_stop_node:
  assumes "nm_sync_config s = state_sync_new n" and "0 < unat n" and "sole_request p r 0 (nm_sync s)"
    and "\<And>t. t \<in> {t1, t2, t3} \<Longrightarrow>
      peer_order t = [p] \<and> sr_timestamp r + seconds 30 < clock1 t \<and> clock1 t \<le> clock3 t"
    and "\<And>m. m \<in> {m1, m2, m3} \<Longrightarrow> is_state_answer m"
  shows "\<exists>s'. r \<notin> tracked (nm_sync s') \<and>
    (\<forall>rest. event_loop b E (MessageArrival t1 m1 # MessageArrival t2 m2 # MessageArrival t3 m3 # rest) s =
       (Err (SyncError ''Request failed after 3 retries''), s'))"
proof -
  let ?cfg = "state_sync_new n"
  have ex: "peer_order t = [p]" "expired ?cfg (clock1 t) r" "clock1 t \<le> clock3 t" if "t \<in> {t1, t2, t3}" for t
    using assms(4) [OF that] by (auto simp: expired_def state_sync_new_def)
  have lim: "0 < unat (sync_batch_size ?cfg)" "retry_limit ?cfg = 3"
    using assms(2) by (simp_all add: state_sync_new_def)
  have small: "\<not> (3 :: u32) \<le> 1" "\<not> (3 :: u32) \<le> 2" by (simp_all add: word_le_nat_alt)
  have add: "add_u b (0 :: u32) 1 = Some 1" "add_u b (1 :: u32) 1 = Some 2" "add_u b (2 :: u32) 1 = Some 3"
    by (simp_all add: add_u_def)
  obtain s1 where 1: "handle_arrival b E (MessageArrival t1 m1) s = (Ok (), s1)"
    "nm_sync_config s1 = ?cfg" "sole_request p r 1 (nm_sync s1)"
    using late_answer_handled [OF assms(3,1) lim(1) assms(5) [of m1] ex [of t1] add(1), of E]
    by (auto simp: lim(2) small)
  obtain s2 where 2: "handle_arrival b E (MessageArrival t2 m2) s1 = (Ok (), s2)"
    "nm_sync_config s2 = ?cfg" "sole_request p r 2 (nm_sync s2)"
    using late_answer_handled [OF 1(3,2) lim(1) assms(5) [of m2] ex [of t2] add(2), of E]
    by (auto simp: lim(2) small)
  obtain s3 where 3: "handle_arrival b E (MessageArrival t3 m3) s2 = (Err (SyncError (retries_text 3)), s3)"
    "r \<notin> tracked (nm_sync s3)"
    using late_answer_handled [OF 2(3,2) lim(1) assms(5) [of m3] ex [of t3] add(3), of E]
    by (auto simp: lim(2))
  have "retries_text 3 = ''Request failed after 3 retries''" by code_simp
  with 3 show ?thesis
    by (intro exI [of _ s3])
      (simp only: event_loop_Cons_Ok [OF 1(1)] event_loop_Cons_Ok [OF 2(1)] event_loop_Cons_Err [OF 3(1)]
        simp_thms)
qed

section \<open>Witnesses\<close>

definition sample_config :: network_config where
  "sample_config = \<lparr>listen_addr = ''127.0.0.1:0'', bootstrap_peers = [], nc_max_peers = 1,
     ping_interval = seconds 30, nc_sync_batch_size = 10, nc_consensus = consensus_config_default\<rparr>"

definition sample_network_env :: "(nat, unit, nat, string) network_env" where
  "sample_network_env =
     \<lparr>net_crypto = sample_env, open_swarm = (\<lambda>_. Ok ()), parse_addr = Some, dial = (\<lambda>_. ret ()),
      send_message = (\<lambda>_ _. ret ()),
      as_sync_request = (\<lambda>now r. \<lparr>sr_block_number = req_block_number r, sr_account = req_account r,
        sr_storage_keys = req_storage_keys r, sr_timestamp = now\<rparr>),
      as_sync_response = (\<lambda>r. \<lparr>sp_block_number = resp_block_number r, sp_account = resp_account r,
        sp_storage_keys = []\<rparr>)\<rparr>"

definition sample_node :: "(nat, unit) network_manager" where
  "sample_node =
     \<lparr>nm_swarm = (), nm_peers = Map.empty, nm_sync_config = state_sync_new 10,
      nm_sync = sync_state_new 0, nm_consensus = consensus_state_new 0, nm_config = sample_config\<rparr>"

lemma sample_node_new: "network_new sample_network_env 0 0 sample_config = Ok sample_node"
  by (simp add: network_new_def sample_network_env_def sample_node_def sample_config_def)

definition at :: "nat \<Rightarrow> nat readings" where
  "at now = \<lparr>clock1 = now, clock2 = now, clock3 = now, peer_order = [0]\<rparr>"

lemma at_sel [simp]: "clock1 (at t) = t" "clock2 (at t) = t" "clock3 (at t) = t" "peer_order (at t) = [0]"
  by (simp_all add: at_def)

definition connected_node :: "(nat, unit) network_manager" where
  "connected_node = snd (handle_peer_connected 5 5 0 sample_node)"

lemma connected_node_run:
  "handle_arrival Debug sample_network_env (connection (at 5, 0)) sample_node = (Ok (), connected_node)"
  by (simp add: connection_handled connected_node_def sample_node_def sample_config_def map_len_def)

lemma connected_node_reachable: "net_reachable Debug sample_network_env sample_config connected_node"
  by (rule net_arrival [OF net_new [OF sample_node_new] _ connected_node_run]) (simp add: connection_def)

theorem network_invariants_witness:
  "dom (pending_requests (nm_sync connected_node)) = {0} \<and> map_len (nm_peers connected_node) \<le> 1"
  using network_invariants [OF connected_node_reachable]
  by (auto simp: sample_config_def connected_node_def connected_state sample_node_def map_len_def)

theorem network_never_finalises_witness:
  "finalized_blocks (nm_consensus connected_node) = Map.empty"
  using network_never_finalises [OF connected_node_reachable] by simp

theorem connection_limit_stops_node_witness:
  "fst (event_loop Debug sample_network_env [connection (at 5, 0), connection (at 6, 1)] sample_node) =
     Err (PeerError ''Max peers reached'')"
proof -
  have "distinct (map snd [(at 5, 0 :: nat)])" "length [(at 5, 0 :: nat)] = unat (nc_max_peers sample_config)"
    by (simp_all add: sample_config_def)
  from connection_limit_stops_node [OF sample_node_new this] obtain s' where
    "\<forall>t p rest. event_loop Debug sample_network_env
       (map connection [(at 5, 0)] @ connection (t, p) # rest) sample_node =
       (Err (PeerError ''Max peers reached''), s')"
    by blast
  from this [rule_format, of "at 6" 1 "[]"] show ?thesis by simp
qed

definition sample_state_answer :: message where
  "sample_state_answer =
     message_new 0 (StateResponseMsg \<lparr>resp_block_number = 1, resp_account = ''test'',
       resp_storage = Map.empty, resp_proof = \<lparr>account_proof = [], storage_proofs = []\<rparr>\<rparr>) ''peer''"

definition sample_state_request :: message where
  "sample_state_request =
     message_new 0 (StateRequestMsg \<lparr>req_block_number = 1, req_account = ''test'',
       req_storage_keys = []\<rparr>) ''peer''"

definition asked_node :: "(nat, unit) network_manager" where
  "asked_node = connected_node\<lparr>nm_sync := sample_sync\<rparr>"

lemma asked_node_run:
  "handle_arrival Debug sample_network_env (MessageArrival (at 5) sample_state_request) connected_node =
     (Ok (), asked_node)"
proof -
  have "as_sync_request sample_network_env 5 \<lparr>req_block_number = 1, req_account = ''test'',
      req_storage_keys = []\<rparr> = sample_request 5"
    by (simp add: sample_network_env_def sample_request_def)
  moreover have "nm_sync connected_node = snd (start_sync 5 0 (sync_state_new 0))"
    "nm_sync_config connected_node = state_sync_new 10"
    by (simp_all add: connected_node_def connected_state sample_node_def map_len_def sample_config_def)
  ultimately show ?thesis
    using sample_started
    by (simp add: handle_arrival_def handle_message_def sample_state_request_def message_new_def
        on_sync_apply asked_node_def)
qed

theorem late_answers_stop_node_witness:
  "fst (event_loop Debug sample_network_env
     [connection (at 5, 0), MessageArrival (at 5) sample_state_request,
      MessageArrival (at (seconds 31)) sample_state_answer, MessageArrival (at (seconds 31)) sample_state_answer,
      MessageArrival (at (seconds 31)) sample_state_answer] sample_node) =
   Err (SyncError ''Request failed after 3 retries'')"
proof -
  have "nm_sync_config asked_node = state_sync_new 10"
    by (simp add: asked_node_def connected_node_def sample_node_def)
  moreover have "sole_request 0 (sample_request 5) 0 (nm_sync asked_node)"
    by (simp add: sole_request_def sample_sync_def retry_count_def asked_node_def)
  moreover have "peer_order t = [0] \<and> sr_timestamp (sample_request 5) + seconds 30 < clock1 t \<and> clock1 t \<le> clock3 t"
    if "t \<in> {at (seconds 31), at (seconds 31), at (seconds 31)}" for t
    using that by (auto simp: sample_request_def seconds_def)
  moreover have "is_state_answer m"
    if "m \<in> {sample_state_answer, sample_state_answer, sample_state_answer}" for m
    using that by (auto simp: is_state_answer_def sample_state_answer_def message_new_def)
  moreover have "0 < unat (10 :: usize)" by simp
  ultimately obtain s' where run: "\<forall>rest. event_loop Debug sample_network_env
      (MessageArrival (at (seconds 31)) sample_state_answer # MessageArrival (at (seconds 31)) sample_state_answer #
       MessageArrival (at (seconds 31)) sample_state_answer # rest) asked_node =
      (Err (SyncError ''Request failed after 3 retries''), s')"
    using late_answers_stop_node [of asked_node 10 0 "sample_request 5" "at (seconds 31)" "at (seconds 31)"
        "at (seconds 31)" sample_state_answer sample_state_answer sample_state_answer Debug sample_network_env]
    by blast
  show ?thesis
    by (simp only: event_loop_Cons_Ok [OF connected_node_run] event_loop_Cons_Ok [OF asked_node_run]
        run [rule_format] fst_conv)
qed

end
