(* ===== verification/Node_Composition.thy ===== *)
theory Node_Composition
  imports Network_Properties
begin

text \<open>
  A node as the composition of its parts (\<open>src/network/mod.rs\<close>): the event loop interleaves a run of the
  consensus engine on the blocks and transactions that arrive with a run of the rest of the node on the
  connections and state messages. The two share no state, so only the order within each of them matters.
\<close>

section \<open>What an arrival is for\<close>

definition for_engine :: "'p arrival \<Rightarrow> bool" where
  "for_engine a =
     (case a of
        MessageArrival _ msg \<Rightarrow> (case msg_type msg of BlockMsg _ \<Rightarrow> True | TransactionMsg _ \<Rightarrow> True | _ \<Rightarrow> False)
      | SwarmArrival _ _ \<Rightarrow> False)"

definition for_sync :: "'p arrival \<Rightarrow> bool" where
  "for_sync a =
     (case a of
        MessageArrival _ msg \<Rightarrow>
          (case msg_type msg of StateRequestMsg _ \<Rightarrow> True | StateResponseMsg _ \<Rightarrow> True | _ \<Rightarrow> False)
      | SwarmArrival _ ev \<Rightarrow>
          (case ev of ConnectionEstablished _ \<Rightarrow> True | ConnectionClosed _ \<Rightarrow> True | _ \<Rightarrow> False))"

text \<open>The engine alone, on the arrivals for it.\<close>

definition engine_step :: "'k crypto_env \<Rightarrow> 'p arrival \<Rightarrow> unit consensus" where
  "engine_step C a =
     (case a of
        MessageArrival _ msg \<Rightarrow>
          (case msg_type msg of
             BlockMsg blk \<Rightarrow> process_block C blk
           | TransactionMsg tx \<Rightarrow> process_transaction tx
           | _ \<Rightarrow> ret ())
      | SwarmArrival _ _ \<Rightarrow> ret ())"

fun engine_run :: "'k crypto_env \<Rightarrow> 'p arrival list \<Rightarrow> unit consensus" where
  "engine_run C [] = ret ()"
| "engine_run C (a # as) = andthen (engine_step C a) (\<lambda>_. engine_run C as)"

section \<open>Frames\<close>

lemma on_consensus_apply:
  "on_consensus m s = (fst (m (nm_consensus s)), s\<lparr>nm_consensus := snd (m (nm_consensus s))\<rparr>)"
  by (simp add: on_consensus_def zoom_def split: prod.split)

text \<open>What is not for the rest of the node runs on the engine alone.\<close>

lemma engine_arrival:
  assumes "\<not> for_sync a"
  shows "handle_arrival b E a s = on_consensus (engine_step (net_crypto E) a) s"
  using assms
  by (cases a) (auto simp: for_sync_def handle_arrival_def engine_step_def handle_message_def
      handle_swarm_event_def on_consensus_apply split: message_type.splits swarm_event.splits)

lemma engine_idle:
  assumes "\<not> for_engine a"
  shows "engine_step C a = ret ()"
  using assms
  by (cases a) (auto simp: for_engine_def engine_step_def split: message_type.splits)

lemma disjoint_purposes: "for_sync a \<Longrightarrow> \<not> for_engine a"
  by (auto simp: for_sync_def for_engine_def split: arrival.splits message_type.splits)

text \<open>What is for the rest of the node neither reads nor writes the engine.\<close>

definition frames_engine :: "('p, 'w, 'a) network \<Rightarrow> bool" where
  "frames_engine m \<longleftrightarrow>
     (\<forall>s c. m (s\<lparr>nm_consensus := c\<rparr>) = (fst (m s), (snd (m s))\<lparr>nm_consensus := c\<rparr>))"

lemma framesD:
  "frames_engine m \<Longrightarrow> m (s\<lparr>nm_consensus := c\<rparr>) = (fst (m s), (snd (m s))\<lparr>nm_consensus := c\<rparr>)"
  by (simp add: frames_engine_def)

lemma frames_keep:
  assumes "frames_engine m"
  shows "nm_consensus (snd (m s)) = nm_consensus s"
  using framesD [OF assms, where s = s and c = "nm_consensus s"]
  by (cases "m s") (auto dest: arg_cong [where f = nm_consensus])

lemma sync_arrival: "for_sync a \<Longrightarrow> frames_engine (handle_arrival b E a)"
  by (cases a)
    (auto simp: frames_engine_def for_sync_def handle_arrival_def handle_message_def handle_swarm_event_def
      handle_peer_connected_def handle_peer_disconnected_def on_sync_apply andthen_def guard_err_def
      split: message_type.splits swarm_event.splits outcome.split prod.split)

lemma frames_loop: "list_all for_sync as \<Longrightarrow> frames_engine (event_loop b E as)"
proof (induction as)
  case (Cons a as)
  then have "frames_engine (handle_arrival b E a)" "frames_engine (event_loop b E as)"
    by (simp_all add: sync_arrival)
  then show ?case
    by (auto simp: frames_engine_def andthen_def split: prod.split outcome.split)
qed (simp add: frames_engine_def)

section \<open>The loop as an interleaving\<close>

lemma loop_interleaves:
  "event_loop b E as s = (Ok (), t) \<longleftrightarrow>
     (\<exists>c u. engine_run (net_crypto E) (filter for_engine as) (nm_consensus s) = (Ok (), c) \<and>
            event_loop b E (filter for_sync as) s = (Ok (), u) \<and> t = u\<lparr>nm_consensus := c\<rparr>)"
proof (induction as arbitrary: s)
  case Nil
  show ?case by auto
next
  case (Cons a as)
  have frames: "frames_engine (event_loop b E (filter for_sync as))"
    by (rule frames_loop) (simp add: list_all_iff)
  show ?case
  proof (cases "for_sync a")
    case True
    then show ?thesis
      using frames_keep [OF sync_arrival [OF True], of b E s]
      by (cases "handle_arrival b E a s" rule: prod.exhaust; cases "fst (handle_arrival b E a s)")
        (auto simp: andthen_def disjoint_purposes Cons.IH)
  next
    case False
    show ?thesis
    proof (cases "for_engine a")
      case True
      then show ?thesis
        by (cases "fst (engine_step (net_crypto E) a (nm_consensus s))";
            cases "engine_step (net_crypto E) a (nm_consensus s)" rule: prod.exhaust;
            cases "event_loop b E (filter for_sync as) s" rule: prod.exhaust)
          (auto simp: andthen_def False engine_arrival [OF False] on_consensus_apply Cons.IH
            framesD [OF frames])
    next
      case no: False
      then show ?thesis
        by (simp add: andthen_def False engine_arrival [OF False] engine_idle [OF no] on_consensus_apply
          Cons.IH ret_def)
    qed
  qed
qed

text \<open>C20: A node runs its consensus engine and the rest of itself independently. When the event loop
  returns without an error, its engine is where the engine alone gets on the blocks and transactions among
  the arrivals, and any other interleaving of the same blocks and transactions, in their order, with the same
  connections and state messages, in theirs, and with any arrivals that the node ignores, returns with the
  same node.\<close>

theorem arrivals_commute:
  assumes "event_loop b E as s = (Ok (), t)"
    and "filter for_engine as' = filter for_engine as" and "filter for_sync as' = filter for_sync as"
  shows "event_loop b E as' s = (Ok (), t) \<and>
    engine_run (net_crypto E) (filter for_engine as) (nm_consensus s) = (Ok (), nm_consensus t)"
  using assms(1) unfolding loop_interleaves [where as = as'] assms(2, 3)
  unfolding loop_interleaves [where as = as] by auto

text \<open>A connection and a transaction in either order, with a ping between them.\<close>

definition transaction_arrival :: "nat arrival" where
  "transaction_arrival = MessageArrival (at 6) (message_new 0 (TransactionMsg sample_tx) ''peer'')"

definition ping_arrival :: "nat arrival" where
  "ping_arrival = MessageArrival (at 7) (message_new 0 Ping ''peer'')"

lemma purposes [simp]:
  "for_engine transaction_arrival" "\<not> for_sync transaction_arrival"
  "\<not> for_engine ping_arrival" "\<not> for_sync ping_arrival"
  "for_sync (connection tp)" "\<not> for_engine (connection tp)"
  by (simp_all add: for_engine_def for_sync_def transaction_arrival_def ping_arrival_def message_new_def
      connection_def split: prod.split)

lemma transaction_after_connection:
  "event_loop Debug sample_network_env [connection (at 5, 0), transaction_arrival] sample_node =
     (Ok (), connected_node\<lparr>nm_consensus := (nm_consensus connected_node)\<lparr>pending_transactions := [sample_tx]\<rparr>\<rparr>)"
proof -
  have "handle_arrival Debug sample_network_env transaction_arrival connected_node =
      on_consensus (process_transaction sample_tx) connected_node"
    by (simp add: transaction_arrival_def handle_arrival_def handle_message_def message_new_def)
  also have "\<dots> = (Ok (), connected_node\<lparr>nm_consensus :=
      (nm_consensus connected_node)\<lparr>pending_transactions := [sample_tx]\<rparr>\<rparr>)"
    by (simp add: on_consensus_apply process_transaction_def validate_transaction_def connected_node_def
        connected_state sample_node_def consensus_state_new_def)
  finally show ?thesis
    by (simp add: andthen_def connected_node_run)
qed

theorem arrivals_commute_witness:
  "event_loop Debug sample_network_env [transaction_arrival, ping_arrival, connection (at 5, 0)] sample_node =
     (Ok (), connected_node\<lparr>nm_consensus := (nm_consensus connected_node)\<lparr>pending_transactions := [sample_tx]\<rparr>\<rparr>)"
  by (rule arrivals_commute [OF transaction_after_connection, THEN conjunct1]) simp_all

end
