(* ===== verification/Trie.thy ===== *)
theory Trie
  imports Messages
begin

text \<open>
  Model of \<open>src/state/trie.rs\<close>: a Merkle Patricia trie as a database and the hash of its root. The
  database and the tries on it (\<open>patricia_trie\<close>) are a library, the fields of \<open>trie_lib\<close>; its errors
  are the texts they print as. A handle \<open>'h\<close> is a trie opened at a root. An insertion or removal
  opens the database without naming a root, changes it and answers the new root.
\<close>

section \<open>Model\<close>

datatype trie_error = DatabaseError string | InvalidNode string | InvalidProof string

record ('db, 'h) trie_lib =
  empty_db :: 'db
  open_at :: "'db \<Rightarrow> digest \<Rightarrow> (string, 'h) outcome"
  look_up :: "'h \<Rightarrow> u8 list \<Rightarrow> (string, u8 list option) outcome"
  make_proof :: "'h \<Rightarrow> u8 list \<Rightarrow> (string, u8 list list) outcome"
  check_path :: "'h \<Rightarrow> u8 list \<Rightarrow> u8 list list \<Rightarrow> (string, bool) outcome"
  entries_at :: "'h \<Rightarrow> (string, u8 list \<times> u8 list) outcome list"
  db_insert :: "u8 list \<Rightarrow> u8 list \<Rightarrow> ('db, string, digest) comp"
  db_remove :: "u8 list \<Rightarrow> ('db, string, bool \<times> digest) comp"

record 'db merkle_trie =
  trie_db :: 'db
  trie_root :: "digest option"

definition trie_new :: "('db, 'h) trie_lib \<Rightarrow> 'db merkle_trie" where
  "trie_new L = \<lparr>trie_db = empty_db L, trie_root = None\<rparr>"

definition trie_from_root :: "('db, 'h) trie_lib \<Rightarrow> digest \<Rightarrow> (trie_error, 'db merkle_trie) outcome" where
  "trie_from_root L r = Ok ((trie_new L)\<lparr>trie_root := Some r\<rparr>)"

definition open_root :: "('db, 'h) trie_lib \<Rightarrow> 'db merkle_trie \<Rightarrow> digest \<Rightarrow> (trie_error, 'h) outcome" where
  "open_root L t r = map_err DatabaseError (open_at L (trie_db t) r)"

definition trie_get ::
  "('db, 'h) trie_lib \<Rightarrow> u8 list \<Rightarrow> 'db merkle_trie \<Rightarrow> (trie_error, u8 list option) outcome" where
  "trie_get L k t =
     (case trie_root t of
        Some r \<Rightarrow> bind_outcome (open_root L t r) (\<lambda>h. map_err DatabaseError (look_up L h k))
      | None \<Rightarrow> Ok None)"

definition trie_insert ::
  "('db, 'h) trie_lib \<Rightarrow> u8 list \<Rightarrow> u8 list \<Rightarrow> ('db merkle_trie, trie_error, unit) comp" where
  "trie_insert L k v =
     andthen (zoom trie_db (\<lambda>d t. t\<lparr>trie_db := d\<rparr>) (mapping_err DatabaseError (db_insert L k v))) (\<lambda>r.
     updates (\<lambda>t. t\<lparr>trie_root := Some r\<rparr>))"

definition trie_delete ::
  "('db, 'h) trie_lib \<Rightarrow> u8 list \<Rightarrow> ('db merkle_trie, trie_error, bool) comp" where
  "trie_delete L k =
     andthen (zoom trie_db (\<lambda>d t. t\<lparr>trie_db := d\<rparr>) (mapping_err DatabaseError (db_remove L k))) (\<lambda>(x, r).
     andthen (updates (\<lambda>t. t\<lparr>trie_root := Some r\<rparr>)) (\<lambda>_. ret x))"

definition root_hash :: "'db merkle_trie \<Rightarrow> (trie_error, digest) outcome" where
  "root_hash t = (case trie_root t of None \<Rightarrow> Err (InvalidNode ''No root hash'') | Some r \<Rightarrow> Ok r)"

definition trie_proof ::
  "('db, 'h) trie_lib \<Rightarrow> u8 list \<Rightarrow> 'db merkle_trie \<Rightarrow> (trie_error, u8 list list) outcome" where
  "trie_proof L k t =
     (case trie_root t of
        Some r \<Rightarrow> bind_outcome (open_root L t r) (\<lambda>h. map_err DatabaseError (make_proof L h k))
      | None \<Rightarrow> Ok [])"

definition trie_verify ::
  "('db, 'h) trie_lib \<Rightarrow> u8 list \<Rightarrow> u8 list list \<Rightarrow> 'db merkle_trie \<Rightarrow> (trie_error, bool) outcome" where
  "trie_verify L k pf t =
     (case trie_root t of
        Some r \<Rightarrow> bind_outcome (open_root L t r) (\<lambda>h. map_err InvalidProof (check_path L h k pf))
      | None \<Rightarrow> Ok False)"

definition trie_iter ::
  "('db, 'h) trie_lib \<Rightarrow> 'db merkle_trie \<Rightarrow> (trie_error, (trie_error, u8 list \<times> u8 list) outcome list) outcome"
where
  "trie_iter L t =
     (case trie_root t of
        Some r \<Rightarrow> bind_outcome (open_root L t r) (\<lambda>h. Ok (map (map_err DatabaseError) (entries_at L h)))
      | None \<Rightarrow> Ok [])"

section \<open>Tries without a root\<close>

lemma trie_new_root [simp]: "trie_root (trie_new L) = None"
  by (simp add: trie_new_def)

lemma unrooted [simp]:
  assumes "trie_root t = None"
  shows "trie_get L k t = Ok None" "root_hash t = Err (InvalidNode ''No root hash'')"
    "trie_proof L k t = Ok []" "trie_verify L k pf t = Ok False" "trie_iter L t = Ok []"
  using assms by (simp_all add: trie_get_def root_hash_def trie_proof_def trie_verify_def trie_iter_def)

lemma insert_wp:
  "wp (trie_insert L k v) Q E F t =
     wp (db_insert L k v) (\<lambda>r d. Q () (t\<lparr>trie_db := d, trie_root := Some r\<rparr>))
       (\<lambda>e d. E (DatabaseError e) (t\<lparr>trie_db := d\<rparr>)) (\<lambda>p d. F p (t\<lparr>trie_db := d\<rparr>)) (trie_db t)"
  by (auto simp: trie_insert_def mapping_err_def zoom_def wp_def andthen_def split: prod.split outcome.split)

end
