(* ===== verification/State_Manager.thy ===== *)
theory State_Manager
  imports Trie Blocking
begin

text \<open>
  Model of \<open>src/state/mod.rs\<close>, which ends in the middle of \<open>get_accounts_in_range\<close>: accounts in a
  trie with caches in front, updates, snapshots and proofs. The modules for storage, snapshots,
  circuit and witness are not in the repository; what the code calls of them are fields of
  \<open>state_env\<close>, as is the serialisation of accounts. Metrics have no effect here. The concurrent
  updates of \<open>update_state\<close> share one exclusive reference to the trie; the model runs them one after
  the other, in the order in which they finish.
\<close>

section \<open>Model\<close>

datatype state_error =
    TrieErr trie_error
  | StorageError string
  | InvalidState string
  | ConcurrencyError string
  | ProofVerificationError string
  | SnapshotError string
  | CircuitError string
  | WitnessError string
  | VerificationError string

type_synonym u128 = "128 word"
type_synonym token_id = nat

record account =
  acc_nonce :: u32
  acc_balance :: "token_id \<rightharpoonup> u128"
  pub_key_hash :: "u8 list"
  storage_root :: digest
  acc_code_hash :: digest
  last_modified_block :: u32

record account_update =
  up_nonce :: "u32 option"
  up_balance :: "token_id \<rightharpoonup> u128"
  up_pub_key_hash :: "u8 list option"
  up_storage :: "digest \<rightharpoonup> u8 list"
  up_code :: "u8 list option"
  up_metadata :: "string \<rightharpoonup> u8 list"

record 'ad state_update =
  su_block_number :: u32
  su_accounts :: "'ad \<rightharpoonup> account_update"
  su_timestamp :: u64
  su_metadata :: "string \<rightharpoonup> u8 list"
  zk_proof :: "u8 list option"

record ('ad, 'db, 'st, 'sn) state_manager =
  sm_trie :: "'db merkle_trie"
  sm_storage :: 'st
  sm_snapshots :: 'sn
  cached_accounts :: "'ad \<rightharpoonup> account \<times> u32"
  cached_storage :: "'ad \<times> digest \<rightharpoonup> u8 list \<times> u32"
  cached_code :: "digest \<rightharpoonup> u8 list"
  pending_updates :: "'ad \<rightharpoonup> account_update"

record ('ad, 'db, 'h, 'st, 'sn, 'sp, 'wit) state_env =
  st_lib :: "('db, 'h) trie_lib"
  address_bytes :: "'ad \<Rightarrow> u8 list"
  ser_account :: "account \<Rightarrow> u8 list option"
  de_account :: "u8 list \<Rightarrow> account option"
  no_key_hash :: "u8 list"
  no_hash :: digest
  code_digest :: "u8 list \<Rightarrow> digest"
  storage_get :: "'ad \<Rightarrow> digest \<Rightarrow> digest \<Rightarrow> ('st, state_error, u8 list option) comp"
  storage_code :: "digest \<Rightarrow> ('st, state_error, u8 list option) comp"
  storage_update :: "'ad \<Rightarrow> (digest \<rightharpoonup> u8 list) \<Rightarrow> digest \<Rightarrow> ('st, state_error, digest) comp"
  storage_put_code :: "digest \<Rightarrow> u8 list \<Rightarrow> ('st, state_error, unit) comp"
  storage_prove :: "'ad \<Rightarrow> digest \<Rightarrow> digest \<Rightarrow> ('st, state_error, 'sp) comp"
  storage_check :: "'st \<Rightarrow> 'ad \<Rightarrow> digest \<Rightarrow> 'sp \<Rightarrow> digest \<Rightarrow> (state_error, bool) outcome"
  make_witness :: "'db merkle_trie \<Rightarrow> u32 \<Rightarrow> (state_error, 'wit) outcome"
  circuit_proof :: "'wit \<Rightarrow> (state_error, u8 list) outcome"
  snapshot_create :: "u32 \<Rightarrow> digest \<Rightarrow> u64 \<Rightarrow> u8 list option \<Rightarrow> ('sn, state_error, unit) comp"
  snapshot_root :: "u32 \<Rightarrow> ('sn, state_error, digest) comp"
  snapshot_latest :: "('sn, state_error, u32) comp"

type_synonym ('ad, 'db, 'st, 'sn, 'a) st_comp = "(('ad, 'db, 'st, 'sn) state_manager, state_error, 'a) comp"
type_synonym ('ad, 'db, 'st, 'sn, 'a) st_call = "(('ad, 'db, 'st, 'sn) state_manager, state_error, 'a) blocking"

definition state_manager_new ::
  "('ad, 'db, 'h, 'st, 'sn, 'sp, 'wit) state_env \<Rightarrow> 'st \<Rightarrow> 'sn \<Rightarrow> ('ad, 'db, 'st, 'sn) state_manager"
where
  "state_manager_new E st sn =
     \<lparr>sm_trie = trie_new (st_lib E), sm_storage = st, sm_snapshots = sn, cached_accounts = Map.empty,
      cached_storage = Map.empty, cached_code = Map.empty, pending_updates = Map.empty\<rparr>"

definition on_storage :: "('st, state_error, 'a) comp \<Rightarrow> ('ad, 'db, 'st, 'sn, 'a) st_comp" where
  "on_storage = zoom sm_storage (\<lambda>t s. s\<lparr>sm_storage := t\<rparr>)"

definition on_snapshots :: "('sn, state_error, 'a) comp \<Rightarrow> ('ad, 'db, 'st, 'sn, 'a) st_comp" where
  "on_snapshots = zoom sm_snapshots (\<lambda>t s. s\<lparr>sm_snapshots := t\<rparr>)"

text \<open>\<open>?\<close> on a read of the trie.\<close>

definition from_trie ::
  "('db merkle_trie \<Rightarrow> (trie_error, 'a) outcome) \<Rightarrow> ('ad, 'db, 'st, 'sn, 'a) st_comp" where
  "from_trie f = andthen (reads (\<lambda>s. map_err TrieErr (f (sm_trie s)))) lift_outcome"

subsection \<open>Reading\<close>

definition cache_hit :: "u32 \<Rightarrow> ('v \<times> u32) option \<Rightarrow> 'v option" where
  "cache_hit blk x = (case x of Some (v, seen) \<Rightarrow> if blk \<le> seen then Some v else None | None \<Rightarrow> None)"

definition parse_account ::
  "('ad, 'db, 'h, 'st, 'sn, 'sp, 'wit) state_env \<Rightarrow> u8 list \<Rightarrow> (state_error, account) outcome" where
  "parse_account E bs =
     (case de_account E bs of
        None \<Rightarrow> Err (InvalidState ''Failed to deserialize account'')
      | Some acc \<Rightarrow> Ok acc)"

definition load_account ::
  "('ad, 'db, 'h, 'st, 'sn, 'sp, 'wit) state_env \<Rightarrow> 'ad \<Rightarrow> u32 \<Rightarrow> ('ad, 'db, 'st, 'sn, account option) st_comp"
where
  "load_account E a blk =
     andthen (from_trie (trie_get (st_lib E) (address_bytes E a))) (\<lambda>x.
     case x of
       None \<Rightarrow> ret None
     | Some bs \<Rightarrow>
         andthen (lift_outcome (parse_account E bs)) (\<lambda>acc.
         andthen (updates (\<lambda>s. s\<lparr>cached_accounts := (cached_accounts s)(a \<mapsto> (acc, blk))\<rparr>)) (\<lambda>_.
         ret (Some acc))))"

text \<open>A miss locks the trie for reading; \<open>g\<close> is the guard on it that the caller holds.\<close>

definition get_account ::
  "guard \<Rightarrow> ('ad, 'db, 'h, 'st, 'sn, 'sp, 'wit) state_env \<Rightarrow> 'ad \<Rightarrow> u32 \<Rightarrow>
   ('ad, 'db, 'st, 'sn, account option) st_call" where
  "get_account g E a blk =
     chain (runs (reads (\<lambda>s. cache_hit blk (cached_accounts s a)))) (\<lambda>hit.
     case hit of
       Some acc \<Rightarrow> runs (ret (Some acc))
     | None \<Rightarrow> chain (lock_read g) (\<lambda>_. runs (load_account E a blk)))"

definition load_storage ::
  "('ad, 'db, 'h, 'st, 'sn, 'sp, 'wit) state_env \<Rightarrow> 'ad \<Rightarrow> digest \<Rightarrow> u32 \<Rightarrow> account \<Rightarrow>
   ('ad, 'db, 'st, 'sn, u8 list option) st_comp" where
  "load_storage E a key blk acc =
     andthen (on_storage (storage_get E a key (storage_root acc))) (\<lambda>x.
     andthen (case x of
         None \<Rightarrow> ret ()
       | Some v \<Rightarrow> updates (\<lambda>s. s\<lparr>cached_storage := (cached_storage s)((a, key) \<mapsto> (v, blk))\<rparr>)) (\<lambda>_.
     ret x))"

definition get_storage ::
  "('ad, 'db, 'h, 'st, 'sn, 'sp, 'wit) state_env \<Rightarrow> 'ad \<Rightarrow> digest \<Rightarrow> u32 \<Rightarrow>
   ('ad, 'db, 'st, 'sn, u8 list option) st_call" where
  "get_storage E a key blk =
     chain (runs (reads (\<lambda>s. cache_hit blk (cached_storage s (a, key))))) (\<lambda>hit.
     case hit of
       Some v \<Rightarrow> runs (ret (Some v))
     | None \<Rightarrow>
         chain (get_account NoGuard E a blk) (\<lambda>x.
         case x of
           None \<Rightarrow> runs (ret None)
         | Some acc \<Rightarrow> runs (load_storage E a key blk acc)))"

definition get_code ::
  "('ad, 'db, 'h, 'st, 'sn, 'sp, 'wit) state_env \<Rightarrow> digest \<Rightarrow> ('ad, 'db, 'st, 'sn, u8 list option) st_comp"
where
  "get_code E h =
     andthen (reads (\<lambda>s. cached_code s h)) (\<lambda>hit.
     case hit of
       Some code \<Rightarrow> ret (Some code)
     | None \<Rightarrow>
         andthen (on_storage (storage_code E h)) (\<lambda>x.
         andthen (case x of
             None \<Rightarrow> ret ()
           | Some code \<Rightarrow> updates (\<lambda>s. s\<lparr>cached_code := (cached_code s)(h \<mapsto> code)\<rparr>)) (\<lambda>_.
         ret x)))"

subsection \<open>Updating\<close>

definition account_default :: "('ad, 'db, 'h, 'st, 'sn, 'sp, 'wit) state_env \<Rightarrow> u32 \<Rightarrow> account" where
  "account_default E blk =
     \<lparr>acc_nonce = 0, acc_balance = Map.empty, pub_key_hash = no_key_hash E, storage_root = no_hash E,
      acc_code_hash = no_hash E, last_modified_block = blk\<rparr>"

definition apply_fields :: "account_update \<Rightarrow> account \<Rightarrow> account" where
  "apply_fields u acc =
     (let acc = (case up_nonce u of Some n \<Rightarrow> acc\<lparr>acc_nonce := n\<rparr> | None \<Rightarrow> acc);
          acc = acc\<lparr>acc_balance := acc_balance acc ++ up_balance u\<rparr>
      in case up_pub_key_hash u of Some h \<Rightarrow> acc\<lparr>pub_key_hash := h\<rparr> | None \<Rightarrow> acc)"

definition write_storage ::
  "('ad, 'db, 'h, 'st, 'sn, 'sp, 'wit) state_env \<Rightarrow> 'ad \<Rightarrow> account_update \<Rightarrow> account \<Rightarrow>
   ('ad, 'db, 'st, 'sn, account) st_comp" where
  "write_storage E a u acc =
     (if up_storage u \<noteq> Map.empty
      then andthen (on_storage (storage_update E a (up_storage u) (storage_root acc))) (\<lambda>r.
           ret (acc\<lparr>storage_root := r\<rparr>))
      else ret acc)"

definition write_code ::
  "('ad, 'db, 'h, 'st, 'sn, 'sp, 'wit) state_env \<Rightarrow> account_update \<Rightarrow> account \<Rightarrow>
   ('ad, 'db, 'st, 'sn, account) st_comp" where
  "write_code E u acc =
     (case up_code u of
        None \<Rightarrow> ret acc
      | Some code \<Rightarrow>
          (let h = code_digest E code in
           andthen (on_storage (storage_put_code E h code)) (\<lambda>_. ret (acc\<lparr>acc_code_hash := h\<rparr>))))"

definition store_account ::
  "('ad, 'db, 'h, 'st, 'sn, 'sp, 'wit) state_env \<Rightarrow> 'ad \<Rightarrow> u32 \<Rightarrow> account \<Rightarrow>
   ('ad, 'db, 'st, 'sn, unit) st_comp" where
  "store_account E a blk acc =
     andthen (ok_or (InvalidState ''Failed to serialize account'') (ser_account E acc)) (\<lambda>bs.
     andthen (zoom sm_trie (\<lambda>t s. s\<lparr>sm_trie := t\<rparr>)
       (mapping_err TrieErr (trie_insert (st_lib E) (address_bytes E a) bs))) (\<lambda>_.
     updates (\<lambda>s. s\<lparr>cached_accounts := (cached_accounts s)(a \<mapsto> (acc, blk))\<rparr>)))"

definition write_account ::
  "('ad, 'db, 'h, 'st, 'sn, 'sp, 'wit) state_env \<Rightarrow> 'ad \<Rightarrow> account_update \<Rightarrow> u32 \<Rightarrow> account option \<Rightarrow>
   ('ad, 'db, 'st, 'sn, unit) st_comp" where
  "write_account E a u blk x =
     (let acc = apply_fields u (case x of Some acc \<Rightarrow> acc | None \<Rightarrow> account_default E blk) in
      andthen (write_storage E a u acc) (\<lambda>acc.
      andthen (write_code E u acc) (\<lambda>acc.
      store_account E a blk (acc\<lparr>last_modified_block := blk\<rparr>))))"

text \<open>Called with the write guard of \<open>update_state\<close> held.\<close>

definition update_account ::
  "('ad, 'db, 'h, 'st, 'sn, 'sp, 'wit) state_env \<Rightarrow> u32 \<Rightarrow> 'ad \<times> account_update \<Rightarrow>
   ('ad, 'db, 'st, 'sn, unit) st_call" where
  "update_account E blk x =
     chain (get_account WriteGuard E (fst x) blk) (\<lambda>acc.
     runs (write_account E (fst x) (snd x) blk acc))"

text \<open>All updates are run before the first error, in the order of finishing, is returned.\<close>

fun update_accounts ::
  "('ad, 'db, 'h, 'st, 'sn, 'sp, 'wit) state_env \<Rightarrow> u32 \<Rightarrow> ('ad \<times> account_update) list \<Rightarrow>
   ('ad, 'db, 'st, 'sn, unit) st_call" where
  "update_accounts E blk [] s = Some (Ok (), s)"
| "update_accounts E blk (x # xs) s =
     (case update_account E blk x s of
        None \<Rightarrow> None
      | Some (Ok _, s') \<Rightarrow> update_accounts E blk xs s'
      | Some (Panic p, s') \<Rightarrow> Some (Panic p, s')
      | Some (Err e, s') \<Rightarrow>
          (case update_accounts E blk xs s' of
             None \<Rightarrow> None
           | Some (Panic p, s'') \<Rightarrow> Some (Panic p, s'')
           | Some (_, s'') \<Rightarrow> Some (Err e, s'')))"

definition seal_update ::
  "('ad, 'db, 'h, 'st, 'sn, 'sp, 'wit) state_env \<Rightarrow> 'ad state_update \<Rightarrow> ('ad, 'db, 'st, 'sn, digest) st_comp"
where
  "seal_update E u =
     andthen (reads (\<lambda>s. make_witness E (sm_trie s) (su_block_number u))) (\<lambda>x.
     andthen (lift_outcome x) (\<lambda>w.
     andthen (lift_outcome (circuit_proof E w)) (\<lambda>pf.
     andthen (from_trie root_hash) (\<lambda>r.
     andthen (on_snapshots (snapshot_create E (su_block_number u) r (su_timestamp u) (Some pf))) (\<lambda>_.
     from_trie root_hash)))))"

text \<open>\<open>ks\<close> is the order in which the updates finish.\<close>

definition update_state ::
  "('ad, 'db, 'h, 'st, 'sn, 'sp, 'wit) state_env \<Rightarrow> 'ad list \<Rightarrow> 'ad state_update \<Rightarrow>
   ('ad, 'db, 'st, 'sn, digest) st_call" where
  "update_state E ks u =
     chain (lock_write NoGuard) (\<lambda>_.
     chain (update_accounts E (su_block_number u)
       (List.map_filter (\<lambda>a. map_option (Pair a) (su_accounts u a)) ks)) (\<lambda>_.
     runs (seal_update E u)))"

subsection \<open>Snapshots and transactions\<close>

definition revert_to_snapshot ::
  "('ad, 'db, 'h, 'st, 'sn, 'sp, 'wit) state_env \<Rightarrow> u32 \<Rightarrow> ('ad, 'db, 'st, 'sn, unit) st_comp" where
  "revert_to_snapshot E blk =
     andthen (on_snapshots (snapshot_root E blk)) (\<lambda>r.
     andthen (lift_outcome (map_err TrieErr (trie_from_root (st_lib E) r))) (\<lambda>t.
     andthen (updates (\<lambda>s. s\<lparr>sm_trie := t\<rparr>)) (\<lambda>_.
     andthen (updates (\<lambda>s. s\<lparr>cached_accounts := Map.empty\<rparr>)) (\<lambda>_.
     andthen (updates (\<lambda>s. s\<lparr>cached_storage := Map.empty\<rparr>)) (\<lambda>_.
     updates (\<lambda>s. s\<lparr>cached_code := Map.empty\<rparr>))))))"

definition begin_transaction :: "('ad, 'db, 'st, 'sn, unit) st_comp" where
  "begin_transaction = updates (\<lambda>s. s\<lparr>pending_updates := Map.empty\<rparr>)"

definition rollback_transaction :: "('ad, 'db, 'st, 'sn, unit) st_comp" where
  "rollback_transaction = updates (\<lambda>s. s\<lparr>pending_updates := Map.empty\<rparr>)"

definition commit_transaction ::
  "('ad, 'db, 'h, 'st, 'sn, 'sp, 'wit) state_env \<Rightarrow> 'ad list \<Rightarrow> u64 \<Rightarrow> ('ad, 'db, 'st, 'sn, digest) st_call"
where
  "commit_transaction E ks now =
     chain (runs (on_snapshots (snapshot_latest E))) (\<lambda>blk.
     chain (runs (reads pending_updates)) (\<lambda>ups.
     chain (update_state E ks \<lparr>su_block_number = blk, su_accounts = ups, su_timestamp = now,
         su_metadata = Map.empty, zk_proof = None\<rparr>) (\<lambda>r.
     runs (andthen (updates (\<lambda>s. s\<lparr>pending_updates := Map.empty\<rparr>)) (\<lambda>_. ret r)))))"

subsection \<open>Proofs\<close>

text \<open>The storage proofs come in the order \<open>ks\<close> in which they are finished; the first error of all
  is returned after all have run.\<close>

fun prove_keys ::
  "('ad, 'db, 'h, 'st, 'sn, 'sp, 'wit) state_env \<Rightarrow> 'ad \<Rightarrow> digest \<Rightarrow> digest list \<Rightarrow>
   ('ad, 'db, 'st, 'sn, (state_error, 'sp) outcome list) st_comp" where
  "prove_keys E a root [] = ret []"
| "prove_keys E a root (k # ks) =
     andthen (attempt (on_storage (storage_prove E a k root))) (\<lambda>r.
     andthen (prove_keys E a root ks) (\<lambda>rs. ret (r # rs)))"

definition prove_storage ::
  "('ad, 'db, 'h, 'st, 'sn, 'sp, 'wit) state_env \<Rightarrow> 'ad \<Rightarrow> digest \<Rightarrow> digest list \<Rightarrow>
   ('ad, 'db, 'st, 'sn, 'sp list) st_comp" where
  "prove_storage E a root ks = andthen (prove_keys E a root ks) (\<lambda>rs. lift_outcome (collect_results rs))"

definition get_state_proof ::
  "('ad, 'db, 'h, 'st, 'sn, 'sp, 'wit) state_env \<Rightarrow> 'ad \<Rightarrow> digest list \<Rightarrow>
   ('ad, 'db, 'st, 'sn, u8 list list \<times> 'sp list) st_comp" where
  "get_state_proof E a ks =
     andthen (from_trie (trie_proof (st_lib E) (address_bytes E a))) (\<lambda>pf.
     andthen (from_trie (trie_get (st_lib E) (address_bytes E a))) (\<lambda>x.
     case x of
       None \<Rightarrow> ret (pf, [])
     | Some bs \<Rightarrow>
         andthen (lift_outcome (parse_account E bs)) (\<lambda>acc.
         andthen (prove_storage E a (storage_root acc) ks) (\<lambda>sps. ret (pf, sps)))))"

definition verify_state_proof ::
  "('ad, 'db, 'h, 'st, 'sn, 'sp, 'wit) state_env \<Rightarrow> 'ad \<Rightarrow> digest list \<Rightarrow> u8 list list \<times> 'sp list \<Rightarrow> digest \<Rightarrow>
   ('ad, 'db, 'st, 'sn) state_manager \<Rightarrow> (state_error, bool) outcome" where
  "verify_state_proof E a ks pf root s =
     bind_outcome (map_err TrieErr (trie_from_root (st_lib E) root)) (\<lambda>t.
     bind_outcome (map_err TrieErr (trie_verify (st_lib E) (address_bytes E a) (fst pf) t)) (\<lambda>valid.
     if \<not> valid then Ok False
     else
       bind_outcome (map_err TrieErr (trie_get (st_lib E) (address_bytes E a) t)) (\<lambda>x.
       case x of
         None \<Rightarrow> Ok True
       | Some bs \<Rightarrow>
           bind_outcome (parse_account E bs) (\<lambda>acc.
           bind_outcome (join_results (map (\<lambda>(k, p). storage_check E (sm_storage s) a k p (storage_root acc))
             (zip ks (snd pf)))) (\<lambda>rs. Ok (list_all (\<lambda>r. r) rs))))))"

text \<open>\<open>MerklePatriciaTrie\<close> has no \<open>get_size\<close>; it is an argument.\<close>

definition get_state_size ::
  "('db merkle_trie \<Rightarrow> usize) \<Rightarrow> ('ad, 'db, 'st, 'sn) state_manager \<Rightarrow> (state_error, usize) outcome" where
  "get_state_size get_size s = Ok (get_size (sm_trie s))"

end
