(* ===== verification/State_Properties.thy ===== *)
theory State_Properties
  imports State_Manager
begin

text \<open>
  Properties of the state manager: which updates block, what a manager can do at all before its first
  revert, what the cache and a revert do to later reads, and what the proof check leaves out.
\<close>

section \<open>Calls on parts of the manager\<close>

lemma from_trie_apply: "from_trie f s = (map_err TrieErr (f (sm_trie s)), s)"
  by (simp add: from_trie_def lift_outcome_def)

lemma andthen_outcome:
  "m s = (r, s) \<Longrightarrow> andthen m f s = (case r of Ok a \<Rightarrow> f a s | Err e \<Rightarrow> (Err e, s) | Panic p \<Rightarrow> (Panic p, s))"
  by (simp add: andthen_def)

lemma get_account_unfold:
  "get_account g E a blk s =
     (case cache_hit blk (cached_accounts s a) of
        Some acc \<Rightarrow> Some (Ok (Some acc), s)
      | None \<Rightarrow> if g = WriteGuard then None else Some (load_account E a blk s))"
  by (simp add: get_account_def lock_read_def split: option.split)

lemma get_account_mono: "guard_mono (\<lambda>g. get_account g E a blk)"
  by (auto simp: guard_mono_def get_account_unfold split: option.split)

lemma update_account_unfold:
  "update_account E blk x s =
     (case cache_hit blk (cached_accounts s (fst x)) of
        Some acc \<Rightarrow> Some (write_account E (fst x) (snd x) blk (Some acc) s)
      | None \<Rightarrow> None)"
  by (simp add: update_account_def chain_def get_account_unfold split: option.split)

lemma map_err_eq_Ok [simp]: "map_err g r = Ok a \<longleftrightarrow> r = Ok a"
  by (cases r) auto

lemma inserted_root: "trie_insert L k v t = (Ok (), t') \<Longrightarrow> trie_root t' \<noteq> None"
  by (auto simp: trie_insert_def comp_Ok_iffs)

text \<open>An update of one account leaves the cached entry of every other.\<close>

lemma write_keeps_cache:
  assumes "b \<noteq> a"
  shows "preserves (\<lambda>s. cached_accounts s a = c) (write_account E b u blk x)"
  unfolding write_account_def write_storage_def write_code_def store_account_def on_storage_def Let_def
  using assms by (auto intro!: preserving preserves_updates preserves_zoom split: option.split)

lemma uncached_update_blocks:
  assumes "x \<in> set xs" and "distinct (map fst xs)" and "cache_hit blk (cached_accounts s (fst x)) = None"
    and "update_accounts E blk xs s = Some (r, s')"
  shows "\<exists>p. r = Panic p"
  using assms
proof (induction xs arbitrary: s r s')
  case (Cons y xs)
  show ?case
  proof (cases "x = y")
    case True
    with Cons.prems show ?thesis by (simp add: update_account_unfold)
  next
    case False
    with Cons.prems(1,2) have x: "x \<in> set xs" "fst y \<noteq> fst x" by auto
    from Cons.prems(4) obtain acc where hit: "cache_hit blk (cached_accounts s (fst y)) = Some acc"
      by (cases "cache_hit blk (cached_accounts s (fst y))") (auto simp: update_account_unfold)
    obtain q t where w: "write_account E (fst y) (snd y) blk (Some acc) s = (q, t)" by fastforce
    have "cached_accounts t (fst x) = cached_accounts s (fst x)"
      by (rule preserves_state [OF write_keeps_cache [OF x(2)] refl w])
    with Cons.prems(2,3) x have IH: "update_accounts E blk xs t = Some (r, s') \<Longrightarrow> \<exists>p. r = Panic p" for r s'
      using Cons.IH [of t r s'] by simp
    from Cons.prems(4) hit w IH show ?thesis
      by (auto simp: update_account_unfold split: outcome.splits option.splits prod.splits)
  qed
qed simp

section \<open>A manager without a root\<close>

definition unrooted_manager :: "('ad, 'db, 'st, 'sn) state_manager \<Rightarrow> bool" where
  "unrooted_manager s \<longleftrightarrow> trie_root (sm_trie s) = None \<and> cached_accounts s = Map.empty \<and>
     cached_storage s = Map.empty \<and> pending_updates s = Map.empty"

lemma unrooted_load:
  "trie_root (sm_trie s) = None \<Longrightarrow> load_account E a blk s = (Ok None, s)"
  by (simp add: load_account_def andthen_outcome [of "from_trie f" for f, OF from_trie_apply])

lemma unrooted_get:
  "unrooted_manager s \<Longrightarrow> get_account g E a blk s = (if g = WriteGuard then None else Some (Ok None, s))"
  by (simp add: unrooted_manager_def get_account_unfold cache_hit_def unrooted_load)

lemma unrooted_seal:
  assumes "trie_root (sm_trie s) = None"
  shows "snd (seal_update E u s) = s \<and> (\<forall>h. fst (seal_update E u s) \<noteq> Ok h)"
proof -
  have "wp (seal_update E u) (\<lambda>_ _. False) (\<lambda>_ t. t = s) (\<lambda>_ t. t = s) s"
    using assms by (simp add: seal_update_def wp_simps from_trie_def split: outcome.split)
  then show ?thesis by (auto simp: wp_def split: prod.splits outcome.splits)
qed

lemma unrooted_update:
  assumes "unrooted_manager s" and "update_state E ks u s = Some (r, s')"
  shows "s' = s \<and> (\<forall>h. r \<noteq> Ok h) \<and> (\<forall>a \<in> set ks. su_accounts u a = None)"
proof -
  let ?xs = "List.map_filter (\<lambda>a. map_option (Pair a) (su_accounts u a)) ks"
  have "update_account E blk x s = None" for blk x
    using assms(1) by (simp add: update_account_unfold unrooted_manager_def cache_hit_def)
  then have "?xs = []" using assms(2) by (cases ?xs) (simp_all add: update_state_def chain_def)
  moreover have "su_accounts u a = None" if "a \<in> set ks" for a
    using \<open>?xs = []\<close> that by (auto simp: List.map_filter_def filter_empty_conv)
  moreover from \<open>?xs = []\<close> assms(2) have "seal_update E u s = (r, s')"
    by (simp add: update_state_def chain_def)
  ultimately show ?thesis
    using unrooted_seal [of s E u] assms(1) by (auto simp: unrooted_manager_def)
qed

lemma unrooted_commit:
  assumes "unrooted_manager s" and "commit_transaction E ks now s = Some (r, s')"
  shows "unrooted_manager s' \<and> (\<forall>h. r \<noteq> Ok h)"
proof -
  obtain q t where l: "on_snapshots (snapshot_latest E) s = (q, t)" by fastforce
  then have t: "unrooted_manager t"
    using assms(1) by (auto simp: on_snapshots_def zoom_def unrooted_manager_def split: prod.splits)
  with assms(2) l show ?thesis
    by (auto simp: commit_transaction_def chain_def dest!: unrooted_update [OF t]
        split: outcome.splits option.splits prod.splits)
qed

text \<open>A manager after any calls but \<open>revert_to_snapshot\<close>.\<close>

inductive sm_reachable ::
  "('ad, 'db, 'h, 'st, 'sn, 'sp, 'wit) state_env \<Rightarrow> ('ad, 'db, 'st, 'sn) state_manager \<Rightarrow> bool" for E where
  sm_new: "sm_reachable E (state_manager_new E st sn)"
| sm_get: "sm_reachable E s \<Longrightarrow> get_account NoGuard E a blk s = Some (r, s') \<Longrightarrow> sm_reachable E s'"
| sm_storage: "sm_reachable E s \<Longrightarrow> get_storage E a key blk s = Some (r', s') \<Longrightarrow> sm_reachable E s'"
| sm_code: "sm_reachable E s \<Longrightarrow> get_code E h s = (r', s') \<Longrightarrow> sm_reachable E s'"
| sm_update: "sm_reachable E s \<Longrightarrow> update_state E ks u s = Some (q, s') \<Longrightarrow> sm_reachable E s'"
| sm_begin: "sm_reachable E s \<Longrightarrow> begin_transaction s = (w, s') \<Longrightarrow> sm_reachable E s'"
| sm_rollback: "sm_reachable E s \<Longrightarrow> rollback_transaction s = (w, s') \<Longrightarrow> sm_reachable E s'"
| sm_commit: "sm_reachable E s \<Longrightarrow> commit_transaction E ks now s = Some (q, s') \<Longrightarrow> sm_reachable E s'"
| sm_proof: "sm_reachable E s \<Longrightarrow> get_state_proof E a keys s = (pf, s') \<Longrightarrow> sm_reachable E s'"

lemma unrooted_code: "preserves unrooted_manager (get_code E h)"
  unfolding get_code_def on_storage_def
  by (auto intro!: preserving preserves_updates preserves_zoom simp: unrooted_manager_def split: option.split)

lemma sm_reachable_unrooted: "sm_reachable E s \<Longrightarrow> unrooted_manager s"
proof (induction rule: sm_reachable.induct)
  case (sm_new st sn)
  show ?case by (simp add: unrooted_manager_def state_manager_new_def)
next
  case (sm_storage s a key blk r' s')
  then show ?case
    by (simp add: get_storage_def unrooted_manager_def cache_hit_def chain_def unrooted_get [unfolded unrooted_manager_def])
next
  case (sm_code s h r' s')
  then show ?case using preserves_state [OF unrooted_code] by blast
next
  case (sm_update s ks u q s')
  then show ?case using unrooted_update by blast
next
  case (sm_commit s ks now q s')
  then show ?case using unrooted_commit by blast
next
  case (sm_proof s a keys pf s')
  then have "trie_root (sm_trie s) = None" by (simp add: unrooted_manager_def)
  with sm_proof(2,3) show ?case
    by (simp add: get_state_proof_def andthen_outcome [of "from_trie f" for f, OF from_trie_apply])
qed (auto simp: unrooted_get begin_transaction_def rollback_transaction_def unrooted_manager_def)

section \<open>Properties\<close>

text \<open>C27: An update of an account that is not cached for the block or a later one never returns. Its
  account is read under the write lock that the update holds, and a miss asks for the read lock: the
  task waits for itself. (Another account's update may panic before that.)\<close>

theorem uncached_update_never_returns:
  assumes "su_accounts u a = Some v" and "a \<in> set ks" and "distinct ks"
    and "cache_hit (su_block_number u) (cached_accounts s a) = None"
  shows "case update_state E ks u s of None \<Rightarrow> True | Some (r, _) \<Rightarrow> \<exists>p. r = Panic p"
proof -
  let ?f = "\<lambda>a. map_option (Pair a) (su_accounts u a)"
  let ?xs = "List.map_filter ?f ks"
  have "(a, v) \<in> set ?xs"
    using assms(1,2) by (force simp: List.map_filter_def)
  moreover have "map fst ?xs = filter (\<lambda>a. su_accounts u a \<noteq> None) ks"
    by (induction ks) (auto simp: List.map_filter_def)
  then have "distinct (map fst ?xs)" using assms(3) by simp
  ultimately have "\<exists>p. r = Panic p" if "update_accounts E (su_block_number u) ?xs s = Some (r, s')" for r s'
    using uncached_update_blocks [of "(a, v)", OF _ _ _ that] assms(4) by simp
  then show ?thesis
    by (fastforce simp: update_state_def chain_def split: option.splits prod.splits outcome.splits)
qed

text \<open>C26: A new manager can never be filled. Whatever is called, short of a revert to somebody else's
  snapshot, every account is absent, an update with an account blocks for ever, one without ends with
  an error and changes nothing, and no transaction is ever committed.\<close>

theorem new_manager_stays_empty:
  assumes "sm_reachable E s"
  shows "get_account NoGuard E a blk s = Some (Ok None, s) \<and>
    (\<forall>ks u. (\<exists>a \<in> set ks. su_accounts u a \<noteq> None) \<longrightarrow> update_state E ks u s = None) \<and>
    (\<forall>ks u r s'. update_state E ks u s = Some (r, s') \<longrightarrow> s' = s \<and> (\<forall>h. r \<noteq> Ok h)) \<and>
    (\<forall>ks now r s'. commit_transaction E ks now s = Some (r, s') \<longrightarrow> (\<forall>h. r \<noteq> Ok h))"
proof -
  note s = sm_reachable_unrooted [OF assms]
  have blocked: "update_state E ks u s = None" if "\<exists>a \<in> set ks. su_accounts u a \<noteq> None" for ks u
    using unrooted_update [OF s] that by (cases "update_state E ks u s") fastforce+
  show ?thesis
  proof (intro conjI allI impI)
    show "get_account NoGuard E a blk s = Some (Ok None, s)" by (simp add: unrooted_get [OF s])
  next
    fix ks u r s' h
    assume "update_state E ks u s = Some (r, s')"
    from unrooted_update [OF s this] show "s' = s" "r \<noteq> Ok h" by blast+
  qed (use blocked unrooted_commit [OF s] in blast)+
qed

text \<open>The history is answered with newer state. Once an account has been read for a block, every
  read for that block or an earlier one gives the same account, whatever the trie holds.\<close>

theorem cached_account_answers:
  assumes "get_account g E a blk s = Some (Ok (Some acc), s')" and "blk' \<le> blk"
  shows "get_account g' E a blk' (s'\<lparr>sm_trie := t\<rparr>) = Some (Ok (Some acc), s'\<lparr>sm_trie := t\<rparr>)"
proof -
  have "\<exists>seen. cached_accounts s' a = Some (acc, seen) \<and> blk \<le> seen"
  proof (cases "cache_hit blk (cached_accounts s a)")
    case None
    with assms(1) have "load_account E a blk s = (Ok (Some acc), s')"
      by (simp add: get_account_unfold split: if_splits)
    then show ?thesis
      by (auto simp: load_account_def comp_Ok_iffs lift_outcome_def split: option.splits)
  next
    case (Some acc')
    with assms(1) show ?thesis
      by (auto simp: get_account_unfold cache_hit_def split: option.splits if_splits)
  qed
  with assms(2) show ?thesis by (auto simp: get_account_unfold cache_hit_def)
qed

text \<open>The account that an update leaves behind: given fields replace the old ones, balances token by token.\<close>

definition updated_account ::
  "('ad, 'db, 'h, 'st, 'sn, 'sp, 'wit) state_env \<Rightarrow> account_update \<Rightarrow> u32 \<Rightarrow> account \<Rightarrow> digest \<Rightarrow> account"
where
  "updated_account E u blk old root =
     \<lparr>acc_nonce = (case up_nonce u of Some n \<Rightarrow> n | None \<Rightarrow> acc_nonce old),
      acc_balance = (\<lambda>tok. case up_balance u tok of Some v \<Rightarrow> Some v | None \<Rightarrow> acc_balance old tok),
      pub_key_hash = (case up_pub_key_hash u of Some h \<Rightarrow> h | None \<Rightarrow> pub_key_hash old),
      storage_root = root,
      acc_code_hash = (case up_code u of Some code \<Rightarrow> code_digest E code | None \<Rightarrow> acc_code_hash old),
      last_modified_block = blk\<rparr>"

lemma apply_fields_eq:
  "apply_fields u old =
     \<lparr>acc_nonce = (case up_nonce u of Some n \<Rightarrow> n | None \<Rightarrow> acc_nonce old),
      acc_balance = (\<lambda>tok. case up_balance u tok of Some v \<Rightarrow> Some v | None \<Rightarrow> acc_balance old tok),
      pub_key_hash = (case up_pub_key_hash u of Some h \<Rightarrow> h | None \<Rightarrow> pub_key_hash old),
      storage_root = storage_root old, acc_code_hash = acc_code_hash old,
      last_modified_block = last_modified_block old\<rparr>"
proof -
  have "acc_balance (apply_fields u old) = acc_balance old ++ up_balance u"
    by (simp add: apply_fields_def Let_def split: option.split)
  moreover have "acc_nonce (apply_fields u old) = (case up_nonce u of Some n \<Rightarrow> n | None \<Rightarrow> acc_nonce old)"
    "pub_key_hash (apply_fields u old) = (case up_pub_key_hash u of Some h \<Rightarrow> h | None \<Rightarrow> pub_key_hash old)"
    "storage_root (apply_fields u old) = storage_root old" "acc_code_hash (apply_fields u old) = acc_code_hash old"
    "last_modified_block (apply_fields u old) = last_modified_block old"
    by (simp_all add: apply_fields_def Let_def split: option.split)
  ultimately show ?thesis by (intro account.equality) (simp_all add: map_add_def)
qed

lemma zoom_Ok: "zoom f g m s = (Ok x, s') \<longleftrightarrow> (\<exists>t. m (f s) = (Ok x, t) \<and> s' = g t s)"
  by (auto simp: zoom_def split: prod.splits)

lemma mapping_err_Ok: "mapping_err g m s = (Ok x, s') \<longleftrightarrow> m s = (Ok x, s')"
  by (auto simp: mapping_err_def split: prod.splits)

lemma on_storage_Ok:
  "on_storage m s = (Ok x, s') \<longleftrightarrow> (\<exists>st. m (sm_storage s) = (Ok x, st) \<and> s' = s\<lparr>sm_storage := st\<rparr>)"
  by (simp add: on_storage_def zoom_Ok)

lemma write_storage_Ok:
  "write_storage E a u acc s = (Ok acc', s') \<longleftrightarrow>
     (\<exists>root st. (if up_storage u = Map.empty then root = storage_root acc \<and> st = sm_storage s
        else storage_update E a (up_storage u) (storage_root acc) (sm_storage s) = (Ok root, st)) \<and>
      acc' = acc\<lparr>storage_root := root\<rparr> \<and> s' = s\<lparr>sm_storage := st\<rparr>)"
  by (auto simp: write_storage_def comp_Ok_iffs on_storage_Ok)

lemma write_code_Ok:
  "write_code E u acc s = (Ok acc', s') \<longleftrightarrow>
     (\<exists>st. (case up_code u of None \<Rightarrow> st = sm_storage s
        | Some code \<Rightarrow> storage_put_code E (code_digest E code) code (sm_storage s) = (Ok (), st)) \<and>
      acc' = acc\<lparr>acc_code_hash := (case up_code u of Some code \<Rightarrow> code_digest E code | None \<Rightarrow> acc_code_hash acc)\<rparr> \<and>
      s' = s\<lparr>sm_storage := st\<rparr>)"
  by (auto simp: write_code_def Let_def comp_Ok_iffs on_storage_Ok split: option.splits)

lemma store_account_Ok:
  "store_account E a blk acc s = (Ok (), s') \<longleftrightarrow>
     (\<exists>bs t. ser_account E acc = Some bs \<and>
      trie_insert (st_lib E) (address_bytes E a) bs (sm_trie s) = (Ok (), t) \<and>
      s' = s\<lparr>sm_trie := t, cached_accounts := (cached_accounts s)(a \<mapsto> (acc, blk))\<rparr>)"
  by (auto simp: store_account_def comp_Ok_iffs zoom_Ok mapping_err_Ok)

text \<open>The effects of a write of an account, in their order.\<close>

definition updated_fields ::
  "('ad, 'db, 'h, 'st, 'sn, 'sp, 'wit) state_env \<Rightarrow> 'ad \<Rightarrow> account_update \<Rightarrow> u32 \<Rightarrow> account \<Rightarrow>
   ('ad, 'db, 'st, 'sn) state_manager \<Rightarrow> ('ad, 'db, 'st, 'sn) state_manager \<Rightarrow> bool" where
  "updated_fields E a u blk old s s' \<longleftrightarrow>
     (\<exists>root st st' bs t.
        (if up_storage u = Map.empty then root = storage_root old \<and> st = sm_storage s
         else storage_update E a (up_storage u) (storage_root old) (sm_storage s) = (Ok root, st)) \<and>
        (case up_code u of None \<Rightarrow> st' = st
         | Some code \<Rightarrow> storage_put_code E (code_digest E code) code st = (Ok (), st')) \<and>
        ser_account E (updated_account E u blk old root) = Some bs \<and>
        trie_insert (st_lib E) (address_bytes E a) bs (sm_trie s) = (Ok (), t) \<and>
        s' = s\<lparr>sm_storage := st', sm_trie := t,
               cached_accounts := (cached_accounts s)(a \<mapsto> (updated_account E u blk old root, blk))\<rparr>)"

lemma write_account_Ok:
  "write_account E a u blk (Some old) s = (Ok (), s') \<longleftrightarrow> updated_fields E a u blk old s s'"
proof -
  let ?new = "apply_fields u old"
  have fields: "?new\<lparr>storage_root := root,
      acc_code_hash := (case up_code u of Some code \<Rightarrow> code_digest E code | None \<Rightarrow> acc_code_hash old),
      last_modified_block := blk\<rparr> = updated_account E u blk old root" for root
    by (simp add: apply_fields_eq updated_account_def)
  have same: "storage_root ?new = storage_root old" "acc_code_hash ?new = acc_code_hash old"
    by (simp_all add: apply_fields_eq)
  have steps: "write_account E a u blk (Some old) s = (Ok (), s') \<longleftrightarrow>
      (\<exists>acc1 s1 acc2 s2. write_storage E a u ?new s = (Ok acc1, s1) \<and> write_code E u acc1 s1 = (Ok acc2, s2) \<and>
        store_account E a blk (acc2\<lparr>last_modified_block := blk\<rparr>) s2 = (Ok (), s'))"
    by (simp add: write_account_def Let_def andthen_eq_Ok)
  show ?thesis
  proof
    assume "write_account E a u blk (Some old) s = (Ok (), s')"
    then obtain acc1 s1 acc2 s2 where w1: "write_storage E a u ?new s = (Ok acc1, s1)"
      and w2: "write_code E u acc1 s1 = (Ok acc2, s2)"
      and w3: "store_account E a blk (acc2\<lparr>last_modified_block := blk\<rparr>) s2 = (Ok (), s')"
      unfolding steps by blast
    from w1 obtain root st where 1: "acc1 = ?new\<lparr>storage_root := root\<rparr>" "s1 = s\<lparr>sm_storage := st\<rparr>"
      "if up_storage u = Map.empty then root = storage_root old \<and> st = sm_storage s
       else storage_update E a (up_storage u) (storage_root old) (sm_storage s) = (Ok root, st)"
      unfolding write_storage_Ok same by blast
    from w2 obtain st' where 2: "s2 = s1\<lparr>sm_storage := st'\<rparr>"
      "acc2 = acc1\<lparr>acc_code_hash := (case up_code u of Some code \<Rightarrow> code_digest E code | None \<Rightarrow> acc_code_hash acc1)\<rparr>"
      "case up_code u of None \<Rightarrow> st' = sm_storage s1
       | Some code \<Rightarrow> storage_put_code E (code_digest E code) code (sm_storage s1) = (Ok (), st')"
      unfolding write_code_Ok by blast
    have acc: "acc2\<lparr>last_modified_block := blk\<rparr> = updated_account E u blk old root"
      using 2(2) by (simp add: 1(1) same cong: option.case_cong flip: fields)
    from w3 obtain bs t where 3: "ser_account E (updated_account E u blk old root) = Some bs"
      "trie_insert (st_lib E) (address_bytes E a) bs (sm_trie s2) = (Ok (), t)"
      "s' = s2\<lparr>sm_trie := t, cached_accounts := (cached_accounts s2)(a \<mapsto> (updated_account E u blk old root, blk))\<rparr>"
      unfolding store_account_Ok acc by blast
    show "updated_fields E a u blk old s s'"
      unfolding updated_fields_def
      by (rule exI [of _ root], rule exI [of _ st], rule exI [of _ st'], rule exI [of _ bs], rule exI [of _ t])
        (use 1(2,3) 2(1,3) 3 in \<open>simp cong: option.case_cong\<close>)
  next
    assume "updated_fields E a u blk old s s'"
    then obtain root st st' bs t where
      1: "if up_storage u = Map.empty then root = storage_root old \<and> st = sm_storage s
        else storage_update E a (up_storage u) (storage_root old) (sm_storage s) = (Ok root, st)"
      and 2: "case up_code u of None \<Rightarrow> st' = st
        | Some code \<Rightarrow> storage_put_code E (code_digest E code) code st = (Ok (), st')"
      and 3: "ser_account E (updated_account E u blk old root) = Some bs"
        "trie_insert (st_lib E) (address_bytes E a) bs (sm_trie s) = (Ok (), t)"
        "s' = s\<lparr>sm_storage := st', sm_trie := t,
           cached_accounts := (cached_accounts s)(a \<mapsto> (updated_account E u blk old root, blk))\<rparr>"
      unfolding updated_fields_def by blast
    let ?acc1 = "?new\<lparr>storage_root := root\<rparr>"
    let ?acc2 = "?acc1\<lparr>acc_code_hash := (case up_code u of Some code \<Rightarrow> code_digest E code | None \<Rightarrow> acc_code_hash ?acc1)\<rparr>"
    have "write_storage E a u ?new s = (Ok ?acc1, s\<lparr>sm_storage := st\<rparr>)"
      unfolding write_storage_Ok same using 1 by blast
    moreover have "write_code E u ?acc1 (s\<lparr>sm_storage := st\<rparr>) = (Ok ?acc2, s\<lparr>sm_storage := st'\<rparr>)"
      unfolding write_code_Ok by (rule exI [of _ st']) (use 2 in \<open>simp cong: option.case_cong\<close>)
    moreover have "?acc2\<lparr>last_modified_block := blk\<rparr> = updated_account E u blk old root"
      by (simp add: same cong: option.case_cong flip: fields)
    then have "store_account E a blk (?acc2\<lparr>last_modified_block := blk\<rparr>) (s\<lparr>sm_storage := st'\<rparr>) = (Ok (), s')"
      unfolding store_account_Ok by (intro exI [of _ bs] exI [of _ t]) (use 3 in simp)
    ultimately show "write_account E a u blk (Some old) s = (Ok (), s')" unfolding steps by blast
  qed
qed

text \<open>What the trie and the encoding are relied on for: an inserted value is found under the new root, and
  an encoded account is read back.\<close>

definition keeps_inserts :: "('db, 'h) trie_lib \<Rightarrow> bool" where
  "keeps_inserts L \<longleftrightarrow> (\<forall>k v d r d'. db_insert L k v d = (Ok r, d') \<longrightarrow>
     (\<exists>h. open_at L d' r = Ok h \<and> look_up L h k = Ok (Some v)))"

definition reads_back :: "('ad, 'db, 'h, 'st, 'sn, 'sp, 'wit) state_env \<Rightarrow> bool" where
  "reads_back E \<longleftrightarrow> (\<forall>acc bs. ser_account E acc = Some bs \<longrightarrow> de_account E bs = Some acc)"

lemma inserted_found:
  assumes "keeps_inserts L" and "trie_insert L k v t = (Ok (), t')"
  shows "trie_get L k t' = Ok (Some v)"
proof -
  from assms(2) obtain r d where ins: "db_insert L k v (trie_db t) = (Ok r, d)"
    and t': "t' = t\<lparr>trie_db := d, trie_root := Some r\<rparr>"
    by (auto simp: trie_insert_def comp_Ok_iffs zoom_Ok mapping_err_Ok)
  from assms(1) ins obtain h where "open_at L d r = Ok h" "look_up L h k = Ok (Some v)"
    unfolding keeps_inserts_def by blast
  then show ?thesis by (simp add: t' trie_get_def open_root_def)
qed

text \<open>C25: What an update of an account does when it succeeds, and when it succeeds. The account must be
  cached. The new account has the given fields for the old ones, the root that the storage answers to the
  written slots, and the digest of new code; slots are written before the code, and no slot means no
  write. Its encoding is inserted into the trie under the bytes of the address, it is cached for the
  block, and nothing else changes. If the trie finds what is inserted and the encoding can be read back,
  the account survives the cache: after all cached accounts are dropped, a read for any block returns it.\<close>

theorem account_update_effect:
  "(update_account E blk (a, u) s = Some (Ok (), s') \<longleftrightarrow>
     (\<exists>old root st st' bs t. cache_hit blk (cached_accounts s a) = Some old \<and>
        (if up_storage u = Map.empty then root = storage_root old \<and> st = sm_storage s
         else storage_update E a (up_storage u) (storage_root old) (sm_storage s) = (Ok root, st)) \<and>
        (case up_code u of None \<Rightarrow> st' = st
         | Some code \<Rightarrow> storage_put_code E (code_digest E code) code st = (Ok (), st')) \<and>
        ser_account E (updated_account E u blk old root) = Some bs \<and>
        trie_insert (st_lib E) (address_bytes E a) bs (sm_trie s) = (Ok (), t) \<and>
        s' = s\<lparr>sm_storage := st', sm_trie := t,
               cached_accounts := (cached_accounts s)(a \<mapsto> (updated_account E u blk old root, blk))\<rparr>)) \<and>
   (update_account E blk (a, u) s = Some (Ok (), s') \<and> keeps_inserts (st_lib E) \<and> reads_back E \<longrightarrow>
     (\<exists>acc. cached_accounts s' a = Some (acc, blk) \<and>
        (\<forall>b. get_account NoGuard E a b (s'\<lparr>cached_accounts := Map.empty\<rparr>) =
           Some (Ok (Some acc), s'\<lparr>cached_accounts := [a \<mapsto> (acc, b)]\<rparr>))))"
  (is "(?updated \<longleftrightarrow> ?effect) \<and> _")
proof -
  have iff: "?updated \<longleftrightarrow> ?effect"
    by (simp add: update_account_unfold write_account_Ok updated_fields_def split: option.split)
  have "\<exists>acc. cached_accounts s' a = Some (acc, blk) \<and>
        (\<forall>b. get_account NoGuard E a b (s'\<lparr>cached_accounts := Map.empty\<rparr>) =
           Some (Ok (Some acc), s'\<lparr>cached_accounts := [a \<mapsto> (acc, b)]\<rparr>))"
    if laws: ?updated "keeps_inserts (st_lib E)" "reads_back E"
  proof -
    from laws(1) iff obtain acc bs t where acc: "ser_account E acc = Some bs"
      and ins: "trie_insert (st_lib E) (address_bytes E a) bs (sm_trie s) = (Ok (), t)"
      and s': "sm_trie s' = t" "cached_accounts s' a = Some (acc, blk)"
      by auto
    have "de_account E bs = Some acc" using laws(3) acc by (simp add: reads_back_def)
    then show ?thesis
      using inserted_found [OF laws(2) ins] s'
      by (simp add: get_account_unfold cache_hit_def load_account_def parse_account_def
          from_trie_apply lift_outcome_def andthen_def)
  qed
  with iff show ?thesis by blast
qed

text \<open>A revert forgets the database. Afterwards the trie has the root of the snapshot over an empty
  database, and the caches are empty; when the library cannot open that root in an empty database,
  every account fails to load.\<close>

theorem revert_empties_database:
  assumes "revert_to_snapshot E blk s = (Ok (), s')"
  shows "\<exists>root. fst (snapshot_root E blk (sm_snapshots s)) = Ok root \<and>
    sm_trie s' = \<lparr>trie_db = empty_db (st_lib E), trie_root = Some root\<rparr> \<and>
    cached_accounts s' = Map.empty \<and> cached_storage s' = Map.empty \<and> cached_code s' = Map.empty \<and>
    (\<forall>m a b. open_at (st_lib E) (empty_db (st_lib E)) root = Err m \<longrightarrow>
      get_account NoGuard E a b s' = Some (Err (TrieErr (DatabaseError m)), s'))"
proof -
  from assms obtain root where root: "fst (snapshot_root E blk (sm_snapshots s)) = Ok root"
    and s': "sm_trie s' = \<lparr>trie_db = empty_db (st_lib E), trie_root = Some root\<rparr>"
      "cached_accounts s' = Map.empty" "cached_storage s' = Map.empty" "cached_code s' = Map.empty"
    by (auto simp: revert_to_snapshot_def comp_Ok_iffs on_snapshots_def zoom_def lift_outcome_def
        trie_from_root_def trie_new_def split: prod.splits)
  have "get_account NoGuard E a b s' = Some (Err (TrieErr (DatabaseError m)), s')"
    if "open_at (st_lib E) (empty_db (st_lib E)) root = Err m" for m a b
    using that s' by (simp add: get_account_unfold cache_hit_def load_account_def trie_get_def open_root_def
        andthen_outcome [of "from_trie f" for f, OF from_trie_apply])
  with root s' show ?thesis by blast
qed

text \<open>Keys without a proof are accepted. The check pairs keys and storage proofs by position up to
  the shorter list, so keys beyond the proofs change nothing, and with no storage proofs any keys are
  as good as none. The manager's own trie plays no part.\<close>

theorem unproved_keys_accepted:
  assumes "length sps \<le> length keys"
  shows "verify_state_proof E a (keys @ extra) (pf, sps) root s = verify_state_proof E a keys (pf, sps) root s \<and>
    verify_state_proof E a extra (pf, []) root s = verify_state_proof E a [] (pf, []) root s \<and>
    verify_state_proof E a keys (pf, sps) root (s\<lparr>sm_trie := t\<rparr>) = verify_state_proof E a keys (pf, sps) root s"
proof -
  have "zip (keys @ extra) sps = zip keys sps" using assms by (simp add: zip_append1)
  then show ?thesis by (simp add: verify_state_proof_def cong: option.case_cong if_cong)
qed

section \<open>Witnesses\<close>

text \<open>A database that is the list of what was inserted, with its length as the root.\<close>

definition listed_root :: "'a list \<Rightarrow> digest" where
  "listed_root xs = [of_nat (length xs)]"

definition listed_lib :: "((u8 list \<times> u8 list) list, (u8 list \<times> u8 list) list) trie_lib" where
  "listed_lib =
     \<lparr>empty_db = [],
      open_at = (\<lambda>d r. if d \<noteq> [] \<and> r = listed_root d then Ok d else Err ''unknown root''),
      look_up = (\<lambda>h k. Ok (map_of h k)), make_proof = (\<lambda>_ _. Ok []), check_path = (\<lambda>_ _ _. Ok True),
      entries_at = map Ok,
      db_insert = (\<lambda>k v d. (Ok (listed_root ((k, v) # d)), (k, v) # d)),
      db_remove = (\<lambda>k d. (Ok (k \<in> fst ` set d, listed_root (filter (\<lambda>x. fst x \<noteq> k) d)),
        filter (\<lambda>x. fst x \<noteq> k) d))\<rparr>"

definition nonce_account :: "u32 \<Rightarrow> account" where
  "nonce_account n = \<lparr>acc_nonce = n, acc_balance = [0 \<mapsto> 100], pub_key_hash = [], storage_root = [],
     acc_code_hash = [], last_modified_block = 1\<rparr>"

definition listed_env ::
  "(u8, (u8 list \<times> u8 list) list, (u8 list \<times> u8 list) list, unit, unit, unit, unit) state_env" where
  "listed_env =
     \<lparr>st_lib = listed_lib, address_bytes = (\<lambda>a. [a]), ser_account = (\<lambda>acc. Some [ucast (acc_nonce acc)]),
      de_account = (\<lambda>bs. case bs of [n] \<Rightarrow> Some (nonce_account (ucast n)) | _ \<Rightarrow> None),
      no_key_hash = [], no_hash = [], code_digest = id,
      storage_get = (\<lambda>_ _ _. ret None), storage_code = (\<lambda>_. ret None),
      storage_update = (\<lambda>_ _ r. ret r), storage_put_code = (\<lambda>_ _. ret ()), storage_prove = (\<lambda>_ _ _. ret ()),
      storage_check = (\<lambda>_ _ _ _ _. Ok True), make_witness = (\<lambda>_ _. Ok ()), circuit_proof = (\<lambda>_. Ok []),
      snapshot_create = (\<lambda>_ _ _ _. ret ()), snapshot_root = (\<lambda>_. ret [1]), snapshot_latest = ret 0\<rparr>"

abbreviation listed_manager :: "(u8, (u8 list \<times> u8 list) list, unit, unit) state_manager" where
  "listed_manager \<equiv> state_manager_new listed_env () ()"

definition nonce_update :: account_update where
  "nonce_update = \<lparr>up_nonce = Some 7, up_balance = [1 \<mapsto> 5], up_pub_key_hash = None, up_storage = Map.empty,
     up_code = None, up_metadata = Map.empty\<rparr>"

definition one_account_update :: "u8 state_update" where
  "one_account_update = \<lparr>su_block_number = 3, su_accounts = [1 \<mapsto> nonce_update], su_timestamp = 0,
     su_metadata = Map.empty, zk_proof = None\<rparr>"

theorem uncached_update_never_returns_witness:
  "case update_state listed_env [1] one_account_update listed_manager of
     None \<Rightarrow> True | Some (r, _) \<Rightarrow> \<exists>p. r = Panic p"
  by (rule uncached_update_never_returns [where a = 1 and v = nonce_update])
    (simp_all add: one_account_update_def state_manager_new_def cache_hit_def)

theorem new_manager_stays_empty_witness:
  "update_state listed_env [1] one_account_update listed_manager = None"
  using new_manager_stays_empty [OF sm_new, of listed_env 1 0 "()" "()"]
  by (auto simp: one_account_update_def)

definition cached_manager :: "(u8, (u8 list \<times> u8 list) list, unit, unit) state_manager" where
  "cached_manager = listed_manager\<lparr>cached_accounts := [1 \<mapsto> (nonce_account 2, 5)]\<rparr>"

lemma cached_manager_hit: "get_account g listed_env 1 5 cached_manager = Some (Ok (Some (nonce_account 2)), cached_manager)"
  by (simp add: get_account_unfold cached_manager_def cache_hit_def)

theorem cached_account_answers_witness:
  "get_account NoGuard listed_env 1 2 (cached_manager\<lparr>sm_trie := trie_new listed_lib\<rparr>) =
     Some (Ok (Some (nonce_account 2)), cached_manager\<lparr>sm_trie := trie_new listed_lib\<rparr>)"
  by (rule cached_account_answers [OF cached_manager_hit [of NoGuard]]) simp

text \<open>An update of nonce, one balance, key and code, with a storage that keeps code in a list.\<close>

definition full_update :: account_update where
  "full_update = nonce_update\<lparr>up_pub_key_hash := Some [9], up_code := Some [4]\<rparr>"

definition full_account :: account where
  "full_account = \<lparr>acc_nonce = 7, acc_balance = [0 \<mapsto> 100, 1 \<mapsto> 5], pub_key_hash = [9], storage_root = [],
     acc_code_hash = [4], last_modified_block = 3\<rparr>"

definition coded_env ::
  "(u8, (u8 list \<times> u8 list) list, (u8 list \<times> u8 list) list, u8 list list, unit, unit, unit) state_env" where
  "coded_env =
     \<lparr>st_lib = listed_lib, address_bytes = (\<lambda>a. [a]),
      ser_account = (\<lambda>acc. if acc = full_account then Some [1] else None), de_account = (\<lambda>_. Some full_account),
      no_key_hash = [], no_hash = [], code_digest = id,
      storage_get = (\<lambda>_ _ _. ret None), storage_code = (\<lambda>_. ret None),
      storage_update = (\<lambda>_ _ r. ret r), storage_put_code = (\<lambda>_ code. updates (\<lambda>st. code # st)),
      storage_prove = (\<lambda>_ _ _. ret ()), storage_check = (\<lambda>_ _ _ _ _. Ok True), make_witness = (\<lambda>_ _. Ok ()),
      circuit_proof = (\<lambda>_. Ok []), snapshot_create = (\<lambda>_ _ _ _. ret ()), snapshot_root = (\<lambda>_. ret [1]),
      snapshot_latest = ret 0\<rparr>"

definition coded_manager :: "(u8, (u8 list \<times> u8 list) list, u8 list list, unit) state_manager" where
  "coded_manager = (state_manager_new coded_env [] ())\<lparr>cached_accounts := [1 \<mapsto> (nonce_account 2, 5)]\<rparr>"

theorem account_update_effect_witness:
  "\<exists>s'. update_account coded_env 3 (1, full_update) coded_manager = Some (Ok (), s') \<and>
     cached_accounts s' 1 = Some (full_account, 3) \<and> sm_storage s' = [[4]] \<and>
     trie_db (sm_trie s') = [([1], [1])] \<and>
     fst (the (get_account NoGuard coded_env 1 9 (s'\<lparr>cached_accounts := Map.empty\<rparr>))) = Ok (Some full_account)"
proof -
  let ?t = "\<lparr>trie_db = [([1], [1])], trie_root = Some (listed_root [([1 :: u8], [1 :: u8])])\<rparr>"
  let ?s = "coded_manager\<lparr>sm_storage := [[4]], sm_trie := ?t,
      cached_accounts := (cached_accounts coded_manager)(1 \<mapsto> (full_account, 3))\<rparr>"
  have acc: "updated_account coded_env full_update 3 (nonce_account 2) [] = full_account"
    by (auto simp: updated_account_def full_update_def nonce_update_def nonce_account_def full_account_def
        coded_env_def fun_eq_iff)
  have ins: "trie_insert (st_lib coded_env) (address_bytes coded_env 1) [1] (sm_trie coded_manager) = (Ok (), ?t)"
    by (simp add: trie_insert_def coded_env_def listed_lib_def coded_manager_def state_manager_new_def zoom_def
        mapping_err_def andthen_def trie_new_def)
  have "update_account coded_env 3 (1, full_update) coded_manager = Some (Ok (), ?s)"
    unfolding account_update_effect [THEN conjunct1]
    by (rule exI [of _ "nonce_account 2"], rule exI [of _ "[]"], rule exI [of _ "[]"], rule exI [of _ "[[4]]"],
        rule exI [of _ "[1]"], rule exI [of _ ?t])
      (simp add: acc ins, simp add: coded_env_def coded_manager_def cache_hit_def full_update_def nonce_update_def
        state_manager_new_def nonce_account_def)
  moreover have "keeps_inserts (st_lib coded_env)"
    by (auto simp: keeps_inserts_def coded_env_def listed_lib_def)
  moreover have "reads_back coded_env" by (auto simp: reads_back_def coded_env_def split: if_splits)
  ultimately show ?thesis
    using account_update_effect [of coded_env 3 1 full_update coded_manager ?s] by auto
qed

theorem revert_empties_database_witness:
  "\<exists>s'. revert_to_snapshot listed_env 4 cached_manager = (Ok (), s') \<and>
     get_account NoGuard listed_env 1 0 s' = Some (Err (TrieErr (DatabaseError ''unknown root'')), s')"
proof -
  have "\<exists>s'. revert_to_snapshot listed_env 4 cached_manager = (Ok (), s')"
    by (simp add: revert_to_snapshot_def on_snapshots_def zoom_def andthen_def listed_env_def
        trie_from_root_def lift_outcome_def)
  then obtain s' where s': "revert_to_snapshot listed_env 4 cached_manager = (Ok (), s')" ..
  from revert_empties_database [OF s'] s' show ?thesis
    by (auto simp: listed_env_def listed_lib_def)
qed

theorem unproved_keys_accepted_witness:
  "verify_state_proof listed_env 1 [[1], [2]] ([], [()]) [0] listed_manager =
   verify_state_proof listed_env 1 [[1]] ([], [()]) [0] listed_manager"
  using unproved_keys_accepted [of "[()]" "[[1]]" listed_env 1 "[[2]]"] by simp

end
