(* ===== verification/Crypto.thy ===== *)
theory Crypto
  imports Messages
begin

text \<open>
  Model of \<open>src/crypto/mod.rs\<close>: the engine that keeps a key pair, authenticated encryption with a
  random nonce in front of the ciphertext, and the placeholder of a proof verifier. The signature
  scheme (\<open>k256\<close>), the hash functions and the cipher (\<open>aes_gcm\<close>) are libraries: fields of the record
  \<open>primitives\<close>. What the random number generator delivers is an argument.
\<close>

section \<open>Model\<close>

record ('sk, 'vk, 'sig) primitives =
  public_key :: "'sk \<Rightarrow> 'vk"
  sign_bytes :: "'sk \<Rightarrow> u8 list \<Rightarrow> 'sig"
  check_signature :: "'vk \<Rightarrow> u8 list \<Rightarrow> 'sig \<Rightarrow> bool"
  keccak256 :: "u8 list \<Rightarrow> u8 list"
  blake3_hash :: "u8 list \<Rightarrow> digest"

text \<open>The cipher, with its key: from nonce, message and associated data; \<open>None\<close> is its error.\<close>

record 'c aead =
  cipher_new :: "u8 list \<Rightarrow> 'c"
  seal :: "'c \<Rightarrow> u8 list \<Rightarrow> u8 list \<Rightarrow> u8 list \<Rightarrow> u8 list option"
  unseal :: "'c \<Rightarrow> u8 list \<Rightarrow> u8 list \<Rightarrow> u8 list \<Rightarrow> u8 list option"

record ('sk, 'vk) crypto_engine =
  signing_key :: "'sk option"
  verification_key :: "'vk option"

definition engine_new :: "('sk, 'vk) crypto_engine" where
  "engine_new = \<lparr>signing_key = None, verification_key = None\<rparr>"

definition generate_keypair ::
  "('sk, 'vk, 'sig) primitives \<Rightarrow> 'sk \<Rightarrow> (('sk, 'vk) crypto_engine, crypto_error, unit) comp" where
  "generate_keypair P sk =
     andthen (updates (\<lambda>s. s\<lparr>signing_key := Some sk\<rparr>)) (\<lambda>_.
     updates (\<lambda>s. s\<lparr>verification_key := Some (public_key P sk)\<rparr>))"

definition engine_sign ::
  "('sk, 'vk, 'sig) primitives \<Rightarrow> u8 list \<Rightarrow> ('sk, 'vk) crypto_engine \<Rightarrow> (crypto_error, 'sig) outcome" where
  "engine_sign P msg s =
     (case signing_key s of None \<Rightarrow> Err InvalidKey | Some sk \<Rightarrow> Ok (sign_bytes P sk msg))"

definition engine_verify ::
  "('sk, 'vk, 'sig) primitives \<Rightarrow> u8 list \<Rightarrow> 'sig \<Rightarrow> ('sk, 'vk) crypto_engine \<Rightarrow>
   (crypto_error, bool) outcome" where
  "engine_verify P msg sig s =
     (case verification_key s of
        None \<Rightarrow> Err InvalidKey
      | Some vk \<Rightarrow> Ok (check_signature P vk msg sig))"

definition hash_keccak256 :: "('sk, 'vk, 'sig) primitives \<Rightarrow> u8 list \<Rightarrow> u8 list" where
  "hash_keccak256 P bs = keccak256 P bs"

definition hash_blake3 :: "('sk, 'vk, 'sig) primitives \<Rightarrow> u8 list \<Rightarrow> digest" where
  "hash_blake3 P bs = blake3_hash P bs"

subsection \<open>Symmetric encryption\<close>

definition symmetric_new :: "'c aead \<Rightarrow> u8 list \<Rightarrow> 'c" where
  "symmetric_new A key = cipher_new A key"

text \<open>\<open>nonce\<close> are the twelve bytes that the generator fills in.\<close>

definition encrypt ::
  "'c aead \<Rightarrow> 'c \<Rightarrow> u8 list \<Rightarrow> u8 list \<Rightarrow> u8 list \<Rightarrow> (crypto_error, u8 list) outcome" where
  "encrypt A c nonce plaintext aad =
     (case seal A c nonce plaintext aad of
        None \<Rightarrow> Err EncryptionFailed
      | Some ciphertext \<Rightarrow> Ok (nonce @ ciphertext))"

definition decrypt ::
  "'c aead \<Rightarrow> 'c \<Rightarrow> u8 list \<Rightarrow> u8 list \<Rightarrow> (crypto_error, u8 list) outcome" where
  "decrypt A c ciphertext aad =
     (if length ciphertext < 12 then Err DecryptionFailed
      else (let nonce = take 12 ciphertext; body = drop 12 ciphertext in
        case unseal A c nonce body aad of
          None \<Rightarrow> Err DecryptionFailed
        | Some plaintext \<Rightarrow> Ok plaintext))"

subsection \<open>The proof verifier\<close>

record 'vk zk_proof_system =
  zk_verifying_key :: 'vk

definition zk_system_new :: "'vk \<Rightarrow> 'vk zk_proof_system" where
  "zk_system_new vk = \<lparr>zk_verifying_key = vk\<rparr>"

definition zk_verify :: "'vk zk_proof_system \<Rightarrow> 'pf \<Rightarrow> 'f list \<Rightarrow> bool" where
  "zk_verify sys pf inputs = True"

section \<open>Properties\<close>

inductive engine_reachable ::
  "('sk, 'vk, 'sig) primitives \<Rightarrow> ('sk, 'vk) crypto_engine \<Rightarrow> bool" for P where
  engine_start: "engine_reachable P engine_new"
| engine_keys: "engine_reachable P s \<Longrightarrow> generate_keypair P sk s = (r, s') \<Longrightarrow> engine_reachable P s'"

lemma engine_keys_match:
  "engine_reachable P s \<Longrightarrow> verification_key s = map_option (public_key P) (signing_key s)"
  by (induction rule: engine_reachable.induct) (auto simp: engine_new_def generate_keypair_def)

text \<open>The engine's two keys always belong together, however often a pair is generated. Without a
  pair both signing and verifying fail with \<open>InvalidKey\<close>; with one, an engine verifies what it
  signed, provided the scheme does.\<close>

theorem engine_verifies_own_signatures:
  assumes "engine_reachable P s" and "\<And>sk m. check_signature P (public_key P sk) m (sign_bytes P sk m)"
  shows "(engine_sign P msg s = Err InvalidKey \<longleftrightarrow> s = engine_new) \<and>
    (engine_verify P msg sig s = Err InvalidKey \<longleftrightarrow> s = engine_new) \<and>
    (\<forall>own. engine_sign P msg s = Ok own \<longrightarrow> engine_verify P msg own s = Ok True)"
proof -
  have "signing_key s = None \<longleftrightarrow> s = engine_new" "verification_key s = None \<longleftrightarrow> s = engine_new"
    using engine_keys_match [OF assms(1)] by (auto simp: engine_new_def)
  then show ?thesis
    using engine_keys_match [OF assms(1)] assms(2)
    by (auto simp: engine_sign_def engine_verify_def split: option.splits)
qed

text \<open>C37: Decryption undoes encryption under the same associated data. The nonce travels in the first
  twelve bytes. Whatever decrypts at all carries a nonce and was opened with exactly this nonce and
  the rest of the bytes; anything shorter than a nonce is refused with \<open>DecryptionFailed\<close>, as is what
  the cipher refuses.\<close>

theorem encryption_roundtrip:
  assumes "\<And>n m aad x. seal A c n m aad = Some x \<Longrightarrow> unseal A c n x aad = Some m"
    and "length nonce = 12"
  shows "(\<forall>out. encrypt A c nonce msg aad = Ok out \<longrightarrow>
      take 12 out = nonce \<and> decrypt A c out aad = Ok msg) \<and>
    (decrypt A c bytes aad = Ok msg \<longleftrightarrow>
      (\<exists>n body. bytes = n @ body \<and> length n = 12 \<and> unseal A c n body aad = Some msg)) \<and>
    (decrypt A c bytes aad \<noteq> Err DecryptionFailed \<longleftrightarrow> (\<exists>m. decrypt A c bytes aad = Ok m))"
proof (intro conjI)
  show "\<forall>out. encrypt A c nonce msg aad = Ok out \<longrightarrow> take 12 out = nonce \<and> decrypt A c out aad = Ok msg"
    using assms(2) by (auto simp: encrypt_def decrypt_def dest!: assms(1) split: option.splits)
  have "decrypt A c bytes aad = Ok msg \<longleftrightarrow>
      12 \<le> length bytes \<and> unseal A c (take 12 bytes) (drop 12 bytes) aad = Some msg"
    by (auto simp: decrypt_def Let_def not_less split: option.splits)
  also have "\<dots> \<longleftrightarrow> (\<exists>n body. bytes = n @ body \<and> length n = 12 \<and> unseal A c n body aad = Some msg)"
    (is "?l \<longleftrightarrow> ?r")
  proof
    assume ?l
    then have "bytes = take 12 bytes @ drop 12 bytes \<and> length (take 12 bytes) = 12 \<and>
        unseal A c (take 12 bytes) (drop 12 bytes) aad = Some msg"
      by simp
    then show ?r by blast
  qed auto
  finally show "decrypt A c bytes aad = Ok msg \<longleftrightarrow>
      (\<exists>n body. bytes = n @ body \<and> length n = 12 \<and> unseal A c n body aad = Some msg)" .
qed (auto simp: decrypt_def Let_def split: option.split)

definition toy_primitives :: "(nat, nat, nat \<times> u8 list) primitives" where
  "toy_primitives = \<lparr>public_key = Suc, sign_bytes = (\<lambda>k m. (Suc k, m)),
     check_signature = (\<lambda>k m s. s = (k, m)), keccak256 = id, blake3_hash = id\<rparr>"

theorem engine_verifies_own_signatures_witness:
  "\<exists>s. engine_sign toy_primitives [1, 2] s = Ok (8, [1, 2]) \<and>
     engine_verify toy_primitives [1, 2] (8, [1, 2]) s = Ok True"
proof -
  let ?s = "snd (generate_keypair toy_primitives 7 engine_new)"
  have "engine_reachable toy_primitives ?s"
    by (rule engine_keys [OF engine_start]) (simp add: generate_keypair_def)
  moreover have "engine_sign toy_primitives [1, 2] ?s = Ok (8, [1, 2])"
    by (simp add: generate_keypair_def engine_sign_def toy_primitives_def)
  ultimately show ?thesis
    using engine_verifies_own_signatures [of toy_primitives ?s "[1, 2]"]
    by (auto simp: toy_primitives_def)
qed

definition toy_aead :: "unit aead" where
  "toy_aead = \<lparr>cipher_new = (\<lambda>_. ()), seal = (\<lambda>_ n m aad. Some (rev m @ aad)),
     unseal = (\<lambda>_ n x aad. if drop (length x - length aad) x = aad
       then Some (rev (take (length x - length aad) x)) else None)\<rparr>"

theorem encryption_roundtrip_witness:
  "decrypt toy_aead () (replicate 12 7 @ [3, 2, 1, 9]) [9] = Ok [1, 2, 3]"
  using encryption_roundtrip [of toy_aead "()" "replicate 12 7" "[1, 2, 3]" "[9]"]
  by (simp add: toy_aead_def encrypt_def)

end
