(* ===== verification/Debugger.thy ===== *)
theory Debugger
  imports Blocking VM_State Memory_Manager
begin

text \<open>
  Model of \<open>src/debug/mod.rs\<close>: stepping and running to a breakpoint over a machine behind an
  asynchronous lock, with a bounded trace and profiling data. The debugger calls operations that
  \<open>VM\<close> does not have (\<open>step\<close>, \<open>pc\<close>, \<open>current_opcode\<close> and others); they are the fields of \<open>vm_ops\<close>
  over a machine \<open>'vm\<close> whose memory snapshots have type \<open>'m\<close>. The conversion of a memory error into
  a machine error, which the code omits, is a field as well. \<open>'f\<close> stands for \<open>f64\<close>, whose operations are
  fields too. Durations and instants are natural numbers of nanoseconds.
\<close>

section \<open>Model\<close>

record ('vm, 'm, 'f) vm_ops =
  vm_single_step :: "('vm, vm_error, unit) comp"
  current_opcode :: "'vm \<Rightarrow> u8"
  vm_pc :: "'vm \<Rightarrow> usize"
  vm_stack :: "'vm \<Rightarrow> val list"
  vm_memory :: "'vm \<Rightarrow> 'm"
  vm_gas_used :: "'vm \<Rightarrow> u64"
  last_gas_cost :: "'vm \<Rightarrow> u64"
  stack_depth :: "'vm \<Rightarrow> usize"
  memory_failure :: "mem_error \<Rightarrow> vm_error"
  f64_zero :: 'f
  f64_of :: "u64 \<Rightarrow> 'f"
  f64_add :: "'f \<Rightarrow> 'f \<Rightarrow> 'f"
  f64_mul :: "'f \<Rightarrow> 'f \<Rightarrow> 'f"
  f64_div :: "'f \<Rightarrow> 'f \<Rightarrow> 'f"

record breakpoint =
  bp_address :: usize
  bp_condition :: "string option"
  hit_count :: usize
  bp_enabled :: bool

record 'm stack_frame =
  function_name :: string
  frame_pc :: usize
  frame_locals :: "string \<rightharpoonup> val"
  frame_stack :: "val list"
  frame_memory :: 'm

record 'm trace_entry =
  te_timestamp :: nat
  te_opcode :: u8
  te_pc :: usize
  te_stack :: "val list"
  te_memory :: 'm
  te_gas_used :: u64

record 'f opcode_stats =
  os_count :: usize
  os_total_gas :: u64
  os_total_time :: nat
  avg_stack_depth :: 'f

record memory_profile =
  mp_allocations :: usize
  mp_deallocations :: usize
  peak_memory :: usize
  current_memory :: usize

record 'f gas_profile =
  total_gas_used :: u64
  gas_per_second :: 'f
  peak_gas_rate :: 'f

record 'f profiling_data =
  opcode_profile :: "u8 \<rightharpoonup> 'f opcode_stats"
  memory_profile :: memory_profile
  gas_profile :: "'f gas_profile"

record ('vm, 'm, 'f, 'net) debugger =
  dbg_vm :: 'vm
  dbg_memory :: memory_manager
  dbg_network :: 'net
  breakpoints :: "usize \<rightharpoonup> breakpoint"
  call_stack :: "'m stack_frame list"
  debug_trace :: "'m trace_entry list"
  profiling :: "'f profiling_data"

type_synonym ('vm, 'm, 'f, 'net, 'a) dbg_comp = "(('vm, 'm, 'f, 'net) debugger, vm_error, 'a) comp"
type_synonym ('vm, 'm, 'f, 'net, 'a) dbg_call = "(('vm, 'm, 'f, 'net) debugger, vm_error, 'a) blocking"

definition stats_default :: "('vm, 'm, 'f) vm_ops \<Rightarrow> 'f opcode_stats" where
  "stats_default V = \<lparr>os_count = 0, os_total_gas = 0, os_total_time = 0, avg_stack_depth = f64_zero V\<rparr>"

definition profiling_default :: "('vm, 'm, 'f) vm_ops \<Rightarrow> 'f profiling_data" where
  "profiling_default V =
     \<lparr>opcode_profile = Map.empty,
      memory_profile = \<lparr>mp_allocations = 0, mp_deallocations = 0, peak_memory = 0, current_memory = 0\<rparr>,
      gas_profile = \<lparr>total_gas_used = 0, gas_per_second = f64_zero V, peak_gas_rate = f64_zero V\<rparr>\<rparr>"

definition debugger_new ::
  "('vm, 'm, 'f) vm_ops \<Rightarrow> 'vm \<Rightarrow> memory_manager \<Rightarrow> 'net \<Rightarrow> ('vm, 'm, 'f, 'net) debugger" where
  "debugger_new V vm mem net =
     \<lparr>dbg_vm = vm, dbg_memory = mem, dbg_network = net, breakpoints = Map.empty, call_stack = [],
      debug_trace = [], profiling = profiling_default V\<rparr>"

subsection \<open>Profiling and tracing\<close>

definition stats_of :: "('vm, 'm, 'f) vm_ops \<Rightarrow> u8 \<Rightarrow> ('vm, 'm, 'f, 'net) debugger \<Rightarrow> 'f opcode_stats" where
  "stats_of V opc s =
     (case opcode_profile (profiling s) opc of None \<Rightarrow> stats_default V | Some st \<Rightarrow> st)"

definition set_stats ::
  "u8 \<Rightarrow> 'f opcode_stats \<Rightarrow> ('vm, 'm, 'f, 'net) debugger \<Rightarrow> ('vm, 'm, 'f, 'net) debugger" where
  "set_stats opc st s =
     s\<lparr>profiling := (profiling s)\<lparr>opcode_profile := (opcode_profile (profiling s))(opc \<mapsto> st)\<rparr>\<rparr>"

text \<open>\<open>Duration\<close> addition panics beyond \<open>2 ^ 64\<close> seconds.\<close>

definition add_duration :: "nat \<Rightarrow> nat \<Rightarrow> nat option" where
  "add_duration x y = (if x + y < 2 ^ 64 * 10 ^ 9 then Some (x + y) else None)"

definition count_opcode ::
  "build \<Rightarrow> ('vm, 'm, 'f) vm_ops \<Rightarrow> u8 \<Rightarrow> nat \<Rightarrow> ('vm, 'm, 'f, 'net, unit) dbg_comp" where
  "count_opcode b V opc elapsed =
     andthen (reads (stats_of V opc)) (\<lambda>st.
     andthen (updates (set_stats opc st)) (\<lambda>_.
     andthen (or_panic ArithmeticOverflow (add_u b (os_count st) 1)) (\<lambda>n.
     andthen (updates (set_stats opc (st\<lparr>os_count := n\<rparr>))) (\<lambda>_.
     andthen (or_panic ArithmeticOverflow (add_duration (os_total_time st) elapsed)) (\<lambda>t.
     updates (set_stats opc (st\<lparr>os_count := n, os_total_time := t\<rparr>)))))))"

definition average_depth ::
  "build \<Rightarrow> ('vm, 'm, 'f) vm_ops \<Rightarrow> usize \<Rightarrow> 'f opcode_stats \<Rightarrow> (vm_error, 'f) outcome" where
  "average_depth b V depth st =
     (case sub_u b (os_count st) 1 of
        None \<Rightarrow> Panic ArithmeticOverflow
      | Some n \<Rightarrow> Ok (f64_div V (f64_add V (f64_mul V (avg_stack_depth st) (f64_of V n)) (f64_of V depth))
          (f64_of V (os_count st))))"

definition count_gas ::
  "build \<Rightarrow> ('vm, 'm, 'f) vm_ops \<Rightarrow> u8 \<Rightarrow> ('vm, 'm, 'f, 'net, unit) dbg_comp" where
  "count_gas b V opc =
     andthen (reads dbg_vm) (\<lambda>vm.
     andthen (reads (stats_of V opc)) (\<lambda>st.
     andthen (or_panic ArithmeticOverflow (add_u b (os_total_gas st) (last_gas_cost V vm))) (\<lambda>gas.
     andthen (updates (set_stats opc (st\<lparr>os_total_gas := gas\<rparr>))) (\<lambda>_.
     andthen (lift_outcome (average_depth b V (stack_depth V vm) st)) (\<lambda>avg.
     updates (set_stats opc (st\<lparr>os_total_gas := gas, avg_stack_depth := avg\<rparr>)))))))"

text \<open>\<open>g\<close> is the guard on the machine that the caller holds.\<close>

definition update_profiling ::
  "guard \<Rightarrow> build \<Rightarrow> ('vm, 'm, 'f) vm_ops \<Rightarrow> u8 \<Rightarrow> nat \<Rightarrow> ('vm, 'm, 'f, 'net, unit) dbg_call" where
  "update_profiling g b V opc elapsed =
     chain (runs (count_opcode b V opc elapsed)) (\<lambda>_.
     chain (lock_read g) (\<lambda>_. runs (count_gas b V opc)))"

definition entry_of :: "('vm, 'm, 'f) vm_ops \<Rightarrow> nat \<Rightarrow> 'vm \<Rightarrow> 'm trace_entry" where
  "entry_of V now vm =
     \<lparr>te_timestamp = now, te_opcode = current_opcode V vm, te_pc = vm_pc V vm, te_stack = vm_stack V vm,
      te_memory = vm_memory V vm, te_gas_used = vm_gas_used V vm\<rparr>"

definition record_trace ::
  "('vm, 'm, 'f) vm_ops \<Rightarrow> nat \<Rightarrow> 'vm \<Rightarrow> ('vm, 'm, 'f, 'net, unit) dbg_comp" where
  "record_trace V now vm =
     andthen (updates (\<lambda>s. s\<lparr>debug_trace := debug_trace s @ [entry_of V now vm]\<rparr>)) (\<lambda>_.
     updates (\<lambda>s. if 10000 < length (debug_trace s) then s\<lparr>debug_trace := tl (debug_trace s)\<rparr> else s))"

subsection \<open>Stepping and running\<close>

text \<open>The result of \<open>vm.step()\<close> is kept; a panic unwinds.\<close>

definition run_step ::
  "('vm, 'm, 'f) vm_ops \<Rightarrow> ('vm, 'm, 'f, 'net, (vm_error, unit) outcome) dbg_comp" where
  "run_step V = zoom dbg_vm (\<lambda>vm s. s\<lparr>dbg_vm := vm\<rparr>) (attempt (vm_single_step V))"

definition debug_step ::
  "build \<Rightarrow> ('vm, 'm, 'f) vm_ops \<Rightarrow> nat \<times> nat \<Rightarrow> ('vm, 'm, 'f, 'net, unit) dbg_call" where
  "debug_step b V t =
     chain (lock_write NoGuard) (\<lambda>_.
     chain (runs (run_step V)) (\<lambda>res.
     chain (runs (reads (\<lambda>s. current_opcode V (dbg_vm s)))) (\<lambda>opc.
     chain (update_profiling WriteGuard b V opc (fst t)) (\<lambda>_.
     chain (runs (reads dbg_vm)) (\<lambda>vm.
     chain (runs (record_trace V (snd t) vm)) (\<lambda>_.
     runs (lift_outcome res)))))))"

definition check_breakpoint_condition :: "breakpoint \<Rightarrow> bool" where
  "check_breakpoint_condition bp = (case bp_condition bp of Some _ \<Rightarrow> True | None \<Rightarrow> True)"

text \<open>Whether the loop stops at the current program counter.\<close>

definition at_breakpoint ::
  "build \<Rightarrow> ('vm, 'm, 'f) vm_ops \<Rightarrow> ('vm, 'm, 'f, 'net, bool) dbg_comp" where
  "at_breakpoint b V =
     andthen (reads (\<lambda>s. vm_pc V (dbg_vm s))) (\<lambda>pc.
     andthen (reads (\<lambda>s. breakpoints s pc)) (\<lambda>x.
     case x of
       None \<Rightarrow> ret False
     | Some bp \<Rightarrow>
         if bp_enabled bp
         then andthen (or_panic ArithmeticOverflow (add_u b (hit_count bp) 1)) (\<lambda>n.
              andthen (updates (\<lambda>s. s\<lparr>breakpoints := (breakpoints s)(pc \<mapsto> bp\<lparr>hit_count := n\<rparr>)\<rparr>)) (\<lambda>_.
              ret (check_breakpoint_condition (bp\<lparr>hit_count := n\<rparr>))))
         else ret False))"

text \<open>One turn of the loop answers whether to leave it. \<open>ts\<close> are the clock readings of the steps. No
  result means that the call never returns.\<close>

definition continue_once ::
  "build \<Rightarrow> ('vm, 'm, 'f) vm_ops \<Rightarrow> nat \<times> nat \<Rightarrow> ('vm, 'm, 'f, 'net, bool) dbg_call" where
  "continue_once b V t =
     chain (runs (at_breakpoint b V)) (\<lambda>stop.
     if stop then runs (ret True) else chain (debug_step b V t) (\<lambda>_. runs (ret False)))"

definition leave_loop :: "(vm_error, bool) outcome \<times> 's \<Rightarrow> (vm_error, unit) outcome \<times> 's" where
  "leave_loop x = (bind_outcome (fst x) (\<lambda>_. Ok ()), snd x)"

partial_function (option) continue_execution ::
  "build \<Rightarrow> ('vm, 'm, 'f) vm_ops \<Rightarrow> (nat \<Rightarrow> nat \<times> nat) \<Rightarrow> nat \<Rightarrow> ('vm, 'm, 'f, 'net) debugger \<Rightarrow>
   ((vm_error, unit) outcome \<times> ('vm, 'm, 'f, 'net) debugger) option" where
  "continue_execution b V ts k s =
     Option.bind (continue_once b V (ts k) s) (\<lambda>x.
       if fst x = Ok False then continue_execution b V ts (Suc k) (snd x) else Some (leave_loop x))"

subsection \<open>Breakpoints and queries\<close>

definition add_breakpoint ::
  "usize \<Rightarrow> string option \<Rightarrow> ('vm, 'm, 'f, 'net) debugger \<Rightarrow> ('vm, 'm, 'f, 'net) debugger" where
  "add_breakpoint addr cond s =
     s\<lparr>breakpoints := (breakpoints s)(addr \<mapsto>
       \<lparr>bp_address = addr, bp_condition = cond, hit_count = 0, bp_enabled = True\<rparr>)\<rparr>"

definition remove_breakpoint ::
  "usize \<Rightarrow> ('vm, 'm, 'f, 'net) debugger \<Rightarrow> ('vm, 'm, 'f, 'net) debugger" where
  "remove_breakpoint addr s = s\<lparr>breakpoints := (breakpoints s)(addr := None)\<rparr>"

definition get_stack_trace :: "('vm, 'm, 'f, 'net) debugger \<Rightarrow> 'm stack_frame list" where
  "get_stack_trace s = call_stack s"

definition get_profiling_data :: "('vm, 'm, 'f, 'net) debugger \<Rightarrow> 'f profiling_data" where
  "get_profiling_data s = profiling s"

definition get_local_variables :: "('vm, 'm, 'f, 'net) debugger \<Rightarrow> string \<rightharpoonup> val" where
  "get_local_variables s = (if call_stack s = [] then Map.empty else frame_locals (last (call_stack s)))"

definition inspect_memory ::
  "build \<Rightarrow> ('vm, 'm, 'f) vm_ops \<Rightarrow> mem_address \<Rightarrow> usize \<Rightarrow> ('vm, 'm, 'f, 'net, u8 list) dbg_comp" where
  "inspect_memory b V addr n =
     zoom dbg_memory (\<lambda>m s. s\<lparr>dbg_memory := m\<rparr>) (mapping_err (memory_failure V) (mem_read b addr n))"

definition get_trace_range ::
  "nat \<Rightarrow> nat \<Rightarrow> ('vm, 'm, 'f, 'net) debugger \<Rightarrow> (vm_error, 'm trace_entry list) outcome" where
  "get_trace_range lo hi s =
     (let n = length (debug_trace s); lo = min lo n; hi = min hi n in
      if hi < lo then Panic IndexOutOfBounds
      else Ok (take (hi - lo) (drop lo (debug_trace s))))"

section \<open>Properties\<close>

lemma update_profiling_mono: "guard_mono (\<lambda>g. update_profiling g b V opc elapsed)"
  unfolding update_profiling_def by (intro guard_mono_chain guard_mono_locks guard_mono_const)

lemma run_step_no_error: "run_step V s \<noteq> (Err e, s')"
  by (simp add: run_step_def zoom_def attempt_def split: prod.split outcome.split)

lemma count_opcode_no_error: "count_opcode b V opc elapsed s \<noteq> (Err e, s')"
proof -
  have "wp (count_opcode b V opc elapsed) (\<lambda>_ _. True) (\<lambda>_ _. False) (\<lambda>_ _. True) s"
    by (simp add: count_opcode_def wp_simps split: option.split)
  then show ?thesis by (auto simp: wp_def)
qed

lemma debug_step_blocks: "debug_step b V t s = Some (r, s') \<Longrightarrow> \<exists>p. r = Panic p"
  by (auto simp: debug_step_def update_profiling_def chain_def lock_read_def run_step_no_error
      count_opcode_no_error
      split: outcome.splits option.splits prod.splits)

text \<open>A single step never returns. It holds the write lock of the machine while it updates the
  profile, which asks for the read lock of the same machine; only a panic before that ends the call.
  Nothing is ever traced.\<close>

theorem debug_step_never_returns:
  "case debug_step b V t s of None \<Rightarrow> True | Some (r, _) \<Rightarrow> \<exists>p. r = Panic p"
  using debug_step_blocks [of b V t s] by (auto split: option.split)

lemma continue_result:
  "(continue_execution b V ts k s = Some (Ok (), s') \<longleftrightarrow>
     (\<exists>bp n. breakpoints s (vm_pc V (dbg_vm s)) = Some bp \<and> bp_enabled bp \<and> add_u b (hit_count bp) 1 = Some n \<and>
        s' = s\<lparr>breakpoints := (breakpoints s)(vm_pc V (dbg_vm s) \<mapsto> bp\<lparr>hit_count := n\<rparr>)\<rparr>)) \<and>
   continue_execution b V ts k s \<noteq> Some (Err e, s')"
proof -
  let ?pc = "vm_pc V (dbg_vm s)"
  have bp: "at_breakpoint b V s =
      (case breakpoints s ?pc of
         Some bp \<Rightarrow>
           if bp_enabled bp
           then (case add_u b (hit_count bp) 1 of
               None \<Rightarrow> (Panic ArithmeticOverflow, s)
             | Some n \<Rightarrow> (Ok True, s\<lparr>breakpoints := (breakpoints s)(?pc \<mapsto> bp\<lparr>hit_count := n\<rparr>)\<rparr>))
           else (Ok False, s)
       | None \<Rightarrow> (Ok False, s))"
    by (simp add: at_breakpoint_def check_breakpoint_condition_def split: option.split)
  have blocked: "debug_step b V t s = Some (r, s') \<Longrightarrow> \<exists>p. r = Panic p" for t r s'
    by (rule debug_step_blocks)
  show ?thesis
    using bp blocked [of "ts k"]
    by (subst (1 2) continue_execution.simps)
      (auto simp: continue_once_def chain_runs chain_def leave_loop_def Option.bind_eq_Some_conv
        split: option.splits if_splits outcome.splits)
qed

lemmas continue_returns_iff = continue_result [THEN conjunct1]

text \<open>C33: Running to a breakpoint ends normally exactly if the machine already stands at an enabled
  breakpoint, whatever its condition: it counts the hit and changes nothing else. Every other run, and
  so every run that would have to execute an instruction, never returns or panics. No error is ever
  returned.\<close>

theorem continue_execution_returns:
  "(continue_execution b V ts k s = Some (Ok (), s') \<longleftrightarrow>
     (\<exists>bp n. breakpoints s (vm_pc V (dbg_vm s)) = Some bp \<and> bp_enabled bp \<and> add_u b (hit_count bp) 1 = Some n \<and>
        s' = s\<lparr>breakpoints := (breakpoints s)(vm_pc V (dbg_vm s) \<mapsto> bp\<lparr>hit_count := n\<rparr>)\<rparr>)) \<and>
   continue_execution b V ts k s \<noteq> Some (Err e, s')"
  by (rule continue_result)

text \<open>The trace is a window on the latest ten thousand records, in order.\<close>

theorem trace_keeps_latest:
  assumes "length (debug_trace s) \<le> 10000"
  shows "debug_trace (fold (\<lambda>(t, vm) s. snd (record_trace V t vm s)) xs s) =
    (let all = debug_trace s @ map (\<lambda>(t, vm). entry_of V t vm) xs in drop (length all - 10000) all)"
  using assms
proof (induction xs arbitrary: s)
  case (Cons x xs)
  obtain t vm where x: "x = (t, vm)" by fastforce
  let ?s = "snd (record_trace V t vm s)"
  have s: "debug_trace ?s = drop (length (debug_trace s) - 9999) (debug_trace s @ [entry_of V t vm])"
    using Cons.prems
    by (cases "length (debug_trace s) = 10000") (auto simp: record_trace_def tl_append split: list.split)
  then have len: "length (debug_trace ?s) \<le> 10000" by simp
  show ?case
    unfolding x fold.simps comp_def prod.case Cons.IH [OF len] Let_def s
    using Cons.prems by (cases "length (debug_trace s) = 10000") simp_all
qed (simp add: Let_def)

definition counter_ops :: "(nat, unit, nat) vm_ops" where
  "counter_ops =
     \<lparr>vm_single_step = updates Suc, current_opcode = (\<lambda>_. 0x01), vm_pc = of_nat, vm_stack = (\<lambda>_. []),
      vm_memory = (\<lambda>_. ()), vm_gas_used = (\<lambda>_. 0), last_gas_cost = (\<lambda>_. 3), stack_depth = of_nat,
      memory_failure = (\<lambda>_. StackUnderflow), f64_zero = 0, f64_of = unat, f64_add = (+), f64_mul = (*),
      f64_div = (div)\<rparr>"

definition small_memory :: memory_manager where
  "small_memory =
     memory_manager_new \<lparr>conf_page_size = 16, conf_gc_threshold = 100, conf_cache_size = 4\<rparr>"

theorem trace_keeps_latest_witness:
  "map te_pc (debug_trace (fold (\<lambda>(t, vm) s. snd (record_trace counter_ops t vm s)) [(10, 5), (20, 6)]
     (debugger_new counter_ops 0 small_memory ()))) = [5, 6]"
proof -
  let ?s = "debugger_new counter_ops 0 small_memory ()"
  have s: "debug_trace ?s = []" by (simp add: debugger_new_def)
  then have "length (debug_trace ?s) \<le> 10000" by simp
  from trace_keeps_latest [OF this, of counter_ops "[(10, 5), (20, 6)]"]
  have "debug_trace (fold (\<lambda>(t, vm) s. snd (record_trace counter_ops t vm s)) [(10, 5), (20, 6)] ?s) =
      [entry_of counter_ops 10 5, entry_of counter_ops 20 6]"
    by (simp add: s Let_def del: fold.simps)
  then show ?thesis by (simp only: list.map) (simp add: entry_of_def counter_ops_def)
qed

end
