(* ===== verification/Crate_Tests.thy ===== *)
theory Crate_Tests
  imports Consensus_Properties Peers Sync_Properties Crypto Trie Debugger "HOL-Library.List_Lexorder"
begin

text \<open>
  The unit tests at the end of \<open>consensus.rs\<close>, \<open>message.rs\<close>, \<open>peer.rs\<close> and \<open>sync.rs\<close> (in
  \<open>src/network/\<close>), of \<open>src/crypto/mod.rs\<close>, \<open>src/state/trie.rs\<close> and \<open>src/debug/mod.rs\<close>, on the model:
  each is a predicate that says whether the test passes, and theorems say when it does. What the tests
  leave open is an argument: clock readings, random identifiers, the iteration order of maps, the
  libraries. The two tests of \<open>message.rs\<close> that sign read the keys with \<open>signing_key\<close> and
  \<open>verifying_key\<close>, which \<open>CryptoEngine\<close> does not have; the two are arguments.
\<close>

section \<open>The tests\<close>

definition passes :: "('s \<Rightarrow> bool) \<Rightarrow> ('e, 'a) outcome \<times> 's \<Rightarrow> bool" where
  "passes P r = (case r of (Ok _, s) \<Rightarrow> P s | _ \<Rightarrow> False)"

subsection \<open>Consensus\<close>

definition test_validator :: "string \<Rightarrow> validator_info" where
  "test_validator v =
     \<lparr>val_address = v, stake = 1000, last_proposed = 0, total_proposed = 0, total_validated = 0,
      uptime = 0x3FF0000000000000\<rparr>"

definition insert_validator :: "string \<Rightarrow> consensus_state \<Rightarrow> consensus_state" where
  "insert_validator v s = s\<lparr>validators := (validators s)(v \<mapsto> test_validator v)\<rparr>"

definition test_transaction :: transaction where
  "test_transaction =
     \<lparr>tx_nonce = 0, tx_from = ''sender'', tx_to = ''receiver'', tx_value = 100, tx_data = [],
      tx_signature = None\<rparr>"

definition test_consensus_flow :: "build \<Rightarrow> 'k crypto_env \<Rightarrow> nat \<Rightarrow> u64 \<Rightarrow> nat \<Rightarrow> string list \<Rightarrow> bool" where
  "test_consensus_flow b E started now_secs now ks =
     passes (\<lambda>s. st_round (get_status now s) = 1)
       (andthen (process_transaction test_transaction) (\<lambda>_.
        process_round b consensus_config_default E now_secs ks)
          (insert_validator ''validator1'' (consensus_state_new started)))"

definition three_validators :: "nat \<Rightarrow> consensus_state" where
  "three_validators started =
     fold (\<lambda>i. insert_validator (''validator'' @ decimal i)) [1, 2, 3] (consensus_state_new started)"

definition test_validator_selection :: "build \<Rightarrow> nat \<Rightarrow> string list \<Rightarrow> bool" where
  "test_validator_selection b started ks =
     (case select_proposer b ks (three_validators started) of
        (Ok proposer, _) \<Rightarrow> take 9 proposer = ''validator''
      | _ \<Rightarrow> False)"

subsection \<open>Messages\<close>

definition empty_block :: "'k crypto_env \<Rightarrow> block" where
  "empty_block E =
     \<lparr>header = \<lparr>parent_hash = default_hash E, hd_timestamp = 0, number = 0, author = ''test'',
        transactions_root = default_hash E, hd_state_root = default_hash E,
        hd_receipts_root = default_hash E\<rparr>,
      transactions = [], blk_state_root = default_hash E, blk_receipts_root = default_hash E\<rparr>"

definition test_block_verification :: "'k crypto_env \<Rightarrow> bool" where
  "test_block_verification E \<longleftrightarrow> block_verify E (empty_block E) = Some True"

definition test_message_signing ::
  "('k, 'k, 'sig) primitives \<Rightarrow> 'k crypto_env \<Rightarrow> (('k, 'k) crypto_engine \<Rightarrow> 'k option) \<Rightarrow>
   (('k, 'k) crypto_engine \<Rightarrow> 'k option) \<Rightarrow> 'k \<Rightarrow> u64 \<Rightarrow> bool" where
  "test_message_signing P E read_signing read_verifying random now =
     passes (\<lambda>crypto. case read_signing crypto of
         Some key \<Rightarrow>
           passes (\<lambda>msg. case read_verifying crypto of
               Some vk \<Rightarrow> message_verify E vk msg = Ok True
             | None \<Rightarrow> False)
             (message_sign E key (message_new now Ping ''test_sender''))
       | None \<Rightarrow> False)
       (generate_keypair P random engine_new)"

definition test_transaction_signing ::
  "('k, 'k, 'sig) primitives \<Rightarrow> 'k crypto_env \<Rightarrow> (('k, 'k) crypto_engine \<Rightarrow> 'k option) \<Rightarrow> 'k \<Rightarrow> bool"
where
  "test_transaction_signing P E read_signing random =
     passes (\<lambda>crypto. case read_signing crypto of
         Some key \<Rightarrow> passes (\<lambda>tx. tx_verify E tx = Some True) (tx_sign E key test_transaction)
       | None \<Rightarrow> False)
       (generate_keypair P random engine_new)"

subsection \<open>Peers\<close>

definition test_peer_reputation :: "nat \<Rightarrow> nat \<Rightarrow> 'i \<Rightarrow> 'c \<Rightarrow> bool" where
  "test_peer_reputation now now' i tx =
     (let p = update_reputation 50 (peer_new now now' i None tx);
          q = update_reputation (- 150) p
      in reputation p = 50 \<and> reputation q = - 100 \<and> is_banned q)"

text \<open>The three peers have identifiers drawn at random, and a channel each.\<close>

definition test_peer_manager ::
  "(nat \<Rightarrow> nat) \<Rightarrow> (nat \<Rightarrow> nat) \<Rightarrow> (nat \<Rightarrow> 'i) \<Rightarrow> (nat \<Rightarrow> 'c) \<Rightarrow> 'i list \<Rightarrow> bool" where
  "test_peer_manager now now' ids tx ks =
     (let made = (\<lambda>n. peer_new (now n) (now' n) (ids n) None (tx n)) in
      passes (\<lambda>m. case add_peer (made 3) m of
           (Err _, m') \<Rightarrow> length (get_peers ks m') = 2
         | _ \<Rightarrow> False)
        (andthen (add_peer (made 1)) (\<lambda>_. add_peer (made 2)) (peer_manager_new 2)))"

subsection \<open>Synchronisation\<close>

definition syncing :: "sync_status \<Rightarrow> bool" where
  "syncing st = (case st of SyncSyncing _ _ _ \<Rightarrow> True | _ \<Rightarrow> False)"

definition request_at :: "nat \<Rightarrow> sync_request" where
  "request_at t = \<lparr>sr_block_number = 1, sr_account = ''test'', sr_storage_keys = [], sr_timestamp = t\<rparr>"

definition test_response :: sync_response where
  "test_response = \<lparr>sp_block_number = 1, sp_account = ''test'', sp_storage_keys = []\<rparr>"

text \<open>The clock readings in their order: creation, start, the request and its pass, and the three of the
  answer.\<close>

definition test_sync_flow ::
  "build \<Rightarrow> 'p \<Rightarrow> 'p list \<Rightarrow> nat \<Rightarrow> nat \<Rightarrow> nat \<Rightarrow> nat \<Rightarrow> nat \<Rightarrow> nat \<Rightarrow> nat \<Rightarrow> bool" where
  "test_sync_flow b peer ks t0 t1 t2 t3 t4 t5 t6 =
     passes (\<lambda>s. syncing (get_sync_status s) \<and>
       passes (\<lambda>s. get_sync_status s = SyncIdle)
         (andthen (handle_request b (state_sync_new 10) t3 ks (request_at t2)) (\<lambda>_.
          handle_response b (state_sync_new 10) t4 t5 t6 ks test_response) s))
       (start_sync t1 peer (sync_state_new t0))"

text \<open>\<open>Instant - Duration\<close>, which panics when there is no such instant; \<open>None\<close> is the panic.\<close>

definition instant_minus :: "nat \<Rightarrow> nat \<Rightarrow> nat option" where
  "instant_minus t d = (if t < d then None else Some (t - d))"

definition test_sync_timeout :: "build \<Rightarrow> 'p \<Rightarrow> 'p list \<Rightarrow> nat \<Rightarrow> nat \<Rightarrow> nat \<Rightarrow> nat \<Rightarrow> nat \<Rightarrow> bool" where
  "test_sync_timeout b peer ks t0 t1 t2 t3 t4 =
     passes (\<lambda>s. case get_sync_status s of SyncFailed _ \<Rightarrow> True | _ \<Rightarrow> False)
       (andthen (start_sync t1 peer) (\<lambda>_.
        andthen (or_panic ArithmeticOverflow (instant_minus t2 (seconds 301))) (\<lambda>old.
        andthen (updates (\<lambda>s. s\<lparr>last_progress := old\<rparr>)) (\<lambda>_.
        andthen (or_panic ArithmeticOverflow (instant_minus t3 (seconds 31))) (\<lambda>sent.
        handle_request b (state_sync_new 10) t4 ks (request_at sent))))) (sync_state_new t0))"

subsection \<open>Cryptography\<close>

definition test_signing_and_verification :: "('sk, 'vk, 'sig) primitives \<Rightarrow> 'sk \<Rightarrow> bool" where
  "test_signing_and_verification P random =
     (let msg = map of_char ''test message'' in
      passes (\<lambda>eng. case engine_sign P msg eng of
          Ok signature \<Rightarrow> engine_verify P msg signature eng = Ok True | _ \<Rightarrow> False)
        (generate_keypair P random engine_new))"

definition test_symmetric_encryption :: "'c aead \<Rightarrow> u8 list \<Rightarrow> bool" where
  "test_symmetric_encryption A nonce =
     (let crypto = symmetric_new A (replicate 32 0);
          plaintext = map of_char ''secret message'';
          aad = map of_char ''additional data'' in
      case encrypt A crypto nonce plaintext aad of
        Ok ciphertext \<Rightarrow> decrypt A crypto ciphertext aad = Ok plaintext
      | _ \<Rightarrow> False)"

subsection \<open>The trie\<close>

definition test_key :: "nat \<Rightarrow> u8 list" where
  "test_key n = map of_char (''key'' @ decimal n)"

definition test_value :: "nat \<Rightarrow> u8 list" where
  "test_value n = map of_char (''value'' @ decimal n)"

definition test_trie_operations :: "('db, 'h) trie_lib \<Rightarrow> bool" where
  "test_trie_operations L =
     passes (\<lambda>t.
         trie_get L (test_key 1) t = Ok (Some (test_value 1)) \<and>
         trie_get L (test_key 2) t = Ok (Some (test_value 2)) \<and>
         trie_get L (test_key 3) t = Ok None \<and>
         (case trie_delete L (test_key 1) t of
            (Ok deleted, t') \<Rightarrow>
              deleted \<and> trie_get L (test_key 1) t' = Ok None \<and>
              (case trie_proof L (test_key 2) t' of
                 Ok pf \<Rightarrow> trie_verify L (test_key 2) pf t' = Ok True
               | _ \<Rightarrow> False)
          | _ \<Rightarrow> False))
       (andthen (trie_insert L (test_key 1) (test_value 1)) (\<lambda>_.
        trie_insert L (test_key 2) (test_value 2)) (trie_new L))"

definition test_trie_iteration :: "('db, 'h) trie_lib \<Rightarrow> bool" where
  "test_trie_iteration L =
     (let items = map (\<lambda>n. (test_key n, test_value n)) [1, 2, 3] in
      passes (\<lambda>t.
         case bind_outcome (trie_iter L t) collect_results of
           Ok collected \<Rightarrow> sort_key fst collected = items
         | _ \<Rightarrow> False)
       (fold (\<lambda>(k, v) m. andthen m (\<lambda>_. trie_insert L k v)) items (ret ()) (trie_new L)))"

subsection \<open>The debugger\<close>

text \<open>The machine and the network are made outside the debugger; \<open>ts\<close> and \<open>t\<close> are clock readings. A
  call that does not return fails the test.\<close>

definition test_debugger ::
  "build \<Rightarrow> ('vm, 'm, 'f) vm_ops \<Rightarrow> 'vm \<Rightarrow> 'net \<Rightarrow> (nat \<Rightarrow> nat \<times> nat) \<Rightarrow> nat \<times> nat \<Rightarrow> bool" where
  "test_debugger b V vm net ts t =
     (let mem = memory_manager_new
            \<lparr>conf_page_size = 4096, conf_gc_threshold = 1024 * 1024, conf_cache_size = 1000\<rparr>;
          dbg = add_breakpoint 2 None (debugger_new V vm mem net)
      in case continue_execution b V ts 0 dbg of
           None \<Rightarrow> False
         | Some run \<Rightarrow> passes (\<lambda>s.
             get_stack_trace s \<noteq> [] \<and>
             (case debug_step b V t s of
                None \<Rightarrow> False
              | Some run' \<Rightarrow> passes (\<lambda>s. opcode_profile (get_profiling_data s) 0x02 \<noteq> None) run')) run)"

section \<open>Their results\<close>

lemma passes_simps [simp]:
  "passes P (Ok a, s) = P s" "passes P (Err e, s) = False" "passes P (Panic p, s) = False"
  by (simp_all add: passes_def)

lemma add_u_zero [simp]: "add_u b 0 (x :: 64 word) = Some x"
  using unat_lt_2p64 [of x] by (simp add: add_u_def)

lemma consensus_flow_result:
  "test_consensus_flow b E started now_secs now [''validator1''] \<longleftrightarrow> ser_tx E test_transaction \<noteq> None"
  by (cases "ser_tx E test_transaction")
    (simp_all add: test_consensus_flow_def process_transaction_def validate_transaction_def
      process_round_def select_proposer_def create_block_def get_parent_hash_def zoom_def
      insert_validator_def test_validator_def consensus_state_new_def add_u_one
      map_len_def compute_transactions_root_def get_status_def andthen_def ok_or_def or_panic_def)

lemma block_verification_result:
  "test_block_verification E \<longleftrightarrow> blake3 E [] = default_hash E"
  by (simp add: test_block_verification_def empty_block_def block_verify_def
      compute_transactions_root_def)

lemma peer_reputation_result: "\<not> test_peer_reputation now now' i tx"
  by (simp add: test_peer_reputation_def update_reputation_def peer_new_def Let_def sat_add_s_def
      is_banned_def)

lemma signing_result:
  "test_signing_and_verification P random \<longleftrightarrow>
     (let msg = map of_char ''test message'' in
      check_signature P (public_key P random) msg (sign_bytes P random msg))"
  by (simp add: test_signing_and_verification_def generate_keypair_def engine_sign_def
      engine_verify_def engine_new_def Let_def)

text \<open>With accessors that return the keys of the pair and a message that can be encoded, the first test
  asks that a signature of the pair verifies; the second does not depend on the signature scheme.\<close>

lemma message_signing_result:
  assumes "\<And>k vk. read_signing \<lparr>signing_key = Some k, verification_key = Some vk\<rparr> = Some k"
    and "\<And>k vk. read_verifying \<lparr>signing_key = Some k, verification_key = Some vk\<rparr> = Some vk"
  shows "test_message_signing P E read_signing read_verifying random now \<longleftrightarrow>
     (\<exists>bytes. ser_message E (Ping, ''test_sender'', now) = Some bytes \<and>
        verify_with E (public_key P random) bytes (sign_with E random bytes) = Ok True)"
  by (cases "ser_message E (Ping, ''test_sender'', now)")
    (simp_all add: test_message_signing_def generate_keypair_def engine_new_def message_sign_def
      message_verify_def message_new_def assms)

lemma transaction_signing_result:
  assumes "\<And>k vk. read_signing \<lparr>signing_key = Some k, verification_key = Some vk\<rparr> = Some k"
  shows "test_transaction_signing P E read_signing random \<longleftrightarrow> tx_hash E test_transaction \<noteq> None"
proof -
  have "tx_hash E (test_transaction\<lparr>tx_signature := x\<rparr>) = tx_hash E test_transaction" for x
    by (simp add: tx_hash_def test_transaction_def)
  then show ?thesis
    by (cases "tx_hash E test_transaction")
      (simp_all add: test_transaction_signing_def generate_keypair_def engine_new_def tx_sign_def
        tx_verify_def assms)
qed

lemma encryption_result:
  assumes "length nonce = 12"
  shows "test_symmetric_encryption A nonce \<longleftrightarrow>
     (let c = cipher_new A (replicate 32 0);
          plaintext = map of_char ''secret message''; aad = map of_char ''additional data''
      in \<exists>ct. seal A c nonce plaintext aad = Some ct \<and> unseal A c nonce ct aad = Some plaintext)"
  using assms
  by (auto simp: test_symmetric_encryption_def symmetric_new_def encrypt_def decrypt_def Let_def
      split: option.splits)

lemma pick_first: "vals k = Some v \<Longrightarrow> stake v \<noteq> 0 \<Longrightarrow> pick_proposer vals 0 (k # ks) = Some k"
  by (simp add: word_unat_eq_iff)

lemma sum_stakes_bounded:
  assumes "\<And>k v. vals k = Some v \<Longrightarrow> stake v = 1000" and "unat acc + 1000 * length ks < 2 ^ 64"
  shows "sum_stakes b vals acc ks \<noteq> None"
  using assms(2)
proof (induction ks arbitrary: acc)
  case (Cons k ks)
  have "unat (acc + 1000) = unat acc + 1000" "add_u b acc 1000 = Some (acc + 1000)"
    using Cons.prems by (simp_all add: unat_add_no_wrap add_u_exact)
  with Cons show ?case by (auto dest: assms(1) split: option.splits)
qed simp

lemma three_digits: "decimal 1 = ''1''" "decimal 2 = ''2''" "decimal 3 = ''3''"
  by code_simp+

lemma three_validators_map:
  "validators (three_validators started) =
     [''validator1'' \<mapsto> test_validator ''validator1'', ''validator2'' \<mapsto> test_validator ''validator2'',
      ''validator3'' \<mapsto> test_validator ''validator3'']"
  "current_round (three_validators started) = 0"
  by (simp_all add: three_validators_def insert_validator_def consensus_state_new_def three_digits
      del: One_nat_def)

lemma validator_selection_result:
  assumes "distinct ks" and "set ks = {''validator1'', ''validator2'', ''validator3''}"
  shows "test_validator_selection b started ks"
proof -
  let ?vals = "validators (three_validators started)"
  have vals: "?vals k = (if k \<in> set ks then Some (test_validator k) else None)" for k
    by (auto simp: three_validators_map assms(2))
  have len: "length ks = 3" using distinct_card [OF assms(1)] assms(2) by simp
  have "stake v = 1000" if "?vals k = Some v" for k v
    using that by (simp add: vals test_validator_def split: if_splits) (auto simp: test_validator_def)
  then have "sum_stakes b ?vals 0 ks \<noteq> None" by (rule sum_stakes_bounded) (simp_all add: len)
  then obtain total where total: "sum_stakes b ?vals 0 ks = Some total" by blast
  obtain k ks' where ks: "ks = k # ks'" using len by (cases ks) auto
  have "?vals k = Some (test_validator k)" by (simp add: vals ks)
  then have "pick_proposer ?vals 0 ks = Some k"
    unfolding ks by (rule pick_first) (simp add: test_validator_def)
  moreover have "map_len ?vals = 3" by (simp add: map_len_def three_validators_map)
  moreover have "k \<in> {''validator1'', ''validator2'', ''validator3''}"
    unfolding assms(2) [symmetric] ks by simp
  then have "take 9 k = ''validator''" by auto
  ultimately show ?thesis
    by (simp add: test_validator_selection_def select_proposer_def three_validators_map(2) total)
qed

lemma get_peers_length:
  "(\<And>i. i \<in> set ks \<Longrightarrow> peers m i \<noteq> None) \<Longrightarrow> length (get_peers ks m) = length ks"
  by (induction ks) (auto simp: get_peers_def List.map_filter_simps split: option.split)

lemma peer_manager_result:
  assumes "distinct ks" and "set ks = {ids 1, ids 2}"
  shows "test_peer_manager now now' ids tx ks \<longleftrightarrow> ids 1 \<noteq> ids 2"
proof -
  let ?made = "\<lambda>n. peer_new (now n) (now' n) (ids n) None (tx n)"
  let ?m = "(peer_manager_new 2)\<lparr>peers := [ids 1 \<mapsto> ?made 1, ids 2 \<mapsto> ?made 2]\<rparr>"
  have "andthen (add_peer (?made 1)) (\<lambda>_. add_peer (?made 2)) (peer_manager_new 2) = (Ok (), ?m)"
    by (simp add: andthen_def add_peer_def peer_manager_new_def peer_new_def map_len_def)
  then have *: "test_peer_manager now now' ids tx ks \<longleftrightarrow>
      (case add_peer (?made 3) ?m of (Err _, m') \<Rightarrow> length (get_peers ks m') = 2 | _ \<Rightarrow> False)"
    by (simp add: test_peer_manager_def Let_def)
  have dom: "dom (peers ?m) = {ids 1, ids 2}" by auto
  show ?thesis
  proof (cases "ids 1 = ids 2")
    case True
    then have "fst (add_peer (?made 3) ?m) = Ok ()"
      by (simp add: add_peer_def map_len_def peer_manager_new_def)
    with True show ?thesis unfolding * by (auto split: prod.split)
  next
    case False
    then have "map_len (peers ?m) = 2" by (simp add: map_len_def dom)
    then have "add_peer (?made 3) ?m = (Err ''Max peers reached'', ?m)"
      by (simp add: add_peer_def peer_manager_new_def)
    moreover have "length (get_peers ks ?m) = length ks" using assms(2)
      by (intro get_peers_length) auto
    moreover have "length ks = 2" using distinct_card [OF assms(1)] assms(2) False by simp
    ultimately show ?thesis unfolding * using False by simp
  qed
qed

text \<open>Both synchronisation tests have one peer, whose list of requests starts empty.\<close>

lemmas sync_run_defs =
  handle_request_def handle_response_def process_sync_queue_def check_timeouts_def start_sync_def
  sync_state_new_def state_sync_new_def requests_of_def set_requests_def available_peer_def
  retry_count_def request_at_def test_response_def answered_request_def complete_request_def
  note_progress_def finish_sync_def get_sync_status_def all_answered_def expired_def fail_stalled_def seconds_def

lemma sync_timeout_result:
  assumes "seconds 301 \<le> t2" "t2 \<le> t3" "t3 \<le> t4"
  shows "test_sync_timeout b peer [peer] t0 t1 t2 t3 t4"
proof -
  from assms have "\<not> t2 < seconds 301" "\<not> t3 < seconds 31" by (simp_all add: seconds_def)
  with assms show ?thesis
    by (simp add: test_sync_timeout_def instant_minus_def sync_run_defs andthen_def drain_queue.simps)
qed

lemma sync_flow_result:
  assumes "t1 \<le> t2" "t2 \<le> t3" "t3 \<le> t4" "t4 \<le> t5" "t5 \<le> t6" "t6 \<le> t1 + seconds 30"
  shows "test_sync_flow b peer [peer] t0 t1 t2 t3 t4 t5 t6 \<longleftrightarrow> t4 = t2"
proof -
  from assms have "\<not> 30000000000 < t6 - t2" "\<not> 300000000000 < t6 - t5" "\<not> 300000000000 < t3 - t1"
    "\<not> 30000000000 < t3 - t2" by (simp_all add: seconds_def)
  then show ?thesis
    by (simp add: test_sync_flow_def syncing_def sync_run_defs andthen_def drain_queue.simps)
qed

text \<open>What the unit tests of the network and crypto modules come to. The consensus flow passes exactly
  when its transaction can be serialised; the choice of a proposer passes in every iteration order of
  the three validators. The block test passes only if hashing the empty input gives the default
  hash, and the reputation test never passes: a reputation of -100 is not yet a ban. The peer test passes
  exactly when the two admitted peers drew different identifiers. The timeout test passes whatever the
  clock shows, but the flow test only if the clock reads the same at request and answer. Signing and
  encryption pass exactly when the libraries undo what they did.\<close>

theorem unit_test_results:
  assumes "distinct ks" "set ks = {''validator1'', ''validator2'', ''validator3''}"
    and "distinct ps" "set ps = {ids 1, ids 2}"
    and "t1 \<le> t2" "t2 \<le> t3" "t3 \<le> t4" "t4 \<le> t5" "t5 \<le> t6" "t6 \<le> t1 + seconds 30"
    and "length nonce = 12"
  shows "(test_consensus_flow b E now secs later [''validator1''] \<longleftrightarrow> ser_tx E test_transaction \<noteq> None) \<and>
    test_validator_selection b now ks \<and>
    (test_block_verification E \<longleftrightarrow> blake3 E [] = default_hash E) \<and>
    \<not> test_peer_reputation now later i tx \<and>
    (test_peer_manager clock clock' ids txs ps \<longleftrightarrow> ids 1 \<noteq> ids 2) \<and>
    (test_sync_flow b peer [peer] now t1 t2 t3 t4 t5 t6 \<longleftrightarrow> t4 = t2) \<and>
    (seconds 301 \<le> t2 \<longrightarrow> test_sync_timeout b peer [peer] now t1 t2 t3 t4) \<and>
    (test_signing_and_verification P sk \<longleftrightarrow>
       (let msg = map of_char ''test message'' in
        check_signature P (public_key P sk) msg (sign_bytes P sk msg))) \<and>
    (test_symmetric_encryption A nonce \<longleftrightarrow>
       (let c = cipher_new A (replicate 32 0);
            plaintext = map of_char ''secret message''; aad = map of_char ''additional data''
        in \<exists>ct. seal A c nonce plaintext aad = Some ct \<and> unseal A c nonce ct aad = Some plaintext))"
  by (intro conjI impI consensus_flow_result validator_selection_result [OF assms(1,2)]
      block_verification_result peer_reputation_result peer_manager_result [OF assms(3,4)]
      sync_flow_result [OF assms(5-10)] sync_timeout_result [OF _ assms(6,7)] signing_result
      encryption_result [OF assms(11)])

text \<open>The sample libraries encode the identity; with a clock that advances, the flow test fails.\<close>

theorem unit_test_results_witness:
  "test_validator_selection Debug 0 [''validator1'', ''validator2'', ''validator3''] \<and>
   \<not> test_sync_flow Debug () [()] 0 1 2 3 4 5 6 \<and>
   test_peer_manager id id (id :: nat \<Rightarrow> nat) id [1, 2] \<and>
   test_symmetric_encryption toy_aead (replicate 12 0)"
proof -
  have "seconds 30 = 30000000000" by (simp add: seconds_def)
  then show ?thesis
    using unit_test_results [where P = toy_primitives and A = toy_aead, of "[''validator1'', ''validator2'', ''validator3'']" "[1, 2]" id 1 2 3 4 5 6
        "replicate 12 0" Debug sample_env 0 0 0 "1 :: nat" "()" id id id "()"]
    by (simp add: toy_aead_def Let_def)
qed

text \<open>
  \<open>TrieDBMut::new\<close> is documented to start with an empty trie. So the root it answers after one
  insertion is that of a trie with this entry only.
\<close>

definition starts_empty :: "('db, 'h) trie_lib \<Rightarrow> bool" where
  "starts_empty L \<longleftrightarrow> (\<forall>k v d. \<exists>r d' h. db_insert L k v d = (Ok r, d') \<and> open_at L d' r = Ok h \<and>
     (\<forall>k'. look_up L h k' = Ok (if k' = k then Some v else None)) \<and> entries_at L h = [Ok (k, v)])"

lemma starts_emptyE:
  assumes "starts_empty L"
  obtains t' where "trie_insert L k v t = (Ok (), t')"
    and "\<And>k'. trie_get L k' t' = Ok (if k' = k then Some v else None)"
    and "trie_iter L t' = Ok [Ok (k, v)]"
proof -
  obtain r d' h where "db_insert L k v (trie_db t) = (Ok r, d')" "open_at L d' r = Ok h"
    "\<And>k'. look_up L h k' = Ok (if k' = k then Some v else None)" "entries_at L h = [Ok (k, v)]"
    using assms unfolding starts_empty_def by meson
  then show ?thesis
    by (intro that [of "t\<lparr>trie_db := d', trie_root := Some r\<rparr>"])
      (simp_all add: trie_insert_def zoom_def mapping_err_def andthen_def trie_get_def trie_iter_def
        open_root_def)
qed

text \<open>Every insertion loses what was inserted before it, so both tests of the trie fail: they insert
  several keys and read all of them.\<close>

theorem trie_tests_fail:
  assumes "starts_empty L"
  shows "\<not> test_trie_operations L \<and> \<not> test_trie_iteration L"
proof
  obtain t1 where t1: "trie_insert L (test_key 1) (test_value 1) (trie_new L) = (Ok (), t1)"
    using starts_emptyE [OF assms] by metis
  obtain t2 where t2: "trie_insert L (test_key 2) (test_value 2) t1 = (Ok (), t2)"
    and get: "\<And>k'. trie_get L k' t2 = Ok (if k' = test_key 2 then Some (test_value 2) else None)"
    using starts_emptyE [OF assms] by metis
  obtain t3 where t3: "trie_insert L (test_key 3) (test_value 3) t2 = (Ok (), t3)"
    and iter: "trie_iter L t3 = Ok [Ok (test_key 3, test_value 3)]"
    using starts_emptyE [OF assms] by metis
  have "test_key 1 \<noteq> test_key 2" by (simp add: test_key_def three_digits del: One_nat_def)
  then show "\<not> test_trie_operations L"
    by (simp add: test_trie_operations_def andthen_def t1 t2 get del: One_nat_def)
  show "\<not> test_trie_iteration L"
    by (simp add: test_trie_iteration_def andthen_def t1 t2 t3 iter del: One_nat_def)
qed

definition newest_lib :: "((u8 list \<times> u8 list) list, (u8 list \<times> u8 list) list) trie_lib" where
  "newest_lib =
     \<lparr>empty_db = [], open_at = (\<lambda>d r. Ok d), look_up = (\<lambda>h k. Ok (map_of h k)),
      make_proof = (\<lambda>_ _. Ok []), check_path = (\<lambda>_ _ _. Ok True), entries_at = map Ok,
      db_insert = (\<lambda>k v d. (Ok [1], [(k, v)])), db_remove = (\<lambda>k d. (Ok (False, [0]), []))\<rparr>"

theorem trie_tests_fail_witness: "\<not> test_trie_operations newest_lib"
proof -
  have "starts_empty newest_lib" by (simp add: starts_empty_def newest_lib_def)
  then show ?thesis using trie_tests_fail by blast
qed

text \<open>The test of the debugger fails on every machine: nothing ever pushes a frame on the stack trace
  that it reads, and the run before it does not even return unless the breakpoint is at the start.\<close>

theorem debugger_test_fails: "\<not> test_debugger b V vm net ts t"
proof -
  let ?s = "add_breakpoint 2 None (debugger_new V vm (memory_manager_new
    \<lparr>conf_page_size = 4096, conf_gc_threshold = 1024 * 1024, conf_cache_size = 1000\<rparr>) net)"
  have empty: "call_stack ?s = []" by (simp add: add_breakpoint_def debugger_new_def)
  have "\<not> get_stack_trace s \<noteq> []" if "continue_execution b V ts 0 ?s = Some (Ok (), s)" for s
    using continue_returns_iff [THEN iffD1, OF that] empty by (auto simp: get_stack_trace_def)
  then show ?thesis
    by (auto simp: test_debugger_def Let_def passes_def split: option.splits outcome.splits prod.splits)
qed

end
