(* ===== verification/Spec2Isabelle.thy ===== *)
theory Spec2Isabelle
  imports Permissions Memory_Coherence Memory_Locks Integration_Tests Consensus_Liveness Network_Properties
    Node_Composition State_Properties Machine_Tests Crate_Tests
begin

text \<open>
  A model of the zkMIPS virtual machine and the parts around it, with the theorems that say what each
  of them does and does not do.

  \<^bold>\<open>The program.\<close> \<open>src/lib.rs\<close> is the facade: it owns a virtual machine (\<open>src/vm.rs\<close>), the circuit that
  is to prove its runs (\<open>src/circuit.rs\<close>) and a proof system (\<open>src/proof.rs\<close>); \<open>src/main.rs\<close> drives it
  with an example. Beside it stand a memory manager (\<open>src/memory/\<close>: page table, segments, garbage
  collector, permissions and a cache), a network node (\<open>src/network/\<close>: messages, peers, state
  synchronisation and consensus, dispatched by the manager in \<open>mod.rs\<close>), a state manager over a Merkle
  trie (\<open>src/state/\<close>), cryptographic helpers (\<open>src/crypto/mod.rs\<close>) and a debugger
  (\<open>src/debug/mod.rs\<close>). The crate does not compile as it stands (missing modules and derives, types
  that do not match); the definitions follow what the text of each function says.

  \<^bold>\<open>How code becomes definitions.\<close> A struct is a record, an enum a datatype, an integer a word of its
  width, a hash map a partial map, a vector a list. A method is a computation
  \<open>'s \<Rightarrow> ('e, 'a) outcome \<times> 's\<close> on the state of its component: \<open>Ok\<close>, \<open>Err\<close> or \<open>Panic\<close> with the state
  left behind (\<open>Rust_Prelude\<close>). Arithmetic that can overflow takes the build, which panics (\<open>Debug\<close>) or
  wraps (\<open>Release\<close>). Calls that may wait for a lock they hold themselves have an optional result, \<open>None\<close>
  if they never return (\<open>Blocking\<close>). The iteration order of a hash map, the readings of a clock and
  random numbers are arguments. Libraries are records of functions: hash functions (\<open>H\<close>),
  \<open>crypto_env\<close>, \<open>proof_env\<close>, \<open>constraint_system\<close> and \<open>field_ops\<close>, \<open>network_env\<close>, \<open>trie_lib\<close>, \<open>state_env\<close>,
  \<open>primitives\<close>, \<open>aead\<close> and \<open>vm_ops\<close>; where a theorem needs a law of one, the law is a hypothesis or a
  locale that is interpreted.

  \<^bold>\<open>Virtual machine.\<close> \<open>VM_State\<close> has values, the gas schedule and the execution context, \<open>VM_Ops\<close> one
  definition for each instruction (\<open>op_push\<close> to \<open>op_balance\<close>), \<open>VM_Exec\<close> the dispatch, the step and the
  loop. \<open>vm_execute\<close> runs the loop with fuel: one more than the length of the program, which is always
  enough, since every instruction that does not end the run moves the program counter forward
  (\<open>no_instruction_twice\<close>). \<open>VM_Runs\<close> and \<open>VM_Provenance\<close> carry invariants through runs (locale
  \<open>metered_loop\<close>); the second shows that every value of a run stems from its program. \<open>VM_Interpreter\<close> is a second description of the machine, an interpreter that consumes
  the bytes of the program and knows neither program counter nor loop; \<open>vm_execute_refines\<close> shows that
  \<open>vm_execute\<close> does exactly what it does, errors and panics included. \<open>VM_Compile\<close> proves on the
  interpreter that compiled arithmetic computes the value of the expression for the exact gas, and
  \<open>VM_Properties\<close> has the rest: gas, invariants, the state root, \<open>CREATE\<close> and \<open>CALL\<close>. \<open>Machine_Tests\<close>
  runs the tests of \<open>tests/vm_tests.rs\<close> on the interpreter.

  \<^bold>\<open>Circuit, proofs and facade.\<close> \<open>Circuit\<close> is the synthesis, instruction by instruction, over any
  constraint system; the locale \<open>prover\<close> says what a prover's does (values are assigned, constraints are
  recorded), and \<open>Circuit_Properties\<close> derives which pairs of states a synthesised circuit accepts.
  \<open>Circuit_Evaluation\<close> is a reference evaluator on two concrete machine states, without variables and
  constraints; \<open>circuit_evaluates\<close> shows that synthesis returns, fails or panics as the evaluator does
  and that its constraints hold exactly when the evaluator accepts.
  \<open>Proof_System\<close> has setup, proving, verification and batches with the cache (locale \<open>proof_store\<close>,
  interpreted on \<open>Lru_Cache\<close>) and the builder. \<open>Zkvm\<close> composes the three and relates them: no run that
  consumes gas has an accepting circuit, and the facade never makes a proof. \<open>Main_Program\<close> is the
  driver.

  \<^bold>\<open>Memory.\<close> \<open>Permissions\<close>, \<open>Page_Table\<close> (locale \<open>page_store\<close>), \<open>Segments\<close>, \<open>Garbage_Collector\<close> and
  \<open>Lru_Cache\<close> (locale \<open>cache\<close>) are the parts, \<open>Memory_Manager\<close> composes them: \<open>mem_read\<close> and
  \<open>mem_write\<close> from the steps between which other threads can act. \<open>allocate\<close> never returns, as it asks for
  a lock that it holds; \<open>allocate_body\<close> is its body with that lock granted, and theorems about the data
  speak of it. \<open>Memory_Properties\<close> says what calls return, \<open>Memory_Concurrency\<close> interleaves the steps of
  any number of threads, with the invariant of all managers that are reached so and the double insertion by
  two overlapping reads, \<open>Memory_Coherence\<close> shows when the cache is invisible in all interleavings, and
  \<open>Memory_Locks\<close> treats the order in which the calls take their locks: all but \<open>allocate\<close> are free of
  deadlock.

  \<^bold>\<open>Network.\<close> \<open>Messages\<close> has blocks, transactions, hashing and signatures; \<open>Consensus\<close> the engine, with
  the quorum test as the locale \<open>quorum\<close>, and \<open>Consensus_Properties\<close> its agreement properties in every
  interleaving of votes; \<open>Consensus_Liveness\<close> has the timer loop of \<open>start\<close>, a sequence of passes with
  the calls of other tasks between the steps of each, and shows what makes the engine finalise and
  what stops it; \<open>Peers\<close> the peers and their manager (locale \<open>bounded_registry\<close>). \<open>State_Sync\<close> is
  the queue of state requests with its timeouts, \<open>Sync_Properties\<close> shows what becomes of requests.
  \<open>Network\<close> dispatches what arrives to the engine and the synchronisation; it interprets
  \<open>bounded_registry\<close> a second time, and \<open>Network_Properties\<close> lifts the properties of its parts to a node:
  what holds after any arrivals, and what ends the event loop. \<open>Node_Composition\<close> takes the node apart:
  the event loop is an interleaving of a run of the engine and a run of the rest, which share no state
  (\<open>loop_interleaves\<close>), so that arrivals for the one commute with arrivals for the other.

  \<^bold>\<open>State, cryptography, debugger.\<close> \<open>Trie\<close> and \<open>State_Manager\<close> are the accounts with their caches,
  updates, snapshots and proofs; \<open>State_Properties\<close> shows which updates wait for ever, what a successful
  one writes, and what a revert and the caches do to later reads. \<open>Crypto\<close> has the key pair and the
  framing of the encryption. \<open>Debugger\<close> has stepping, breakpoints and the bounded trace; a step waits for
  the lock it holds, so running to a breakpoint is a partial function, and the theorem says when it is
  defined.

  \<^bold>\<open>Concurrency.\<close> Every asynchronous method of the consensus engine and of the synchronisation holds its
  lock for its whole body and is one atomic step; the order of calls is arbitrary (sequences of steps
  or arrivals). The memory manager locks its parts one by one: \<open>read\<close> releases the cache between its lookup
  and its insertion, and both \<open>read\<close> and \<open>write\<close> check permissions under a lock of their own, so the steps
  of these calls interleave. A read of the page table and the insertion of what was read are one step,
  because the page table stays locked for reading between them, and what others do to the cache meanwhile
  might as well have been done before the read. The concurrent account updates of \<open>update_state\<close> run one after the other, in the order
  in which they finish: they share one exclusive reference to the trie. The parallel batch of the proof
  system only reads.

  \<^bold>\<open>Tests.\<close> \<open>Machine_Tests\<close> and \<open>Crate_Tests\<close> state the tests of the machine, the engine, the peers, the
  synchronisation, blocks, cryptography, the trie and the debugger as predicates, and prove which of
  them pass, and under what behaviour of the libraries. \<open>Facade_Tests\<close> does so for the tests that need
  a proof: none of them passes. \<open>Integration_Tests\<close> has those of \<open>tests/integration_tests.rs\<close> that run
  programs through the facade.

  \<^bold>\<open>Not modelled.\<close> The average collection time of the garbage collector, a floating point number;
  logging, metrics and printing. \<open>get_accounts_in_range\<close> is cut off by the end of its file. Of the
  tests, the one that connects two network nodes over the transport library; the benchmarks.
\<close>

end
